(* ===== verification/XL_Prelude.thy ===== *)
theory XL_Prelude
  imports Main "HOL-Library.Word" "HOL-Library.AList"
begin

text \<open>
  Shared vocabulary of the development: machine-integer type names, the
  \<open>Result\<close> combinators of Rust over HOL's sum type (\<open>Inl\<close> is \<open>Err\<close>,
  \<open>Inr\<close> is \<open>Ok\<close>), saturating counters, and hash maps as association lists
  with distinct keys. Iteration order of a Rust \<open>HashMap\<close> is unspecified;
  here it is the order of the list, and no lemma below depends on it.
\<close>

unbundle bit_operations_syntax

named_theorems result_simps \<open>rewriting Result chains\<close>
named_theorems table_simps \<open>rewriting lookups and sizes of tables\<close>
named_theorems limit_simps \<open>the numeric limits of the program\<close>

type_synonym u8 = "8 word"
type_synonym u16 = "16 word"
type_synonym u32 = "32 word"
type_synonym u128 = "128 word"

type_synonym agent_id = u128
type_synonym datetime = int
type_synonym env = "string \<Rightarrow> string option"

section \<open>Results\<close>

definition and_then :: "'e + 'a \<Rightarrow> ('a \<Rightarrow> 'e + 'b) \<Rightarrow> 'e + 'b" where
  "and_then r f = (case r of Inl e \<Rightarrow> Inl e | Inr x \<Rightarrow> f x)"

definition ensure :: "bool \<Rightarrow> 'e \<Rightarrow> 'e + unit" where
  "ensure b e = (if b then Inr () else Inl e)"

definition ok_or :: "'a option \<Rightarrow> 'e \<Rightarrow> 'e + 'a" where
  "ok_or x e = (case x of None \<Rightarrow> Inl e | Some y \<Rightarrow> Inr y)"

definition is_ok :: "'e + 'a \<Rightarrow> bool" where
  "is_ok r = (case r of Inl _ \<Rightarrow> False | Inr _ \<Rightarrow> True)"

definition or_else :: "'a option \<Rightarrow> 'a option \<Rightarrow> 'a option" where
  "or_else x y = (case x of None \<Rightarrow> y | Some v \<Rightarrow> Some v)"

section \<open>Saturating 64-bit counters\<close>

definition u64_max :: nat where
  "u64_max = 18446744073709551615"

definition sat_add64 :: "nat \<Rightarrow> nat \<Rightarrow> nat" where
  "sat_add64 a b = min (a + b) u64_max"

section \<open>Hash maps\<close>

type_synonym ('k, 'v) table = "('k \<times> 'v) list"

definition hm_get :: "('k, 'v) table \<Rightarrow> 'k \<Rightarrow> 'v option" where
  "hm_get m k = map_of m k"

definition hm_insert :: "'k \<Rightarrow> 'v \<Rightarrow> ('k, 'v) table \<Rightarrow> ('k, 'v) table" where
  "hm_insert k v m = AList.update k v m"

definition hm_remove :: "'k \<Rightarrow> ('k, 'v) table \<Rightarrow> ('k, 'v) table" where
  "hm_remove k m = filter (\<lambda>(j, v). j \<noteq> k) m"

definition hm_retain :: "('k \<Rightarrow> 'v \<Rightarrow> bool) \<Rightarrow> ('k, 'v) table \<Rightarrow> ('k, 'v) table" where
  "hm_retain P m = filter (\<lambda>(k, v). P k v) m"

definition hm_len :: "('k, 'v) table \<Rightarrow> nat" where
  "hm_len m = length m"

definition hm_ok :: "('k, 'v) table \<Rightarrow> bool" where
  "hm_ok m = distinct (map fst m)"

section \<open>Database tables\<close>

text \<open>
  A database table is the list of its rows in insertion order. The SQL statements of the
  repositories are \<open>update_where\<close> (\<open>UPDATE ... WHERE\<close>), \<open>filter\<close> (\<open>DELETE\<close> keeps the rows that do
  not match), appending (\<open>INSERT\<close>), \<open>find\<close> (\<open>SELECT\<close> of one row) and \<open>length (filter ...)\<close> (counts).
\<close>

definition update_where :: "('r \<Rightarrow> bool) \<Rightarrow> ('r \<Rightarrow> 'r) \<Rightarrow> 'r list \<Rightarrow> 'r list" where
  "update_where P f rows = map (\<lambda>r. if P r then f r else r) rows"

section \<open>Lemmas\<close>

lemma map_update_where: "(\<And>r. key (f r) = key r) \<Longrightarrow> map key (update_where P f rows) = map key rows"
  by (simp add: update_where_def)

lemma in_update_where: "q \<in> set (update_where P f rows) \<longleftrightarrow> (\<exists>r \<in> set rows. q = (if P r then f r else r))"
  by (auto simp: update_where_def)

lemma ball_update_where:
  "(\<forall>q \<in> set (update_where P f rows). Q q) \<longleftrightarrow> (\<forall>r \<in> set rows. (P r \<longrightarrow> Q (f r)) \<and> (\<not> P r \<longrightarrow> Q r))"
  by (auto simp: update_where_def)

lemma bex_update_where:
  "(\<exists>q \<in> set (update_where P f rows). Q q) \<longleftrightarrow> (\<exists>r \<in> set rows. P r \<and> Q (f r) \<or> \<not> P r \<and> Q r)"
  by (auto simp: update_where_def)

lemma length_update_where [simp]: "length (update_where P f rows) = length rows"
  by (simp add: update_where_def)

lemma find_append_None: "find P xs = None \<Longrightarrow> find P (xs @ ys) = find P ys"
  by (induction xs) (auto split: if_splits)

lemma find_SomeD: "find P xs = Some x \<Longrightarrow> x \<in> set xs \<and> P x"
  by (auto simp: find_Some_iff)

lemma and_then_simps [simp]:
  "and_then (Inl e) f = Inl e"
  "and_then (Inr x) f = f x"
  by (simp_all add: and_then_def)

lemma and_then_ok_iff [result_simps]:
  "and_then r f = Inr y \<longleftrightarrow> (\<exists>x. r = Inr x \<and> f x = Inr y)"
  by (cases r) simp_all

lemma and_then_err_iff [result_simps]:
  "and_then r f = Inl e \<longleftrightarrow> r = Inl e \<or> (\<exists>x. r = Inr x \<and> f x = Inl e)"
  by (cases r) auto

lemma ensure_iff [result_simps]:
  "ensure b e = Inr u \<longleftrightarrow> b"
  "ensure b e = Inl e' \<longleftrightarrow> \<not> b \<and> e' = e"
  by (auto simp: ensure_def)

lemma ensure_simps [simp]: "ensure True e = Inr ()" "ensure False e = Inl e"
  by (simp_all add: ensure_def)

lemma ok_or_iff [result_simps]:
  "ok_or x e = Inr y \<longleftrightarrow> x = Some y"
  "ok_or x e = Inl e' \<longleftrightarrow> x = None \<and> e' = e"
  by (auto simp: ok_or_def split: option.splits)

lemma is_ok_simps [simp]: "is_ok (Inr x)" "\<not> is_ok (Inl e)"
  by (simp_all add: is_ok_def)

lemma is_ok_iff [result_simps]: "is_ok r \<longleftrightarrow> (\<exists>x. r = Inr x)"
  by (cases r) simp_all

lemma or_else_simps [simp]: "or_else None y = y" "or_else (Some x) y = Some x"
  by (simp_all add: or_else_def)

lemma or_else_eq_Some [result_simps]:
  "or_else x y = Some v \<longleftrightarrow> x = Some v \<or> x = None \<and> y = Some v"
  by (cases x) auto

lemma sat_add64_le: "sat_add64 a b \<le> u64_max"
  by (simp add: sat_add64_def)

lemma sat_add64_exact: "a + b \<le> u64_max \<Longrightarrow> sat_add64 a b = a + b"
  by (simp add: sat_add64_def)

lemma sat_add64_mono: "a \<le> u64_max \<Longrightarrow> a \<le> sat_add64 a b"
  by (simp add: sat_add64_def)

lemma hm_ok_empty [simp]: "hm_ok []"
  by (simp add: hm_ok_def)

lemma hm_ok_insert [simp]: "hm_ok m \<Longrightarrow> hm_ok (hm_insert k v m)"
  by (simp add: hm_ok_def hm_insert_def distinct_update)

lemma hm_ok_filter: "hm_ok m \<Longrightarrow> hm_ok (filter P m)"
  by (simp add: hm_ok_def distinct_map_filter)

lemma hm_ok_remove [simp]: "hm_ok m \<Longrightarrow> hm_ok (hm_remove k m)"
  by (simp add: hm_remove_def hm_ok_filter)

lemma hm_ok_retain [simp]: "hm_ok m \<Longrightarrow> hm_ok (hm_retain P m)"
  by (simp add: hm_retain_def hm_ok_filter)

lemma hm_get_empty [simp]: "hm_get [] k = None"
  by (simp add: hm_get_def)

lemma hm_get_insert [table_simps]:
  "hm_get (hm_insert k v m) j = (if j = k then Some v else hm_get m j)"
  by (simp add: hm_get_def hm_insert_def update_conv')

lemma hm_get_remove [table_simps]:
  "hm_get (hm_remove k m) j = (if j = k then None else hm_get m j)"
  by (induction m) (auto simp: hm_get_def hm_remove_def)

lemma hm_get_retain [table_simps]:
  "hm_ok m \<Longrightarrow>
   hm_get (hm_retain P m) k =
     (case hm_get m k of None \<Rightarrow> None | Some v \<Rightarrow> if P k v then Some v else None)"
  by (induction m)
     (auto simp: hm_get_def hm_retain_def hm_ok_def split: option.splits
           dest: map_of_SomeD intro: rev_image_eqI)

lemma hm_get_Some_in: "hm_get m k = Some v \<Longrightarrow> (k, v) \<in> set m"
  by (simp add: hm_get_def map_of_SomeD)

lemma hm_in_get: "hm_ok m \<Longrightarrow> (k, v) \<in> set m \<Longrightarrow> hm_get m k = Some v"
  by (simp add: hm_get_def hm_ok_def)

lemma hm_get_None_iff: "hm_get m k = None \<longleftrightarrow> k \<notin> fst ` set m"
  by (simp add: hm_get_def map_of_eq_None_iff)

lemma hm_len_empty [simp]: "hm_len [] = 0"
  by (simp add: hm_len_def)

lemma hm_len_insert [table_simps]:
  "hm_len (hm_insert k v m) = (if hm_get m k = None then Suc (hm_len m) else hm_len m)"
  by (induction m) (auto simp: hm_len_def hm_insert_def hm_get_def)

lemma hm_len_retain_le: "hm_len (hm_retain P m) \<le> hm_len m"
  by (simp add: hm_len_def hm_retain_def)

lemma hm_len_remove_le: "hm_len (hm_remove k m) \<le> hm_len m"
  by (simp add: hm_len_def hm_remove_def)

lemma set_hm_insert: "set (hm_insert k v m) \<subseteq> insert (k, v) (set m)"
  by (induction m) (auto simp: hm_insert_def)

lemma set_hm_retain [simp]: "set (hm_retain P m) = {(k, v) \<in> set m. P k v}"
  by (auto simp: hm_retain_def)

lemma set_hm_remove [simp]: "set (hm_remove k m) = {(j, v) \<in> set m. j \<noteq> k}"
  by (auto simp: hm_remove_def)

text \<open>
  Tables that admit a new key only below a capacity. Several registries of the server
  follow this discipline; the client lemma says the capacity is then never exceeded.
\<close>

locale capped_table =
  fixes admit :: "'a \<Rightarrow> ('k, 'v) table \<Rightarrow> ('k, 'v) table"
    and cap :: nat
  assumes admit_shrinks_or_inserts:
    "\<exists>P k v. admit x m = hm_retain P m \<or> admit x m = hm_insert k v (hm_retain P m) \<and>
         (hm_get (hm_retain P m) k = None \<longrightarrow> hm_len (hm_retain P m) < cap)"
begin

lemma admit_hm_ok: "hm_ok m \<Longrightarrow> hm_ok (admit x m)"
  using admit_shrinks_or_inserts [of x m] by auto

lemma admit_within_cap:
  assumes "hm_len m \<le> cap"
  shows "hm_len (admit x m) \<le> cap"
proof -
  obtain P k v where P: "admit x m = hm_retain P m \<or> admit x m = hm_insert k v (hm_retain P m) \<and>
         (hm_get (hm_retain P m) k = None \<longrightarrow> hm_len (hm_retain P m) < cap)"
    using admit_shrinks_or_inserts [of x m] by (elim exE)
  have "hm_len (hm_retain P m) \<le> cap"
    using hm_len_retain_le [of P m] assms by linarith
  with P show ?thesis by (auto simp: hm_len_insert)
qed

lemma admit_all_within_cap:
  "hm_ok m \<Longrightarrow> hm_len m \<le> cap \<Longrightarrow> hm_ok (fold admit xs m) \<and> hm_len (fold admit xs m) \<le> cap"
  by (induction xs arbitrary: m) (auto intro: admit_within_cap admit_hm_ok)

end

end
