(* ===== verification/Rust_Text.thy ===== *)
theory Rust_Text
  imports XL_Prelude
begin

text \<open>
  Rust's \<open>str\<close> as its UTF-8 bytes: a \<open>string\<close> of the development is the byte
  sequence, so \<open>len()\<close> is \<open>length\<close>. The standard-library operations the server
  uses are written out on bytes: Unicode white space (\<open>trim\<close>), control characters
  (\<open>char::is_control\<close>), \<open>split\<close>, \<open>split_once\<close>, \<open>join\<close>, ASCII case
  mapping, and the decimal parsers and printers of the unsigned integers.
\<close>

abbreviation byte :: "char \<Rightarrow> nat" where
  "byte c \<equiv> of_char c"

section \<open>White space and control characters\<close>

text \<open>The UTF-8 encodings of the characters with the Unicode property White\_Space.\<close>

fun is_white :: "nat list \<Rightarrow> bool" where
  "is_white [a] = (9 \<le> a \<and> a \<le> 13 \<or> a = 32)"
| "is_white [a, b] = (a = 194 \<and> (b = 133 \<or> b = 160))"
| "is_white [a, b, c] =
     (a = 225 \<and> b = 154 \<and> c = 128
      \<or> a = 226 \<and> b = 128 \<and> (128 \<le> c \<and> c \<le> 138 \<or> c = 168 \<or> c = 169 \<or> c = 175)
      \<or> a = 226 \<and> b = 129 \<and> c = 159
      \<or> a = 227 \<and> b = 128 \<and> c = 128)"
| "is_white _ = False"

definition ws_prefix :: "string \<Rightarrow> nat" where
  "ws_prefix s =
     (if is_white (map byte (take 1 s)) then 1
      else if is_white (map byte (take 2 s)) then 2
      else if is_white (map byte (take 3 s)) then 3
      else 0)"

definition ws_suffix :: "string \<Rightarrow> nat" where
  "ws_suffix s =
     (if is_white (map byte (drop (length s - 1) s)) then 1
      else if is_white (map byte (drop (length s - 2) s)) then 2
      else if is_white (map byte (drop (length s - 3) s)) then 3
      else 0)"

function trim_start :: "string \<Rightarrow> string" where
  "trim_start s =
     (if ws_prefix s = 0 \<or> s = [] then s else trim_start (drop (ws_prefix s) s))"
  by pat_completeness auto
termination
  by (relation "measure length") auto

function trim_end :: "string \<Rightarrow> string" where
  "trim_end s =
     (if ws_suffix s = 0 \<or> s = [] then s else trim_end (take (length s - ws_suffix s) s))"
  by pat_completeness auto
termination
  by (relation "measure length") auto

declare trim_start.simps [simp del] trim_end.simps [simp del]

definition trim :: "string \<Rightarrow> string" where
  "trim s = trim_end (trim_start s)"

text \<open>
  \<open>char::is_control\<close> is U+0000 to U+001F and U+007F to U+009F; the latter block is the
  byte C2 followed by 80 to 9F.
\<close>

fun has_control :: "string \<Rightarrow> bool" where
  "has_control [] = False"
| "has_control (c # cs) =
     (byte c < 32 \<or> byte c = 127
      \<or> byte c = 194 \<and> (case cs of [] \<Rightarrow> False | d # _ \<Rightarrow> 128 \<le> byte d \<and> byte d \<le> 159)
      \<or> has_control cs)"

text \<open>\<open>char::is_whitespace\<close> somewhere in the string.\<close>

fun has_white :: "string \<Rightarrow> bool" where
  "has_white [] = False"
| "has_white (c # cs) = (0 < ws_prefix (c # cs) \<or> has_white cs)"

section \<open>Splitting and joining\<close>

fun split_on :: "(char \<Rightarrow> bool) \<Rightarrow> string \<Rightarrow> string list" where
  "split_on P [] = [[]]"
| "split_on P (c # cs) =
     (if P c then [] # split_on P cs
      else (case split_on P cs of [] \<Rightarrow> [[c]] | w # ws \<Rightarrow> (c # w) # ws))"

definition split_once :: "char \<Rightarrow> string \<Rightarrow> (string \<times> string) option" where
  "split_once d s =
     (if d \<in> set s then Some (takeWhile (\<lambda>c. c \<noteq> d) s, tl (dropWhile (\<lambda>c. c \<noteq> d) s)) else None)"

definition rsplit_once :: "char \<Rightarrow> string \<Rightarrow> (string \<times> string) option" where
  "rsplit_once d s = map_option (\<lambda>(a, b). (rev b, rev a)) (split_once d (rev s))"

fun join :: "string \<Rightarrow> string list \<Rightarrow> string" where
  "join sep [] = []"
| "join sep [w] = w"
| "join sep (w # v # ws) = w @ sep @ join sep (v # ws)"

definition starts_with :: "string \<Rightarrow> string \<Rightarrow> bool" where
  "starts_with p s = (take (length p) s = p)"

definition ends_with :: "string \<Rightarrow> string \<Rightarrow> bool" where
  "ends_with p s = (length p \<le> length s \<and> drop (length s - length p) s = p)"

definition strip_prefix :: "string \<Rightarrow> string \<Rightarrow> string option" where
  "strip_prefix p s = (if starts_with p s then Some (drop (length p) s) else None)"

definition strip_suffix :: "string \<Rightarrow> string \<Rightarrow> string option" where
  "strip_suffix p s = (if ends_with p s then Some (take (length s - length p) s) else None)"

definition trim_start_matches :: "char \<Rightarrow> string \<Rightarrow> string" where
  "trim_start_matches d s = dropWhile (\<lambda>c. c = d) s"

definition trim_end_matches :: "char \<Rightarrow> string \<Rightarrow> string" where
  "trim_end_matches d s = rev (dropWhile (\<lambda>c. c = d) (rev s))"

definition trim_matches :: "char \<Rightarrow> string \<Rightarrow> string" where
  "trim_matches d s = trim_end_matches d (trim_start_matches d s)"

section \<open>ASCII case\<close>

definition lower_byte :: "char \<Rightarrow> char" where
  "lower_byte c = (if 65 \<le> byte c \<and> byte c \<le> 90 then char_of (byte c + 32) else c)"

definition to_ascii_lowercase :: "string \<Rightarrow> string" where
  "to_ascii_lowercase s = map lower_byte s"

definition eq_ignore_ascii_case :: "string \<Rightarrow> string \<Rightarrow> bool" where
  "eq_ignore_ascii_case s t = (to_ascii_lowercase s = to_ascii_lowercase t)"

definition is_digit :: "char \<Rightarrow> bool" where
  "is_digit c = (48 \<le> byte c \<and> byte c \<le> 57)"

definition is_ascii_alphanumeric :: "char \<Rightarrow> bool" where
  "is_ascii_alphanumeric c =
     (is_digit c \<or> 65 \<le> byte c \<and> byte c \<le> 90 \<or> 97 \<le> byte c \<and> byte c \<le> 122)"

section \<open>Unsigned integers in decimal\<close>

definition dec_value :: "string \<Rightarrow> nat" where
  "dec_value ds = foldl (\<lambda>n c. n * 10 + (byte c - 48)) 0 ds"

text \<open>\<open>str::parse\<close> for an unsigned type with largest value \<open>m\<close>: one optional plus sign,
  at least one digit, an error on overflow.\<close>

definition parse_unsigned :: "nat \<Rightarrow> string \<Rightarrow> nat option" where
  "parse_unsigned m s =
     (let ds = (case s of [] \<Rightarrow> [] | c # r \<Rightarrow> if c = CHR ''+'' then r else s)
      in if ds = [] \<or> \<not> list_all is_digit ds then None
         else if dec_value ds \<le> m then Some (dec_value ds) else None)"

abbreviation parse_u8 :: "string \<Rightarrow> nat option" where
  "parse_u8 \<equiv> parse_unsigned 255"

abbreviation parse_u16 :: "string \<Rightarrow> nat option" where
  "parse_u16 \<equiv> parse_unsigned 65535"

abbreviation parse_usize :: "string \<Rightarrow> nat option" where
  "parse_usize \<equiv> parse_unsigned u64_max"

fun show_nat :: "nat \<Rightarrow> string" where
  "show_nat n = (if n < 10 then [char_of (48 + n)] else show_nat (n div 10) @ [char_of (48 + n mod 10)])"

declare show_nat.simps [simp del]

text \<open>The switches read from the environment: \<open>matches!(value, "1" | "true" | ...)\<close>.\<close>

text \<open>\<open>i64\<close>: its decimal text and \<open>str::parse\<close>.\<close>

definition show_int :: "int \<Rightarrow> string" where
  "show_int z = (if z < 0 then CHR ''-'' # show_nat (nat (- z)) else show_nat (nat z))"

definition parse_i64 :: "string \<Rightarrow> int option" where
  "parse_i64 s =
     (let (neg, ds) = (case s of
            [] \<Rightarrow> (False, [])
          | c # r \<Rightarrow> if c = CHR ''-'' then (True, r) else if c = CHR ''+'' then (False, r) else (False, s));
          v = int (dec_value ds)
      in if ds = [] \<or> \<not> list_all is_digit ds then None
         else if neg then (if v \<le> 2 ^ 63 then Some (- v) else None)
         else if v \<le> 2 ^ 63 - 1 then Some v else None)"

definition truthy :: "string \<Rightarrow> bool" where
  "truthy v = (v \<in> {''1'', ''true'', ''TRUE'', ''yes'', ''YES''})"

definition env_flag :: "env \<Rightarrow> string \<Rightarrow> bool" where
  "env_flag env name = (case env name of None \<Rightarrow> False | Some v \<Rightarrow> truthy v)"

section \<open>Characters in UTF-8\<close>

text \<open>\<open>str::is_char_boundary\<close>: the ends of the string and every byte that is not a continuation byte.\<close>

definition is_continuation :: "char \<Rightarrow> bool" where
  "is_continuation c \<longleftrightarrow> 128 \<le> byte c \<and> byte c < 192"

definition is_char_boundary :: "string \<Rightarrow> nat \<Rightarrow> bool" where
  "is_char_boundary s i =
     (if i = 0 \<or> i = length s then True
      else if i < length s then \<not> is_continuation (s ! i)
      else False)"

fun boundary_at_or_before :: "string \<Rightarrow> nat \<Rightarrow> nat" where
  "boundary_at_or_before s 0 = 0"
| "boundary_at_or_before s (Suc e) =
     (if is_char_boundary s (Suc e) then Suc e else boundary_at_or_before s e)"

text \<open>\<open>chars().take(n).collect()\<close>, and \<open>chars().filter(|c| !c.is_control()).collect()\<close>.\<close>

fun take_chars :: "nat \<Rightarrow> string \<Rightarrow> string" where
  "take_chars n [] = []"
| "take_chars n (c # cs) =
     (if is_continuation c then c # take_chars n cs
      else case n of 0 \<Rightarrow> [] | Suc m \<Rightarrow> c # take_chars m cs)"

fun strip_control :: "string \<Rightarrow> string" where
  "strip_control [] = []"
| "strip_control [c] = (if byte c < 32 \<or> byte c = 127 then [] else [c])"
| "strip_control (c # d # cs) =
     (if byte c < 32 \<or> byte c = 127 then strip_control (d # cs)
      else if byte c = 194 \<and> 128 \<le> byte d \<and> byte d \<le> 159 then strip_control cs
      else c # strip_control (d # cs))"

definition contains :: "string \<Rightarrow> string \<Rightarrow> bool" where
  "contains sub s = list_ex (\<lambda>i. take (length sub) (drop i s) = sub) [0..<Suc (length s)]"

section \<open>Lemmas\<close>

lemma boundary_le: "boundary_at_or_before s e \<le> e"
  by (induction s e rule: boundary_at_or_before.induct) auto

lemma boundary_is_boundary: "is_char_boundary s (boundary_at_or_before s e)"
proof (induction s e rule: boundary_at_or_before.induct)
  case (1 s)
  then show ?case by (simp add: is_char_boundary_def)
qed simp

lemma boundary_maximal: "is_char_boundary s i \<Longrightarrow> i \<le> e \<Longrightarrow> i \<le> boundary_at_or_before s e"
  by (induction s e rule: boundary_at_or_before.induct) (auto simp: le_Suc_eq)

lemma boundary_skips_continuations:
  "boundary_at_or_before s e < j \<Longrightarrow> j \<le> e \<Longrightarrow> e < length s \<Longrightarrow> is_continuation (s ! j)"
proof (rule ccontr)
  assume *: "boundary_at_or_before s e < j" "j \<le> e" "e < length s" "\<not> is_continuation (s ! j)"
  then have "is_char_boundary s j" by (auto simp: is_char_boundary_def)
  from boundary_maximal [OF this *(2)] *(1) show False by simp
qed


lemma is_white_length: "is_white s \<Longrightarrow> length s \<le> 3 \<and> 0 < length s"
  by (cases s rule: is_white.cases) auto

lemma ws_prefix_Nil [simp]: "ws_prefix [] = 0"
  by (simp add: ws_prefix_def)

lemma ws_suffix_Nil [simp]: "ws_suffix [] = 0"
  by (simp add: ws_suffix_def)

lemma trim_start_no_ws: "ws_prefix (trim_start s) = 0"
proof (induction s rule: trim_start.induct)
  case (1 s)
  then show ?case
    by (cases "ws_prefix s = 0 \<or> s = []") (auto simp: trim_start.simps [of s])
qed

lemma trim_end_no_ws: "ws_suffix (trim_end s) = 0"
proof (induction s rule: trim_end.induct)
  case (1 s)
  then show ?case
    by (cases "ws_suffix s = 0 \<or> s = []") (auto simp: trim_end.simps [of s])
qed

lemma trim_end_prefix: "\<exists>n. trim_end s = take n s"
proof (induction s rule: trim_end.induct)
  case (1 s)
  show ?case
  proof (cases "ws_suffix s = 0 \<or> s = []")
    case True
    then have "trim_end s = take (length s) s"
      by (auto simp: trim_end.simps [of s])
    then show ?thesis by blast
  next
    case False
    with 1 obtain n where "trim_end (take (length s - ws_suffix s) s)
        = take n (take (length s - ws_suffix s) s)" by blast
    with False show ?thesis by (auto simp: trim_end.simps [of s])
  qed
qed

lemma is_white_take:
  assumes "is_white (map byte (take k (take n s)))" and "k \<in> {1, 2, 3}"
  shows "is_white (map byte (take (min k n) s)) \<and> 0 < min k n"
proof -
  have "0 < min k n" using is_white_length [OF assms(1)] by auto
  with assms show ?thesis by simp
qed

lemma ws_prefix_take: "ws_prefix s = 0 \<Longrightarrow> ws_prefix (take n s) = 0"
proof (rule ccontr)
  assume z: "ws_prefix s = 0" and nz: "ws_prefix (take n s) \<noteq> 0"
  from nz obtain k where k: "k \<in> {1, 2, 3}" "is_white (map byte (take k (take n s)))"
    by (auto simp: ws_prefix_def split: if_splits)
  from is_white_take [OF k(2,1)] have w: "is_white (map byte (take (min k n) s))" "0 < min k n"
    by auto
  have "min k n \<in> {1, 2, 3}" using k(1) w(2) by auto
  with w(1) z show False by (auto simp: ws_prefix_def split: if_splits)
qed

lemma trim_no_ws: "ws_prefix (trim s) = 0" "ws_suffix (trim s) = 0"
proof -
  obtain n where "trim_end (trim_start s) = take n (trim_start s)"
    using trim_end_prefix by blast
  then show "ws_prefix (trim s) = 0"
    by (simp add: trim_def ws_prefix_take trim_start_no_ws)
  show "ws_suffix (trim s) = 0"
    by (simp add: trim_def trim_end_no_ws)
qed

lemma trim_fixed: "ws_prefix s = 0 \<Longrightarrow> ws_suffix s = 0 \<Longrightarrow> trim s = s"
  by (simp add: trim_def trim_start.simps [of s] trim_end.simps [of s])

lemma trim_idem [simp]: "trim (trim s) = trim s"
  by (rule trim_fixed) (rule trim_no_ws)+

lemma length_trim_start: "length (trim_start s) \<le> length s"
proof (induction s rule: trim_start.induct)
  case (1 s)
  show ?case
  proof (cases "ws_prefix s = 0 \<or> s = []")
    case False
    with 1 have "length (trim_start (drop (ws_prefix s) s)) \<le> length (drop (ws_prefix s) s)"
      by blast
    also have "\<dots> \<le> length s" by simp
    finally show ?thesis using False by (simp add: trim_start.simps [of s])
  qed (auto simp: trim_start.simps [of s])
qed

lemma length_trim: "length (trim s) \<le> length s"
proof -
  obtain n where "trim s = take n (trim_start s)"
    using trim_end_prefix unfolding trim_def by blast
  then have "length (trim s) \<le> length (trim_start s)" by simp
  with length_trim_start [of s] show ?thesis by linarith
qed

lemma set_trim_start: "set (trim_start s) \<subseteq> set s"
proof (induction s rule: trim_start.induct)
  case (1 s)
  show ?case
  proof (cases "ws_prefix s = 0 \<or> s = []")
    case False
    with 1 have "set (trim_start (drop (ws_prefix s) s)) \<subseteq> set (drop (ws_prefix s) s)"
      by blast
    with False show ?thesis
      using set_drop_subset [of "ws_prefix s" s] by (auto simp: trim_start.simps [of s])
  qed (auto simp: trim_start.simps [of s])
qed

lemma set_trim: "set (trim s) \<subseteq> set s"
proof -
  obtain n where "trim s = take n (trim_start s)"
    using trim_end_prefix unfolding trim_def by blast
  then show ?thesis using set_trim_start [of s] set_take_subset [of n "trim_start s"] by auto
qed

text \<open>Plain ASCII text without blanks at its ends is left alone by \<open>trim\<close>.\<close>

lemma ws_prefix_ascii:
  "s = c # cs \<Longrightarrow> 33 \<le> byte c \<Longrightarrow> byte c < 128 \<Longrightarrow> ws_prefix s = 0"
  by (cases cs; cases "tl cs") (auto simp: ws_prefix_def take_Cons numeral_2_eq_2 numeral_3_eq_3)

lemma ws_suffix_ascii:
  assumes "s = cs @ [c]" "33 \<le> byte c" "byte c < 128"
  shows "ws_suffix s = 0"
proof -
  have last3: "drop (length s - n) s = [] \<or> (\<exists>r. drop (length s - n) s = r @ [c])" for n
    unfolding assms(1) by (cases n) auto
  have "\<not> is_white (map byte (r @ [c]))" for r
    using assms(2,3) by (cases "map byte (r @ [c])" rule: is_white.cases) (auto simp: append_eq_Cons_conv)
  with last3 have "\<not> is_white (map byte (drop (length s - n) s))" for n
    by (metis is_white.simps(4) list.map(1))
  then show ?thesis by (simp add: ws_suffix_def)
qed

lemma trim_ascii:
  assumes "list_all (\<lambda>c. 33 \<le> byte c \<and> byte c < 128) s"
  shows "trim s = s"
proof (cases s rule: rev_cases)
  case Nil
  then show ?thesis by (simp add: trim_def trim_start.simps trim_end.simps)
next
  case (snoc cs c)
  then have "ws_suffix s = 0" using assms ws_suffix_ascii [of s cs c] by simp
  moreover have "ws_prefix s = 0"
    by (cases s) (use assms ws_prefix_ascii in simp_all)
  ultimately show ?thesis by (intro trim_fixed)
qed

lemma split_on_not_Nil [simp]: "split_on P s \<noteq> []"
  by (induction s) (auto split: list.splits)

lemma split_on_no_sep: "\<forall>w \<in> set (split_on P s). \<forall>c \<in> set w. \<not> P c"
proof (induction s)
  case (Cons c cs)
  then show ?case by (cases "split_on P cs") auto
qed simp

lemma split_on_plain: "\<forall>c \<in> set w. \<not> P c \<Longrightarrow> split_on P w = [w]"
  by (induction w) auto

lemma split_on_append_sep:
  "\<forall>c \<in> set w. \<not> P c \<Longrightarrow> P d \<Longrightarrow> split_on P (w @ d # s) = w # split_on P s"
  by (induction w) auto

lemma split_join:
  assumes "ws \<noteq> []" and "\<forall>w \<in> set ws. \<forall>c \<in> set w. \<not> P c" and "P d"
  shows "split_on P (join [d] ws) = ws"
  using assms
proof (induction "[d]" ws rule: join.induct)
  case (2 w)
  then show ?case by (simp add: split_on_plain)
next
  case (3 w v ws)
  then show ?case by (simp add: split_on_append_sep)
qed simp

lemma set_split_on: "w \<in> set (split_on P s) \<Longrightarrow> set w \<subseteq> set s"
proof (induction s arbitrary: w)
  case (Cons c cs)
  show ?case
  proof (cases "P c")
    case True
    with Cons show ?thesis by fastforce
  next
    case False
    obtain v vs where v: "split_on P cs = v # vs"
      by (cases "split_on P cs") auto
    with Cons.IH have IH: "u \<in> set (v # vs) \<Longrightarrow> set u \<subseteq> set cs" for u by simp
    from False v Cons.prems have "w = c # v \<or> w \<in> set vs" by auto
    then show ?thesis
    proof
      assume "w = c # v"
      with IH [of v] show ?thesis by auto
    next
      assume "w \<in> set vs"
      with IH [of w] show ?thesis by auto
    qed
  qed
qed simp

lemma to_ascii_lowercase_length [simp]: "length (to_ascii_lowercase s) = length s"
  by (simp add: to_ascii_lowercase_def)

lemma lower_byte_idem [simp]: "lower_byte (lower_byte c) = lower_byte c"
  by (auto simp: lower_byte_def of_char_of take_bit_eq_mod)

lemma to_ascii_lowercase_idem [simp]:
  "to_ascii_lowercase (to_ascii_lowercase s) = to_ascii_lowercase s"
  by (simp add: to_ascii_lowercase_def)

lemma dec_value_snoc: "dec_value (ds @ [c]) = dec_value ds * 10 + (byte c - 48)"
  by (simp add: dec_value_def)

lemma byte_char_of: "n < 256 \<Longrightarrow> byte (char_of n) = n"
  by (simp add: of_char_of)

lemma is_digit_char_of: "(n::nat) < 10 \<Longrightarrow> is_digit (char_of (48 + n))"
  by (simp add: is_digit_def byte_char_of)

lemma show_nat_digits: "list_all is_digit (show_nat n)"
  by (induction n rule: show_nat.induct)
     (subst show_nat.simps, auto simp: is_digit_char_of)

lemma dec_value_show [simp]: "dec_value (show_nat n) = n"
proof (induction n rule: show_nat.induct)
  case (1 n)
  show ?case
  proof (cases "n < 10")
    case True
    then show ?thesis by (simp add: show_nat.simps [of n] dec_value_def byte_char_of)
  next
    case False
    with 1 show ?thesis
      by (simp add: show_nat.simps [of n] dec_value_snoc byte_char_of)
  qed
qed

lemma show_nat_not_Nil [simp]: "show_nat n \<noteq> []"
  by (subst show_nat.simps) simp

lemma show_nat_head: "n < 10 \<Longrightarrow> show_nat n = [char_of (48 + n)]"
  by (simp add: show_nat.simps)

lemma hd_show_nat: "0 < n \<Longrightarrow> 49 \<le> byte (hd (show_nat n))"
proof (induction n rule: show_nat.induct)
  case (1 n)
  show ?case
  proof (cases "n < 10")
    case True
    with 1 show ?thesis by (simp add: show_nat_head byte_char_of)
  next
    case False
    then have "hd (show_nat n) = hd (show_nat (n div 10))"
      by (simp add: show_nat.simps [of n])
    with False 1 show ?thesis by simp
  qed
qed

lemma length_show_nat: "n < 10 ^ k \<Longrightarrow> 0 < k \<Longrightarrow> length (show_nat n) \<le> k"
proof (induction n arbitrary: k rule: show_nat.induct)
  case (1 n)
  show ?case
  proof (cases "n < 10")
    case True
    with 1 show ?thesis by (simp add: show_nat_head)
  next
    case False
    with 1(2,3) obtain j where j: "k = Suc j" "0 < j"
      by (cases k; cases "k - 1") auto
    have "n div 10 < 10 ^ j"
      using 1(2) j by (simp add: less_mult_imp_div_less)
    with 1(1) False j have "length (show_nat (n div 10)) \<le> j" by blast
    with False j show ?thesis by (simp add: show_nat.simps [of n])
  qed
qed

lemma digit_not_plus: "is_digit c \<Longrightarrow> c \<noteq> CHR ''+''"
  by (auto simp: is_digit_def)

lemma parse_show_unsigned: "n \<le> m \<Longrightarrow> parse_unsigned m (show_nat n) = Some n"
proof -
  assume le: "n \<le> m"
  obtain c r where s: "show_nat n = c # r" by (cases "show_nat n") auto
  then have "c \<noteq> CHR ''+''" using show_nat_digits [of n] by (auto dest: digit_not_plus)
  with s le show ?thesis
    using show_nat_digits [of n] dec_value_show [of n]
    by (simp add: parse_unsigned_def Let_def)
qed

lemma parse_unsigned_le: "parse_unsigned m s = Some n \<Longrightarrow> n \<le> m"
  by (auto simp: parse_unsigned_def Let_def split: if_splits)

subsection \<open>Lists of trimmed words\<close>

lemma ws_prefix_append:
  assumes "w \<noteq> []" "ws_prefix w = 0" "byte d < 128"
  shows "ws_prefix (w @ d # r) = 0"
proof (cases w rule: remdups_adj.cases)
  case (2 a)
  with assms show ?thesis
    by (auto simp: ws_prefix_def numeral_2_eq_2 numeral_3_eq_3 split: if_splits list.splits nat.splits) (cases r; auto)+
next
  case (3 a b w')
  with assms show ?thesis
    by (cases w') (auto simp: ws_prefix_def numeral_2_eq_2 numeral_3_eq_3 split: if_splits)
qed (use assms in simp)

lemma drop_rev_take: "drop (length s - n) s = rev (take n (rev s))"
  by (simp add: take_rev)

lemma ws_suffix_append:
  assumes "w \<noteq> []" "ws_suffix w = 0" "byte d < 128"
  shows "ws_suffix (r @ d # w) = 0"
proof (cases w rule: rev_cases)
  case (snoc w1 a)
  note a = snoc
  show ?thesis
  proof (cases w1 rule: rev_cases)
    case Nil
    with a assms show ?thesis
      by (cases r rule: rev_cases) (auto simp: ws_suffix_def drop_rev_take numeral_2_eq_2 numeral_3_eq_3 split: if_splits)
  next
    case (snoc w2 b)
    with a assms show ?thesis
      by (cases w2 rule: rev_cases) (auto simp: ws_suffix_def drop_rev_take numeral_2_eq_2 numeral_3_eq_3 split: if_splits)
  qed
qed (use assms in simp)

lemma join_not_Nil: "ws \<noteq> [] \<Longrightarrow> \<forall>w \<in> set ws. w \<noteq> [] \<Longrightarrow> join sep ws \<noteq> []"
  by (cases "(sep, ws)" rule: join.cases) auto

lemma trim_join:
  assumes "ws \<noteq> []" "\<forall>w \<in> set ws. w \<noteq> [] \<and> trim w = w" "byte d < 128"
  shows "ws_prefix (join [d] ws) = 0 \<and> ws_suffix (join [d] ws) = 0"
  using assms
proof (induction "[d]" ws rule: join.induct)
  case (2 w)
  then show ?case using trim_no_ws [of w] by simp
next
  case (3 w v ws)
  then have "w \<noteq> []" "ws_prefix w = 0" using trim_no_ws(1) [of w] by auto
  moreover have "join [d] (v # ws) \<noteq> []" "ws_suffix (join [d] (v # ws)) = 0"
    using 3 join_not_Nil [of "v # ws" "[d]"] by auto
  ultimately show ?case using 3(4) ws_prefix_append ws_suffix_append by simp
qed simp

lemma length_join_Suc: "ws \<noteq> [] \<Longrightarrow> Suc (length (join [d] ws)) = (\<Sum>w\<leftarrow>ws. Suc (length w))"
  by (induction "[d]" ws rule: join.induct) auto

lemma length_split_Suc: "(\<Sum>w\<leftarrow>split_on P s. Suc (length w)) = Suc (length s)"
proof (induction s)
  case (Cons c cs)
  then show ?case by (cases "split_on P cs") auto
qed simp

lemma sum_filter_trim_le:
  "(\<Sum>w\<leftarrow>filter Q (map trim ws). Suc (length w)) \<le> (\<Sum>w\<leftarrow>ws. Suc (length w))"
proof (induction ws)
  case (Cons w ws)
  then show ?case using length_trim [of w] by auto
qed simp

text \<open>Rules that evaluate the text operations on literal strings.\<close>

lemmas text_eval =
  trim_def trim_start.simps trim_end.simps ws_prefix_def ws_suffix_def
  strip_prefix_def strip_suffix_def starts_with_def ends_with_def split_once_def
  trim_end_matches_def trim_start_matches_def trim_matches_def to_ascii_lowercase_def
  lower_byte_def parse_unsigned_def dec_value_def is_digit_def env_flag_def truthy_def

lemma take_chars_short: "length s \<le> n \<Longrightarrow> take_chars n s = s"
  by (induction n s rule: take_chars.induct) (auto split: nat.splits)

lemma parse_show_i64:
  assumes "0 \<le> z" "z < 2 ^ 63"
  shows "parse_i64 (show_int z) = Some z"
proof -
  obtain c ds where s: "show_nat (nat z) = c # ds" by (cases "show_nat (nat z)") auto
  then have "is_digit c" "list_all is_digit ds" "dec_value (c # ds) = nat z"
    using show_nat_digits [of "nat z"] dec_value_show [of "nat z"] by auto
  moreover from this(1) have "c \<noteq> CHR ''-''" "c \<noteq> CHR ''+''" by (auto simp: is_digit_def)
  ultimately show ?thesis using assms s by (simp add: parse_i64_def show_int_def)
qed

end
