(* ===== verification/Net_Addr.thy ===== *)
theory Net_Addr
  imports Rust_Text
begin

text \<open>
  The part of \<open>std::net\<close> the server relies on: IPv4 and IPv6 addresses with their
  octets and segments, the address-class predicates, the text parsers of
  \<open>Ipv4Addr\<close>, \<open>Ipv6Addr\<close> and \<open>IpAddr\<close>, and the printers; then membership in a
  CIDR block (\<open>ip_in_cidr\<close> of \<open>security.rs\<close>, repeated as \<open>nat_ip_in_cidr\<close> in
  \<open>nat/policy.rs\<close>) and its characterisation by the leading bits.
\<close>

datatype ipv4 = Ipv4Addr u8 u8 u8 u8

datatype ipv6 = Ipv6Addr u16 u16 u16 u16 u16 u16 u16 u16

datatype ipaddr = IpV4 ipv4 | IpV6 ipv6

record socket_addr =
  sa_ip :: ipaddr
  sa_port :: nat

fun octets :: "ipv4 \<Rightarrow> u8 list" where
  "octets (Ipv4Addr a b c d) = [a, b, c, d]"

fun segments :: "ipv6 \<Rightarrow> u16 list" where
  "segments (Ipv6Addr a b c d e f g h) = [a, b, c, d, e, f, g, h]"

fun ipv6_of_segments :: "u16 list \<Rightarrow> ipv6 option" where
  "ipv6_of_segments [a, b, c, d, e, f, g, h] = Some (Ipv6Addr a b c d e f g h)"
| "ipv6_of_segments _ = None"

text \<open>\<open>u32::from\<close> and \<open>u128::from\<close>: the big-endian value of the bytes.\<close>

definition be_value :: "nat \<Rightarrow> nat list \<Rightarrow> nat" where
  "be_value w ds = foldl (\<lambda>n d. n * 2 ^ w + d) 0 ds"

definition ipv4_value :: "ipv4 \<Rightarrow> nat" where
  "ipv4_value ip = be_value 8 (map unat (octets ip))"

definition ipv6_value :: "ipv6 \<Rightarrow> nat" where
  "ipv6_value ip = be_value 16 (map unat (segments ip))"

definition u32_from :: "ipv4 \<Rightarrow> u32" where
  "u32_from ip = of_nat (ipv4_value ip)"

definition u128_from :: "ipv6 \<Rightarrow> u128" where
  "u128_from ip = of_nat (ipv6_value ip)"

section \<open>Address classes\<close>

fun v4_is_private :: "ipv4 \<Rightarrow> bool" where
  "v4_is_private (Ipv4Addr a b c d) =
     (a = 10 \<or> a = 172 \<and> 16 \<le> b \<and> b \<le> 31 \<or> a = 192 \<and> b = 168)"

fun v4_is_loopback :: "ipv4 \<Rightarrow> bool" where
  "v4_is_loopback (Ipv4Addr a b c d) = (a = 127)"

fun v4_is_link_local :: "ipv4 \<Rightarrow> bool" where
  "v4_is_link_local (Ipv4Addr a b c d) = (a = 169 \<and> b = 254)"

fun v4_is_multicast :: "ipv4 \<Rightarrow> bool" where
  "v4_is_multicast (Ipv4Addr a b c d) = (224 \<le> a \<and> a \<le> 239)"

definition v4_is_unspecified :: "ipv4 \<Rightarrow> bool" where
  "v4_is_unspecified ip = (ip = Ipv4Addr 0 0 0 0)"

fun v4_is_documentation :: "ipv4 \<Rightarrow> bool" where
  "v4_is_documentation (Ipv4Addr a b c d) =
     (a = 192 \<and> b = 0 \<and> c = 2 \<or> a = 198 \<and> b = 51 \<and> c = 100 \<or> a = 203 \<and> b = 0 \<and> c = 113)"

definition v4_is_broadcast :: "ipv4 \<Rightarrow> bool" where
  "v4_is_broadcast ip = (ip = Ipv4Addr 255 255 255 255)"

definition v6_is_loopback :: "ipv6 \<Rightarrow> bool" where
  "v6_is_loopback ip = (ip = Ipv6Addr 0 0 0 0 0 0 0 1)"

definition v6_is_unspecified :: "ipv6 \<Rightarrow> bool" where
  "v6_is_unspecified ip = (ip = Ipv6Addr 0 0 0 0 0 0 0 0)"

fun v6_is_multicast :: "ipv6 \<Rightarrow> bool" where
  "v6_is_multicast (Ipv6Addr a b c d e f g h) = ((a AND 0xff00) = 0xff00)"

fun is_loopback :: "ipaddr \<Rightarrow> bool" where
  "is_loopback (IpV4 ip) = v4_is_loopback ip"
| "is_loopback (IpV6 ip) = v6_is_loopback ip"

text \<open>The IPv4 address whose octets are the bytes of two segments.\<close>

definition ipv4_of_u16s :: "u16 \<Rightarrow> u16 \<Rightarrow> ipv4" where
  "ipv4_of_u16s hi lo =
     Ipv4Addr (ucast (drop_bit 8 hi)) (ucast hi) (ucast (drop_bit 8 lo)) (ucast lo)"

fun to_ipv4_mapped :: "ipv6 \<Rightarrow> ipv4 option" where
  "to_ipv4_mapped (Ipv6Addr a b c d e f g h) =
     (if [a, b, c, d, e, f] = [0, 0, 0, 0, 0, 0xffff] then Some (ipv4_of_u16s g h) else None)"

fun to_canonical :: "ipaddr \<Rightarrow> ipaddr" where
  "to_canonical (IpV4 ip) = IpV4 ip"
| "to_canonical (IpV6 ip) =
     (case to_ipv4_mapped ip of Some v4 \<Rightarrow> IpV4 v4 | None \<Rightarrow> IpV6 ip)"

section \<open>Text\<close>

type_synonym 'a reader = "string \<Rightarrow> ('a \<times> string) option"

definition digit_value :: "nat \<Rightarrow> char \<Rightarrow> nat option" where
  "digit_value radix c =
     (let b = byte c;
          v = (if 48 \<le> b \<and> b \<le> 57 then b - 48
               else if 97 \<le> b \<and> b \<le> 122 then b - 87
               else if 65 \<le> b \<and> b \<le> 90 then b - 55
               else 36)
      in if v < radix then Some v else None)"

definition is_radix_digit :: "nat \<Rightarrow> char \<Rightarrow> bool" where
  "is_radix_digit radix c = (digit_value radix c \<noteq> None)"

definition radix_value :: "nat \<Rightarrow> string \<Rightarrow> nat" where
  "radix_value radix ds =
     foldl (\<lambda>n c. n * radix + (case digit_value radix c of Some v \<Rightarrow> v | None \<Rightarrow> 0)) 0 ds"

text \<open>\<open>Parser::read_number\<close>: a maximal run of digits, refused when it is empty, longer than
  \<open>max_digits\<close>, has a leading zero that is not allowed, or exceeds the target type.\<close>

definition read_number :: "nat \<Rightarrow> nat \<Rightarrow> bool \<Rightarrow> nat \<Rightarrow> nat reader" where
  "read_number radix max_digits allow_zero_prefix max_value s =
     (let ds = takeWhile (is_radix_digit radix) s
      in if ds = [] \<or> max_digits < length ds
            \<or> (\<not> allow_zero_prefix \<and> hd ds = CHR ''0'' \<and> 1 < length ds)
            \<or> max_value < radix_value radix ds
         then None
         else Some (radix_value radix ds, drop (length ds) s))"

definition read_char :: "char \<Rightarrow> unit reader" where
  "read_char c s = (case s of [] \<Rightarrow> None | d # r \<Rightarrow> if d = c then Some ((), r) else None)"

definition read_separator :: "char \<Rightarrow> nat \<Rightarrow> 'a reader \<Rightarrow> 'a reader" where
  "read_separator sep index inner s =
     (if 0 < index then (case read_char sep s of None \<Rightarrow> None | Some (_, r) \<Rightarrow> inner r)
      else inner s)"

fun read_octets :: "nat \<Rightarrow> nat \<Rightarrow> u8 list reader" where
  "read_octets 0 i s = Some ([], s)"
| "read_octets (Suc n) i s =
     (case read_separator (CHR ''.'') i (read_number 10 3 False 255) s of
        None \<Rightarrow> None
      | Some (v, r) \<Rightarrow>
          (case read_octets n (Suc i) r of
             None \<Rightarrow> None
           | Some (vs, r') \<Rightarrow> Some (of_nat v # vs, r')))"

definition read_ipv4_addr :: "ipv4 reader" where
  "read_ipv4_addr s =
     (case read_octets 4 0 s of
        Some ([a, b, c, d], r) \<Rightarrow> Some (Ipv4Addr a b c d, r)
      | _ \<Rightarrow> None)"

definition u16_from_be_bytes :: "u8 \<Rightarrow> u8 \<Rightarrow> u16" where
  "u16_from_be_bytes a b = of_nat (unat a * 256 + unat b)"

fun read_groups :: "nat \<Rightarrow> nat \<Rightarrow> string \<Rightarrow> u16 list \<times> bool \<times> string" where
  "read_groups 0 i s = ([], False, s)"
| "read_groups (Suc n) i s =
     (case (if 0 < n then read_separator (CHR '':'') i read_ipv4_addr s else None) of
        Some (Ipv4Addr a b c d, r) \<Rightarrow>
          ([u16_from_be_bytes a b, u16_from_be_bytes c d], True, r)
      | None \<Rightarrow>
          (case read_separator (CHR '':'') i (read_number 16 4 True 65535) s of
             None \<Rightarrow> ([], False, s)
           | Some (g, r) \<Rightarrow>
               (case read_groups n (Suc i) r of
                  (gs, v4, r') \<Rightarrow> (of_nat g # gs, v4, r'))))"

definition read_ipv6_addr :: "ipv6 reader" where
  "read_ipv6_addr s =
     (case read_groups 8 0 s of (front, front_v4, r1) \<Rightarrow>
        if length front = 8 then map_option (\<lambda>ip. (ip, r1)) (ipv6_of_segments front)
        else if front_v4 then None
        else (case read_char (CHR '':'') r1 of None \<Rightarrow> None | Some (_, r2) \<Rightarrow>
          (case read_char (CHR '':'') r2 of None \<Rightarrow> None | Some (_, r3) \<Rightarrow>
            (case read_groups (8 - (length front + 1)) 0 r3 of (back, _, r4) \<Rightarrow>
               map_option (\<lambda>ip. (ip, r4))
                 (ipv6_of_segments
                    (front @ replicate (8 - length front - length back) 0 @ back))))))"

text \<open>\<open>str::parse::<IpAddr>()\<close>: the whole text must be consumed; IPv4 is tried first.\<close>

definition parse_ip :: "string \<Rightarrow> ipaddr option" where
  "parse_ip s =
     (case (case read_ipv4_addr s of
              Some (v4, r) \<Rightarrow> Some (IpV4 v4, r)
            | None \<Rightarrow> map_option (\<lambda>(v6, r). (IpV6 v6, r)) (read_ipv6_addr s)) of
        Some (ip, []) \<Rightarrow> Some ip
      | _ \<Rightarrow> None)"

text \<open>
  \<open>str::parse::<SocketAddr>()\<close>: \<open>a.b.c.d:port\<close> or \<open>[v6%scope]:port\<close> with an optional scope;
  the port is a plain run of digits.
\<close>

definition read_port :: "nat reader" where
  "read_port s =
     (case read_char (CHR '':'') s of
        None \<Rightarrow> None
      | Some (_, r) \<Rightarrow> read_number 10 (length r) True 65535 r)"

definition skip_scope_id :: "string \<Rightarrow> string" where
  "skip_scope_id s =
     (case read_char (CHR ''%'') s of
        None \<Rightarrow> s
      | Some (_, r) \<Rightarrow> (case read_number 10 (length r) True 4294967295 r of None \<Rightarrow> s | Some (_, r') \<Rightarrow> r'))"

definition read_socket_ip :: "ipaddr reader" where
  "read_socket_ip s =
     (case read_ipv4_addr s of
        Some (v4, r) \<Rightarrow> Some (IpV4 v4, r)
      | None \<Rightarrow>
          (case read_char (CHR ''['') s of
             None \<Rightarrow> None
           | Some (_, r1) \<Rightarrow>
               (case read_ipv6_addr r1 of
                  None \<Rightarrow> None
                | Some (v6, r2) \<Rightarrow>
                    (case read_char (CHR '']'') (skip_scope_id r2) of
                       None \<Rightarrow> None
                     | Some (_, r3) \<Rightarrow> Some (IpV6 v6, r3)))))"

definition parse_socket_addr :: "string \<Rightarrow> socket_addr option" where
  "parse_socket_addr s =
     (case read_socket_ip s of
        None \<Rightarrow> None
      | Some (ip, r) \<Rightarrow>
          (case read_port r of
             Some (port, []) \<Rightarrow> Some \<lparr>sa_ip = ip, sa_port = port\<rparr>
           | _ \<Rightarrow> None))"

fun show_ipv4 :: "ipv4 \<Rightarrow> string" where
  "show_ipv4 (Ipv4Addr a b c d) =
     show_nat (unat a) @ ''.'' @ show_nat (unat b) @ ''.'' @ show_nat (unat c) @ ''.'' @
     show_nat (unat d)"

definition hex_digit :: "nat \<Rightarrow> char" where
  "hex_digit n = (if n < 10 then char_of (48 + n) else char_of (87 + n))"

fun show_hex :: "nat \<Rightarrow> string" where
  "show_hex n = (if n < 16 then [hex_digit n] else show_hex (n div 16) @ [hex_digit (n mod 16)])"

declare show_hex.simps [simp del]

text \<open>The longest run of zero segments, the first one on a tie: start and length, carrying
  the run in progress.\<close>

fun zero_span :: "nat \<Rightarrow> nat \<times> nat \<Rightarrow> nat \<times> nat \<Rightarrow> u16 list \<Rightarrow> nat \<times> nat" where
  "zero_span i cur longest [] = longest"
| "zero_span i cur longest (s # ss) =
     (if s = 0 then
        (let cur' = (if snd cur = 0 then (i, 1) else (fst cur, snd cur + 1))
         in zero_span (Suc i) cur' (if snd longest < snd cur' then cur' else longest) ss)
      else zero_span (Suc i) (0, 0) longest ss)"

definition show_segments :: "u16 list \<Rightarrow> string" where
  "show_segments ss = join '':'' (map (\<lambda>s. show_hex (unat s)) ss)"

definition show_ipv6 :: "ipv6 \<Rightarrow> string" where
  "show_ipv6 ip =
     (case to_ipv4_mapped ip of
        Some v4 \<Rightarrow> ''::ffff:'' @ show_ipv4 v4
      | None \<Rightarrow>
          (case zero_span 0 (0, 0) (0, 0) (segments ip) of (start, len) \<Rightarrow>
             if 1 < len
             then show_segments (take start (segments ip)) @ ''::'' @
                  show_segments (drop (start + len) (segments ip))
             else show_segments (segments ip)))"

fun show_ip :: "ipaddr \<Rightarrow> string" where
  "show_ip (IpV4 ip) = show_ipv4 ip"
| "show_ip (IpV6 ip) = show_ipv6 ip"

section \<open>CIDR blocks\<close>

fun ip_in_cidr :: "ipaddr \<Rightarrow> ipaddr \<Rightarrow> nat \<Rightarrow> bool" where
  "ip_in_cidr (IpV4 ip) (IpV4 network) prefix =
     (prefix \<le> 32 \<and>
      (let mask = (if prefix = 0 then 0 else push_bit (32 - prefix) (- 1 :: u32))
       in (u32_from ip AND mask) = (u32_from network AND mask)))"
| "ip_in_cidr (IpV6 ip) (IpV6 network) prefix =
     (prefix \<le> 128 \<and>
      (let mask = (if prefix = 0 then 0 else push_bit (128 - prefix) (- 1 :: u128))
       in (u128_from ip AND mask) = (u128_from network AND mask)))"
| "ip_in_cidr _ _ _ = False"

declare ip_in_cidr.simps [simp del]

text \<open>Text after which a run of decimal digits ends.\<close>

definition stops_digits :: "string \<Rightarrow> bool" where
  "stops_digits r = (case r of [] \<Rightarrow> True | c # _ \<Rightarrow> \<not> is_digit c)"

section \<open>Lemmas\<close>

lemma mask_eq_drop:
  fixes x y :: "'a::len word"
  assumes "k \<le> LENGTH('a)"
  shows "(x AND push_bit k (- 1)) = (y AND push_bit k (- 1)) \<longleftrightarrow> drop_bit k x = drop_bit k y"
proof
  assume eq: "(x AND push_bit k (- 1)) = (y AND push_bit k (- 1))"
  show "drop_bit k x = drop_bit k y"
  proof (rule bit_word_eqI)
    fix n assume "n < LENGTH('a)"
    have "bit (x AND push_bit k (- 1)) (k + n) = bit (y AND push_bit k (- 1)) (k + n)"
      using eq by simp
    then show "bit (drop_bit k x) n = bit (drop_bit k y) n"
      using bit_imp_le_length [of x "k + n"] bit_imp_le_length [of y "k + n"]
      by (auto simp: bit_simps)
  qed
next
  assume eq: "drop_bit k x = drop_bit k y"
  show "(x AND push_bit k (- 1)) = (y AND push_bit k (- 1))"
  proof (rule bit_word_eqI)
    fix n assume "n < LENGTH('a)"
    have "k \<le> n \<Longrightarrow> bit x n = bit y n"
      using eq [THEN arg_cong, of "\<lambda>w. bit w (n - k)"] by (simp add: bit_simps)
    then show "bit (x AND push_bit k (- 1)) n = bit (y AND push_bit k (- 1)) n"
      by (auto simp: bit_simps)
  qed
qed

lemmas not_mask_eq_drop = mask_eq_drop [unfolded push_bit_minus_one_eq_not_mask]

lemma drop_bit_eq_unat:
  fixes x y :: "'a::len word"
  shows "drop_bit k x = drop_bit k y \<longleftrightarrow> unat x div 2 ^ k = unat y div 2 ^ k"
proof -
  have "unat (drop_bit k w) = unat w div 2 ^ k" for w :: "'a word"
    unfolding unat_drop_bit_eq by (rule drop_bit_eq_div)
  then show ?thesis by (metis word_unat_eq_iff)
qed

lemma u8_lt: "unat (x :: u8) < 256"
  using unsigned_less [of x] by simp

lemma u16_lt: "unat (x :: u16) < 65536"
  using unsigned_less [of x] by simp

lemma be_value_Nil [simp]: "be_value w [] = 0"
  by (simp add: be_value_def)

lemma be_value_snoc: "be_value w (ds @ [d]) = be_value w ds * 2 ^ w + d"
  by (simp add: be_value_def)

lemma be_value_append:
  "be_value w (ds @ es) = be_value w ds * 2 ^ (w * length es) + be_value w es"
proof (induction es rule: rev_induct)
  case (snoc e es)
  then show ?case
    by (simp add: be_value_snoc power_add algebra_simps flip: append_assoc)
qed simp

lemma be_value_lt: "\<forall>d \<in> set ds. d < 2 ^ w \<Longrightarrow> be_value w ds < 2 ^ (w * length ds)"
proof (induction ds rule: rev_induct)
  case (snoc d ds)
  then have "be_value w ds + 1 \<le> 2 ^ (w * length ds)" and "d < 2 ^ w" by auto
  then have "(be_value w ds + 1) * 2 ^ w \<le> 2 ^ (w * length ds) * 2 ^ w"
    by (intro mult_le_mono1)
  with \<open>d < 2 ^ w\<close> show ?case by (simp add: be_value_snoc power_add algebra_simps)
qed simp

lemma digit_pair_eq:
  fixes a x b y k :: nat
  assumes "b < k" "y < k"
  shows "a * k + b = x * k + y \<longleftrightarrow> a = x \<and> b = y"
proof
  assume "a * k + b = x * k + y"
  then have "(a * k + b) div k = (x * k + y) div k" "(a * k + b) mod k = (x * k + y) mod k"
    by simp_all
  with assms show "a = x \<and> b = y" by simp
qed simp

lemma be_value_inj:
  assumes "length ds = length es" "\<forall>d \<in> set ds. d < 2 ^ w" "\<forall>d \<in> set es. d < 2 ^ w"
  shows "be_value w ds = be_value w es \<longleftrightarrow> ds = es"
  using assms
proof (induction ds arbitrary: es rule: rev_induct)
  case (snoc d ds)
  then obtain fs e where es: "es = fs @ [e]" "length fs = length ds"
    by (cases es rule: rev_cases) auto
  with snoc show ?case by (simp add: be_value_snoc digit_pair_eq)
qed simp

text \<open>The leading \<open>w * k + r\<close> bits of a digit string: \<open>k\<close> whole digits and the top \<open>r\<close>
  bits of the next one.\<close>

lemma be_value_prefix:
  assumes "\<forall>d \<in> set ds. d < 2 ^ w" "k < length ds" "r \<le> w"
  shows "be_value w ds div 2 ^ (w * (length ds - k) - r) =
         be_value w (take k ds) * 2 ^ r + ds ! k div 2 ^ (w - r)"
proof -
  let ?rest = "drop (Suc k) ds" and ?m = "w * (length ds - Suc k)"
  have split: "be_value w ds = be_value w (take (Suc k) ds) * 2 ^ ?m + be_value w ?rest"
    using be_value_append [of w "take (Suc k) ds" ?rest] by simp
  have lt: "be_value w ?rest < 2 ^ ?m"
    using be_value_lt [of ?rest w] assms(1) by (auto dest: in_set_dropD)
  have head: "be_value w (take (Suc k) ds) = be_value w (take k ds) * 2 ^ w + ds ! k"
    using assms(2) by (simp add: take_Suc_conv_app_nth be_value_snoc)
  have e: "w * (length ds - k) - r = ?m + (w - r)"
  proof -
    have "length ds - k = Suc (length ds - Suc k)" using assms(2) by simp
    then show ?thesis using assms(3) by simp
  qed
  have "be_value w ds div 2 ^ ?m = be_value w (take (Suc k) ds)"
    using lt by (simp add: split)
  then have "be_value w ds div 2 ^ (?m + (w - r)) = (be_value w (take k ds) * 2 ^ w + ds ! k) div 2 ^ (w - r)"
    by (simp add: power_add div_mult2_eq head)
  also have "be_value w (take k ds) * 2 ^ w = (be_value w (take k ds) * 2 ^ r) * 2 ^ (w - r)"
    using assms(3) by (simp flip: power_add)
  finally show ?thesis using e by simp
qed

lemma be_value_prefix_eq:
  assumes "\<forall>d \<in> set ds. d < 2 ^ w" "\<forall>d \<in> set es. d < 2 ^ w" "length es = length ds"
    and "k < length ds" "r \<le> w"
  shows "be_value w ds div 2 ^ (w * (length ds - k) - r) = be_value w es div 2 ^ (w * (length ds - k) - r)
         \<longleftrightarrow> take k ds = take k es \<and> ds ! k div 2 ^ (w - r) = es ! k div 2 ^ (w - r)"
proof -
  have small: "d div 2 ^ (w - r) < 2 ^ r" if "d < 2 ^ w" for d :: nat
    using that assms(5) by (simp add: less_mult_imp_div_less flip: power_add)
  have "be_value w (take k ds) = be_value w (take k es) \<longleftrightarrow> take k ds = take k es"
    using assms by (intro be_value_inj) (auto dest: in_set_takeD)
  moreover have "ds ! k div 2 ^ (w - r) < 2 ^ r" "es ! k div 2 ^ (w - r) < 2 ^ r"
    using assms by (auto intro!: small)
  ultimately show ?thesis
    using be_value_prefix [of ds w k r] be_value_prefix [of es w k r] assms
    by (simp add: digit_pair_eq)
qed

lemma octets_lt: "\<forall>d \<in> set (map unat (octets ip)). d < 2 ^ 8"
  by (cases ip) (simp add: u8_lt)

lemma segments_lt: "\<forall>d \<in> set (map unat (segments ip)). d < 2 ^ 16"
  by (cases ip) (simp add: u16_lt)

lemma length_octets [simp]: "length (octets ip) = 4"
  by (cases ip) simp

lemma length_segments [simp]: "length (segments ip) = 8"
  by (cases ip) simp

lemma ipv4_value_lt: "ipv4_value ip < 2 ^ 32"
  using be_value_lt [OF octets_lt, of ip] by (simp add: ipv4_value_def)

lemma ipv6_value_lt: "ipv6_value ip < 2 ^ 128"
  using be_value_lt [OF segments_lt, of ip] by (simp add: ipv6_value_def)

lemma unat_u32_from: "unat (u32_from ip) = ipv4_value ip"
  using ipv4_value_lt [of ip] by (simp add: u32_from_def unat_of_nat)

lemma unat_u128_from: "unat (u128_from ip) = ipv6_value ip"
  using ipv6_value_lt [of ip] by (simp add: u128_from_def unat_of_nat)

text \<open>Membership in a block is equality of the leading \<open>prefix\<close> bits of the values.\<close>

lemma ip_in_cidr_v4:
  "prefix \<le> 32 \<Longrightarrow>
   ip_in_cidr (IpV4 ip) (IpV4 network) prefix \<longleftrightarrow>
     ipv4_value ip div 2 ^ (32 - prefix) = ipv4_value network div 2 ^ (32 - prefix)"
  using ipv4_value_lt [of ip] ipv4_value_lt [of network]
  by (auto simp: ip_in_cidr.simps Let_def not_mask_eq_drop drop_bit_eq_unat unat_u32_from)

lemma ip_in_cidr_v6:
  "prefix \<le> 128 \<Longrightarrow>
   ip_in_cidr (IpV6 ip) (IpV6 network) prefix \<longleftrightarrow>
     ipv6_value ip div 2 ^ (128 - prefix) = ipv6_value network div 2 ^ (128 - prefix)"
  using ipv6_value_lt [of ip] ipv6_value_lt [of network]
  by (auto simp: ip_in_cidr.simps Let_def not_mask_eq_drop drop_bit_eq_unat unat_u128_from)

text \<open>The same, octet by octet and segment by segment.\<close>

lemma cidr_v4_octets:
  assumes "k < 4" "r \<le> 8"
  shows "ip_in_cidr (IpV4 ip) (IpV4 network) (8 * k + r) \<longleftrightarrow>
     take k (octets ip) = take k (octets network) \<and>
     unat (octets ip ! k) div 2 ^ (8 - r) = unat (octets network ! k) div 2 ^ (8 - r)"
proof -
  have "inj (unat :: u8 \<Rightarrow> nat)" by (simp add: inj_def word_unat_eq_iff)
  then have "take k (map unat (octets ip)) = take k (map unat (octets network))
    \<longleftrightarrow> take k (octets ip) = take k (octets network)"
    by (simp add: take_map inj_map_eq_map)
  moreover have "32 - (8 * k + r) = 8 * (4 - k) - r" using assms by linarith
  ultimately show ?thesis
    using be_value_prefix_eq [OF octets_lt octets_lt, of network ip k r] assms
    by (simp add: ip_in_cidr_v4 ipv4_value_def)
qed

lemma cidr_v6_segments:
  assumes "k < 8" "r \<le> 16"
  shows "ip_in_cidr (IpV6 ip) (IpV6 network) (16 * k + r) \<longleftrightarrow>
     take k (segments ip) = take k (segments network) \<and>
     unat (segments ip ! k) div 2 ^ (16 - r) = unat (segments network ! k) div 2 ^ (16 - r)"
proof -
  have "inj (unat :: u16 \<Rightarrow> nat)" by (simp add: inj_def word_unat_eq_iff)
  then have "take k (map unat (segments ip)) = take k (map unat (segments network))
    \<longleftrightarrow> take k (segments ip) = take k (segments network)"
    by (simp add: take_map inj_map_eq_map)
  moreover have "128 - (16 * k + r) = 16 * (8 - k) - r" using assms by linarith
  ultimately show ?thesis
    using be_value_prefix_eq [OF segments_lt segments_lt, of network ip k r] assms
    by (simp add: ip_in_cidr_v6 ipv6_value_def)
qed

lemma unat_u16_from_be_bytes: "unat (u16_from_be_bytes a b) = unat a * 256 + unat b"
proof -
  have "unat a * 256 + unat b < 65536" using u8_lt [of a] u8_lt [of b] by linarith
  then show ?thesis
    unfolding u16_from_be_bytes_def unat_of_nat by (simp del: of_nat_add of_nat_mult)
qed

lemma u16_from_be_bytes_high: "ucast (drop_bit 8 (u16_from_be_bytes a b)) = a"
  using unat_u16_from_be_bytes [of a b] u8_lt [of a] u8_lt [of b]
  by (simp add: word_unat_eq_iff unsigned_ucast_eq unat_div take_bit_eq_mod drop_bit_eq_div)

lemma u16_from_be_bytes_low: "ucast (u16_from_be_bytes a b) = b"
  using unat_u16_from_be_bytes [of a b] u8_lt [of a] u8_lt [of b]
  by (simp add: word_unat_eq_iff unsigned_ucast_eq take_bit_eq_mod)

lemma ipv4_of_u16s_bytes:
  "ipv4_of_u16s (u16_from_be_bytes a b) (u16_from_be_bytes c d) = Ipv4Addr a b c d"
  by (simp add: ipv4_of_u16s_def u16_from_be_bytes_high u16_from_be_bytes_low)

lemma div_eq_bounds: "0 < (k::nat) \<Longrightarrow> n div k = q \<longleftrightarrow> q * k \<le> n \<and> n < q * k + k"
  by (metis add.commute div_nat_eqI dividend_less_times_div mult.commute mult_Suc_right
      times_div_less_eq_dividend)

subsection \<open>Printing and parsing\<close>

lemma digit_value_10: "digit_value 10 c = (if is_digit c then Some (byte c - 48) else None)"
  by (auto simp: digit_value_def is_digit_def Let_def)

lemma is_radix_digit_10: "is_radix_digit 10 c = is_digit c"
  by (simp add: is_radix_digit_def digit_value_10)

lemma radix_value_10: "list_all is_digit ds \<Longrightarrow> radix_value 10 ds = dec_value ds"
  by (induction ds rule: rev_induct) (auto simp: radix_value_def dec_value_def digit_value_10)

lemma takeWhile_digits:
  "list_all is_digit ds \<Longrightarrow> stops_digits r \<Longrightarrow> takeWhile is_digit (ds @ r) = ds"
  by (induction ds) (auto simp: stops_digits_def split: list.splits)

lemma show_nat_zero_prefix: "hd (show_nat n) = CHR ''0'' \<Longrightarrow> length (show_nat n) = 1"
proof (cases "n = 0")
  case False
  assume "hd (show_nat n) = CHR ''0''"
  with hd_show_nat [of n] False show ?thesis by simp
qed (simp add: show_nat_head)

lemma read_number_show:
  assumes "n \<le> 255" "stops_digits r"
  shows "read_number 10 3 False 255 (show_nat n @ r) = Some (n, r)"
proof -
  have tw: "takeWhile (is_radix_digit 10) (show_nat n @ r) = show_nat n"
    using takeWhile_digits [OF show_nat_digits assms(2)] by (simp add: is_radix_digit_10 [abs_def])
  have "length (show_nat n) \<le> 3"
    using assms(1) by (intro length_show_nat) simp_all
  then show ?thesis
    using assms(1) show_nat_zero_prefix [of n]
    by (auto simp: read_number_def tw Let_def radix_value_10 show_nat_digits)
qed

lemma stops_digits_simps [simp]: "stops_digits []" "stops_digits (CHR ''.'' # r)"
  by (simp_all add: stops_digits_def is_digit_def)

lemma u8_le: "unat (x :: u8) \<le> 255"
  using u8_lt [of x] by simp

lemma read_octet_first:
  "stops_digits r \<Longrightarrow>
   read_octets (Suc n) 0 (show_nat (unat a) @ r) =
     (case read_octets n (Suc 0) r of None \<Rightarrow> None | Some (vs, r') \<Rightarrow> Some (a # vs, r'))"
  by (simp add: read_separator_def read_number_show u8_le split: option.split)

lemma read_octet_next:
  "stops_digits r \<Longrightarrow>
   read_octets (Suc n) (Suc i) (CHR ''.'' # show_nat (unat a) @ r) =
     (case read_octets n (Suc (Suc i)) r of None \<Rightarrow> None | Some (vs, r') \<Rightarrow> Some (a # vs, r'))"
  by (simp add: read_separator_def read_char_def read_number_show u8_le split: option.split)

lemma read_ipv4_show:
  assumes "stops_digits r"
  shows "read_ipv4_addr (show_ipv4 ip @ r) = Some (ip, r)"
proof (cases ip)
  case (Ipv4Addr a b c d)
  have "(4::nat) = Suc (Suc (Suc (Suc 0)))" by simp
  with Ipv4Addr assms show ?thesis
    by (simp only: read_ipv4_addr_def show_ipv4.simps append_assoc append_Cons append_Nil
        read_octet_first read_octet_next stops_digits_simps read_octets.simps(1)
        option.case prod.case list.case)
qed

text \<open>
  Round trip of IPv4 text: for every address, parsing what \<open>Display\<close> prints as an
  \<open>IpAddr\<close> gives the address back. Access lists and rate-limit keys pass through both.
\<close>

theorem ipv4_text_roundtrip: "parse_ip (show_ip (IpV4 ip)) = Some (IpV4 ip)"
  using read_ipv4_show [of "[]" ip] by (simp add: parse_ip_def)

subsection \<open>Evaluation on literal text\<close>

lemma read_char_suffix: "read_char c s = Some (u, r) \<Longrightarrow> s = c # r"
  by (auto simp: read_char_def split: list.splits if_splits)

lemma read_number_suffix: "read_number a b c d s = Some (v, r) \<Longrightarrow> \<exists>p. s = p @ r"
  by (auto simp: read_number_def Let_def split: if_splits intro: append_take_drop_id [symmetric])

lemma read_separator_suffix:
  assumes "read_separator c i inner s = Some (v, r)"
    and "\<And>t v r. inner t = Some (v, r) \<Longrightarrow> \<exists>p. t = p @ r"
  shows "\<exists>p. s = p @ r"
proof (cases "0 < i")
  case True
  with assms(1) obtain t u where "read_char c s = Some (u, t)" "inner t = Some (v, r)"
    by (auto simp: read_separator_def split: option.splits)
  with assms(2) show ?thesis using read_char_suffix by (metis append_Cons)
qed (use assms in \<open>simp add: read_separator_def\<close>)

lemma read_separated_number_suffix:
  "read_separator sep i (read_number a b c d) s = Some (v, r) \<Longrightarrow> \<exists>p. s = p @ r"
  by (erule read_separator_suffix) (erule read_number_suffix)

lemma read_octets_suffix: "read_octets n i s = Some (vs, r) \<Longrightarrow> \<exists>p. s = p @ r"
proof (induction n i s arbitrary: vs r rule: read_octets.induct)
  case (2 n i s)
  then obtain v t vs' where t: "read_separator (CHR ''.'') i (read_number 10 3 False 255) s = Some (v, t)"
    and r: "read_octets n (Suc i) t = Some (vs', r)" by (auto split: option.splits)
  obtain p where "s = p @ t" using read_separated_number_suffix [OF t] by blast
  moreover obtain q where "t = q @ r" using 2(1) [OF t refl r] by blast
  ultimately have "s = (p @ q) @ r" by simp
  then show ?case by blast
qed auto

lemma read_ipv4_suffix: "read_ipv4_addr s = Some (v, r) \<Longrightarrow> \<exists>p. s = p @ r"
  by (auto simp: read_ipv4_addr_def split: option.splits prod.splits list.splits
           dest!: read_octets_suffix)

lemma read_groups_suffix: "read_groups n i s = (gs, b, r) \<Longrightarrow> \<exists>p. s = p @ r"
proof (induction n i s arbitrary: gs b r rule: read_groups.induct)
  case (2 n i s)
  consider (v4) v where "read_separator (CHR '':'') i read_ipv4_addr s = Some (v, r)"
    | (stop) "r = s"
    | (group) v t gs' b' where "read_separator (CHR '':'') i (read_number 16 4 True 65535) s = Some (v, t)"
        "(if 0 < n then read_separator (CHR '':'') i read_ipv4_addr s else None) = None"
        "read_groups n (Suc i) t = (gs', b', r)"
    using 2(2) by (auto split: option.splits prod.splits if_splits ipv4.splits)
  then show ?case
  proof cases
    case v4
    show ?thesis by (rule read_separator_suffix [OF v4]) (rule read_ipv4_suffix)
  next
    case group
    obtain p where "s = p @ t" using read_separated_number_suffix [OF group(1)] by blast
    moreover obtain q where "t = q @ r" using 2(1) [OF group(2,1) refl group(3)] by blast
    ultimately have "s = (p @ q) @ r" by simp
    then show ?thesis by blast
  qed simp
qed simp

lemma read_ipv6_suffix:
  assumes "read_ipv6_addr s = Some (v, r)"
  shows "\<exists>p. s = p @ r"
proof -
  obtain front b r1 where g: "read_groups 8 0 s = (front, b, r1)" by (cases "read_groups 8 0 s")
  then obtain p where p: "s = p @ r1" using read_groups_suffix by blast
  show ?thesis
  proof (cases "length front = 8")
    case True
    with assms g p show ?thesis by (auto simp: read_ipv6_addr_def)
  next
    case False
    with assms g obtain r2 r3 gs b' where "read_char (CHR '':'') r1 = Some ((), r2)"
      "read_char (CHR '':'') r2 = Some ((), r3)" "read_groups (8 - (length front + 1)) 0 r3 = (gs, b', r)"
      by (auto simp: read_ipv6_addr_def split: if_splits option.splits prod.splits)
    then obtain q where "r1 = CHR '':'' # CHR '':'' # q @ r"
      using read_char_suffix read_groups_suffix by metis
    with p have "s = (p @ CHR '':'' # CHR '':'' # q) @ r" by simp
    then show ?thesis by blast
  qed
qed

lemma skip_scope_suffix: "\<exists>p. s = p @ skip_scope_id s"
  by (auto simp: skip_scope_id_def split: option.splits dest!: read_char_suffix read_number_suffix)

lemma read_socket_ip_suffix: "read_socket_ip s = Some (ip, r) \<Longrightarrow> \<exists>p. s = p @ r"
proof -
  assume *: "read_socket_ip s = Some (ip, r)"
  show ?thesis
  proof (cases "read_ipv4_addr s")
    case (Some x)
    with * show ?thesis by (cases x) (auto simp: read_socket_ip_def dest: read_ipv4_suffix)
  next
    case None
    with * obtain u r1 v6 r2 w where "read_char (CHR ''['') s = Some (u, r1)"
      "read_ipv6_addr r1 = Some (v6, r2)" "read_char (CHR '']'') (skip_scope_id r2) = Some (w, r)"
      by (auto simp: read_socket_ip_def split: option.splits)
    then obtain p q where "s = CHR ''['' # p @ r2" "r2 = q @ CHR '']'' # r"
      using read_char_suffix read_ipv6_suffix skip_scope_suffix [of r2] by metis
    then have "s = (CHR ''['' # p @ q @ [CHR '']'']) @ r" by simp
    then show ?thesis by blast
  qed
qed

text \<open>A socket address text ends in a colon and the decimal digits of its port.\<close>

lemma parse_socket_addr_port:
  assumes "parse_socket_addr s = Some sa"
  shows "\<exists>h ds. s = h @ CHR '':'' # ds \<and> ds \<noteq> [] \<and> list_all is_digit ds \<and>
           sa_port sa = dec_value ds \<and> dec_value ds \<le> 65535"
proof -
  obtain ip r ds where r: "read_socket_ip s = Some (ip, r)" and c: "read_char (CHR '':'') r = Some ((), ds)"
    and n: "read_number 10 (length ds) True 65535 ds = Some (sa_port sa, [])"
    using assms by (auto simp: parse_socket_addr_def read_port_def split: option.splits list.splits prod.splits)
  let ?d = "takeWhile (is_radix_digit 10) ds"
  from n have d: "?d \<noteq> []" "radix_value 10 ?d \<le> 65535" "sa_port sa = radix_value 10 ?d"
    and rest: "drop (length ?d) ds = []"
    by (auto simp: read_number_def Let_def simp del: takeWhile_eq_Nil_iff split: if_splits)
  from rest have whole: "?d = ds"
    using length_takeWhile_le [of "is_radix_digit 10" ds] takeWhile_eq_take [of "is_radix_digit 10" ds]
    by simp
  then have digits: "list_all is_digit ds"
    by (simp add: takeWhile_eq_all_conv list_all_iff is_radix_digit_10)
  obtain h where "s = h @ CHR '':'' # ds"
    using read_socket_ip_suffix [OF r] read_char_suffix [OF c] by blast
  with d whole digits radix_value_10 [OF digits] show ?thesis by auto
qed

lemmas read_octets_num = read_octets.simps(2) [of "pred_numeral k" for k, folded numeral_eq_Suc]
lemmas read_groups_num = read_groups.simps(2) [of "pred_numeral k" for k, folded numeral_eq_Suc]
lemmas replicate_num = replicate_Suc [of "pred_numeral k" for k, folded numeral_eq_Suc]

lemmas ip_eval =
  read_octets_num read_groups_num replicate_num parse_ip_def read_ipv4_addr_def
  read_ipv6_addr_def read_number_def read_separator_def read_char_def is_radix_digit_def
  digit_value_def radix_value_def

end
