(* ===== verification/Security.thy ===== *)
theory Security
  imports Net_Addr
begin

text \<open>
  The outbound and inbound network policy of the server (\<open>server/src/security.rs\<close>):
  which addresses an outbound request may reach, how a host name is resolved and pinned,
  which client address a request is attributed to behind proxies, and which WebSocket
  origins are accepted. The process environment, the DNS resolver, the URL parser of the
  \<open>url\<close> crate and the header-value decoder of the \<open>http\<close> crate are parameters.
\<close>

section \<open>Data\<close>

datatype outbound_error =
    UrlInvalid
  | SchemeNotAllowed string
  | UrlHasCredentials
  | UrlWithoutHost
  | UrlWithoutPort
  | HostInvalid
  | PrivateAddress ipaddr
  | PrivateHostName string
  | ResolveFailed
  | NoAddress

text \<open>What the code reads from a parsed URL.\<close>

record url =
  url_scheme :: string
  url_username :: string
  url_password :: "string option"
  url_host_str :: "string option"
  url_port :: "nat option"
  url_port_or_known_default :: "nat option"
  url_path :: string
  url_query :: "string option"
  url_fragment :: "string option"

record validated_outbound_url =
  vo_url :: url
  vo_host :: string
  vo_addrs :: "socket_addr list"

text \<open>A header map: the values under each lower-case name, in order of arrival.\<close>

type_synonym header_map = "string \<Rightarrow> string list"
type_synonym url_parser = "string \<Rightarrow> url option"
type_synonym resolver = "string \<Rightarrow> nat \<Rightarrow> socket_addr list option"
type_synonym header_decoder = "string \<Rightarrow> string option"

definition header_get :: "header_map \<Rightarrow> string \<Rightarrow> string option" where
  "header_get headers name = (case headers name of [] \<Rightarrow> None | v # _ \<Rightarrow> Some v)"

definition HTTP_FORWARDED_HEADER_MAX_BYTES :: nat where
  "HTTP_FORWARDED_HEADER_MAX_BYTES = 1024"

section \<open>Blocked addresses\<close>

fun is_blocked_ipv4 :: "ipv4 \<Rightarrow> bool" where
  "is_blocked_ipv4 (Ipv4Addr a b c d) =
     (let ip = Ipv4Addr a b c d in
      v4_is_private ip
      \<or> v4_is_loopback ip
      \<or> v4_is_link_local ip
      \<or> v4_is_multicast ip
      \<or> v4_is_unspecified ip
      \<or> v4_is_documentation ip
      \<or> v4_is_broadcast ip
      \<or> a = 0
      \<or> 224 \<le> a
      \<or> (a = 100 \<and> 64 \<le> b \<and> b \<le> 127)
      \<or> (a = 169 \<and> b = 254)
      \<or> (a = 192 \<and> b = 0 \<and> c = 0)
      \<or> (a = 192 \<and> b = 88 \<and> c = 99)
      \<or> (a = 198 \<and> 18 \<le> b \<and> b \<le> 19)
      \<or> [a, b, c, d] = [255, 255, 255, 255])"

declare is_blocked_ipv4.simps [simp del]

definition ipv4_from_segments :: "u16 \<Rightarrow> u16 \<Rightarrow> ipv4" where
  "ipv4_from_segments hi lo =
     Ipv4Addr (ucast (drop_bit 8 hi)) (ucast hi) (ucast (drop_bit 8 lo)) (ucast lo)"

definition embedded_ipv4 :: "ipv6 \<Rightarrow> ipv4 option" where
  "embedded_ipv4 ip =
     (case to_ipv4_mapped ip of
        Some mapped \<Rightarrow> Some mapped
      | None \<Rightarrow>
          (let s = segments ip in
           if take 6 s = [0, 0, 0, 0, 0, 0] \<or> take 6 s = [0, 0, 0, 0, 0xffff, 0]
           then Some (ipv4_from_segments (s ! 6) (s ! 7))
           else if take 6 s = [0x0064, 0xff9b, 0, 0, 0, 0]
                   \<or> (s ! 0 = 0x0064 \<and> s ! 1 = 0xff9b \<and> s ! 2 = 1)
           then Some (ipv4_from_segments (s ! 6) (s ! 7))
           else if s ! 0 = 0x2002 then Some (ipv4_from_segments (s ! 1) (s ! 2))
           else None))"

definition is_blocked_ipv6 :: "ipv6 \<Rightarrow> bool" where
  "is_blocked_ipv6 ip =
     (let s = segments ip; first = s ! 0 in
      v6_is_loopback ip
      \<or> v6_is_unspecified ip
      \<or> v6_is_multicast ip
      \<or> (first AND 0xfe00) = 0xfc00
      \<or> (first AND 0xffc0) = 0xfe80
      \<or> (first AND 0xffc0) = 0xfec0
      \<or> (s ! 0 = 0x2001 \<and> s ! 1 = 0x0db8)
      \<or> (s ! 0 AND 0xfff0) = 0x3ff0
      \<or> (s ! 0 = 0x2001 \<and> s ! 1 < 0x0200)
      \<or> (s ! 0 = 0x0100 \<and> take 3 (drop 1 s) = [0, 0, 0])
      \<or> take 6 s = [0, 0, 0, 0, 0, 0]
      \<or> take 6 s = [0, 0, 0, 0, 0xffff, 0]
      \<or> take 6 s = [0x0064, 0xff9b, 0, 0, 0, 0]
      \<or> (s ! 0 = 0x0064 \<and> s ! 1 = 0xff9b \<and> s ! 2 = 0x0001)
      \<or> (case embedded_ipv4 ip of Some v4 \<Rightarrow> is_blocked_ipv4 v4 | None \<Rightarrow> False))"

fun is_blocked_ip :: "ipaddr \<Rightarrow> bool" where
  "is_blocked_ip (IpV4 ip) = is_blocked_ipv4 ip"
| "is_blocked_ip (IpV6 ip) = is_blocked_ipv6 ip"

definition ensure_public_ip :: "ipaddr \<Rightarrow> outbound_error + unit" where
  "ensure_public_ip ip = (if is_blocked_ip ip then Inl (PrivateAddress ip) else Inr ())"

section \<open>Outbound resolution\<close>

definition allow_private_outbound :: "env \<Rightarrow> bool" where
  "allow_private_outbound env = env_flag env ''XLSTATUS_ALLOW_PRIVATE_OUTBOUND''"

definition allow_private_webhooks :: "env \<Rightarrow> bool" where
  "allow_private_webhooks env =
     (allow_private_outbound env \<or> env_flag env ''XLSTATUS_ALLOW_PRIVATE_WEBHOOKS'')"

text \<open>The loop over the resolver's answers: the first blocked address aborts it.\<close>

fun collect_public :: "socket_addr list \<Rightarrow> outbound_error + socket_addr list" where
  "collect_public [] = Inr []"
| "collect_public (addr # addrs) =
     and_then (ensure_public_ip (sa_ip addr)) (\<lambda>_.
     and_then (collect_public addrs) (\<lambda>rest. Inr (addr # rest)))"

definition resolve_outbound_host_with_policy ::
  "resolver \<Rightarrow> string \<Rightarrow> nat \<Rightarrow> bool \<Rightarrow> outbound_error + socket_addr list" where
  "resolve_outbound_host_with_policy lookup_host host port allow_private =
     (let trimmed_host = trim host in
      if trimmed_host = [] \<or> has_control trimmed_host then Inl HostInvalid
      else
        (let unbracketed =
           (case Option.bind (strip_prefix ''['' trimmed_host) (strip_suffix '']'') of
              Some v \<Rightarrow> v | None \<Rightarrow> trimmed_host)
         in
         if unbracketed = [] \<or> CHR ''%'' \<in> set unbracketed then Inl HostInvalid
         else if allow_private then
           (case parse_ip unbracketed of
              Some ip \<Rightarrow> Inr [\<lparr>sa_ip = ip, sa_port = port\<rparr>]
            | None \<Rightarrow>
                (case lookup_host unbracketed port of
                   None \<Rightarrow> Inl ResolveFailed
                 | Some resolved \<Rightarrow> if resolved = [] then Inl NoAddress else Inr resolved))
         else
           (case parse_ip unbracketed of
              Some ip \<Rightarrow>
                and_then (ensure_public_ip ip) (\<lambda>_. Inr [\<lparr>sa_ip = ip, sa_port = port\<rparr>])
            | None \<Rightarrow>
                (let normalized_domain =
                   to_ascii_lowercase (trim_end_matches (CHR ''.'') unbracketed)
                 in
                 if normalized_domain = ''localhost'' \<or> ends_with ''.localhost'' normalized_domain
                 then Inl (PrivateHostName host)
                 else
                   (case lookup_host unbracketed port of
                      None \<Rightarrow> Inl ResolveFailed
                    | Some addrs \<Rightarrow>
                        and_then (collect_public addrs) (\<lambda>resolved.
                          if resolved = [] then Inl NoAddress else Inr resolved))))))"

definition resolve_outbound_host ::
  "env \<Rightarrow> resolver \<Rightarrow> string \<Rightarrow> nat \<Rightarrow> outbound_error + socket_addr list" where
  "resolve_outbound_host env lookup_host host port =
     resolve_outbound_host_with_policy lookup_host host port (allow_private_outbound env)"

definition validate_outbound_host ::
  "env \<Rightarrow> resolver \<Rightarrow> string \<Rightarrow> nat \<Rightarrow> outbound_error + unit" where
  "validate_outbound_host env lookup_host host port =
     and_then (resolve_outbound_host env lookup_host host port) (\<lambda>_. Inr ())"

definition validate_outbound_url_resolved_with_policy ::
  "url_parser \<Rightarrow> resolver \<Rightarrow> string \<Rightarrow> bool \<Rightarrow> outbound_error + validated_outbound_url" where
  "validate_outbound_url_resolved_with_policy parse_url lookup_host u allow_private =
     and_then (ok_or (parse_url u) UrlInvalid) (\<lambda>parsed.
     and_then (ensure (url_scheme parsed \<in> {''http'', ''https''})
                 (SchemeNotAllowed (url_scheme parsed))) (\<lambda>_.
     and_then (ensure (url_username parsed = [] \<and> url_password parsed = None)
                 UrlHasCredentials) (\<lambda>_.
     and_then (ok_or (url_host_str parsed) UrlWithoutHost) (\<lambda>host.
     and_then (ok_or (url_port_or_known_default parsed) UrlWithoutPort) (\<lambda>port.
     and_then (resolve_outbound_host_with_policy lookup_host host port allow_private) (\<lambda>addrs.
       Inr \<lparr>vo_url = parsed, vo_host = host, vo_addrs = addrs\<rparr>))))))"

definition validate_outbound_url_resolved ::
  "env \<Rightarrow> url_parser \<Rightarrow> resolver \<Rightarrow> string \<Rightarrow> outbound_error + validated_outbound_url" where
  "validate_outbound_url_resolved env parse_url lookup_host u =
     validate_outbound_url_resolved_with_policy parse_url lookup_host u
       (allow_private_outbound env)"

definition validate_webhook_outbound_url_resolved ::
  "env \<Rightarrow> url_parser \<Rightarrow> resolver \<Rightarrow> string \<Rightarrow> outbound_error + validated_outbound_url" where
  "validate_webhook_outbound_url_resolved env parse_url lookup_host u =
     validate_outbound_url_resolved_with_policy parse_url lookup_host u
       (allow_private_webhooks env)"

definition validate_outbound_url ::
  "env \<Rightarrow> url_parser \<Rightarrow> resolver \<Rightarrow> string \<Rightarrow> outbound_error + url" where
  "validate_outbound_url env parse_url lookup_host u =
     and_then (validate_outbound_url_resolved env parse_url lookup_host u)
       (\<lambda>validated. Inr (vo_url validated))"

definition validate_webhook_outbound_url ::
  "env \<Rightarrow> url_parser \<Rightarrow> resolver \<Rightarrow> string \<Rightarrow> outbound_error + url" where
  "validate_webhook_outbound_url env parse_url lookup_host u =
     and_then (validate_webhook_outbound_url_resolved env parse_url lookup_host u)
       (\<lambda>validated. Inr (vo_url validated))"

text \<open>What the HTTP client builder is configured with.\<close>

datatype redirect_policy = RedirectNone | RedirectFollow

record client_builder =
  cb_use_proxy :: bool
  cb_redirect :: redirect_policy
  cb_resolve :: "string \<Rightarrow> socket_addr list option"

definition secure_reqwest_client_builder :: "validated_outbound_url \<Rightarrow> client_builder" where
  "secure_reqwest_client_builder validated =
     \<lparr>cb_use_proxy = False, cb_redirect = RedirectNone,
      cb_resolve = [vo_host validated \<mapsto> vo_addrs validated]\<rparr>"

section \<open>Client addresses behind proxies\<close>

definition parse_header_ip :: "string \<Rightarrow> ipaddr option" where
  "parse_header_ip value =
     parse_ip (trim_end_matches (CHR '']'') (trim_start_matches (CHR ''['') (trim value)))"

definition sanitize_ip_label :: "string option \<Rightarrow> string option" where
  "sanitize_ip_label value =
     (case value of None \<Rightarrow> None
      | Some v \<Rightarrow>
          (let v' = trim v in
           if v' = [] then None else map_option show_ip (parse_header_ip v')))"

definition trust_proxy_headers :: "env \<Rightarrow> bool" where
  "trust_proxy_headers env = env_flag env ''XLSTATUS_TRUST_PROXY_HEADERS''"

definition bounded_forwarded_header_str :: "string \<Rightarrow> string option" where
  "bounded_forwarded_header_str value =
     (if length value > HTTP_FORWARDED_HEADER_MAX_BYTES \<or> has_control value then None
      else (let trimmed = trim value in if trimmed \<noteq> [] then Some trimmed else None))"

definition bounded_http_forwarded_header_value :: "header_decoder \<Rightarrow> string \<Rightarrow> string option" where
  "bounded_http_forwarded_header_value to_str value =
     (if length value > HTTP_FORWARDED_HEADER_MAX_BYTES then None
      else Option.bind (to_str value) bounded_forwarded_header_str)"

definition trusted_proxy_entry_matches :: "string \<Rightarrow> ipaddr \<Rightarrow> bool" where
  "trusted_proxy_entry_matches entry ip =
     (let canonical_ip = to_canonical ip in
      case parse_ip entry of
        Some exact \<Rightarrow> exact = ip \<or> to_canonical exact = canonical_ip
      | None \<Rightarrow>
          (case split_once (CHR ''/'') entry of
             None \<Rightarrow> False
           | Some (network, prefix) \<Rightarrow>
               (case parse_ip network of
                  None \<Rightarrow> False
                | Some network_ip \<Rightarrow>
                    (case parse_u8 prefix of
                       None \<Rightarrow> False
                     | Some p \<Rightarrow>
                         ip_in_cidr ip network_ip p \<or> ip_in_cidr canonical_ip network_ip p))))"

definition list_separator :: "char \<Rightarrow> bool" where
  "list_separator c = (c = CHR '','' \<or> c = CHR '' '' \<or> byte c = 10 \<or> byte c = 9)"

definition trusted_proxy_ip :: "env \<Rightarrow> ipaddr \<Rightarrow> bool" where
  "trusted_proxy_ip env ip =
     (case env ''XLSTATUS_TRUSTED_PROXIES'' of
        None \<Rightarrow> False
      | Some raw \<Rightarrow>
          list_ex (\<lambda>item. trusted_proxy_entry_matches item ip)
            (filter (\<lambda>item. item \<noteq> []) (map trim (split_on list_separator raw))))"

definition unknown_if_none :: "string option \<Rightarrow> string" where
  "unknown_if_none x = (case x of Some v \<Rightarrow> v | None \<Rightarrow> ''unknown'')"

definition forwarded_client_ip_with_peer ::
  "env \<Rightarrow> (string \<Rightarrow> string option) \<Rightarrow> string option \<Rightarrow> ipaddr option \<Rightarrow> string" where
  "forwarded_client_ip_with_peer env get_header fallback peer_ip =
     (if \<not> trust_proxy_headers env then unknown_if_none (sanitize_ip_label fallback)
      else
        (let peer_is_trusted =
               (case peer_ip of Some ip \<Rightarrow> trusted_proxy_ip env ip | None \<Rightarrow> False);
             from_header = (\<lambda>name first.
               Option.bind (Option.bind (get_header name) bounded_forwarded_header_str)
                 (\<lambda>value. sanitize_ip_label (Some (first value))));
             forwarded =
               or_else (from_header ''x-forwarded-for''
                          (\<lambda>value. trim (hd (split_on (\<lambda>c. c = CHR '','') value))))
                 (or_else (from_header ''x-real-ip'' (\<lambda>value. value))
                          (from_header ''cf-connecting-ip'' (\<lambda>value. value)))
         in case (if peer_is_trusted then forwarded else None) of
              Some ip \<Rightarrow> ip
            | None \<Rightarrow> unknown_if_none (sanitize_ip_label fallback)))"

definition client_ip_from_headers_and_peer ::
  "env \<Rightarrow> header_decoder \<Rightarrow> header_map \<Rightarrow> socket_addr option \<Rightarrow> string" where
  "client_ip_from_headers_and_peer env to_str headers peer_addr =
     (let peer_ip = map_option sa_ip peer_addr in
      if \<not> trust_proxy_headers env
      then unknown_if_none (sanitize_ip_label (map_option show_ip peer_ip))
      else forwarded_client_ip_with_peer env
             (\<lambda>name. Option.bind (header_get headers name)
                       (bounded_http_forwarded_header_value to_str))
             (map_option show_ip peer_ip) peer_ip)"

definition client_ip_from_headers :: "env \<Rightarrow> header_decoder \<Rightarrow> header_map \<Rightarrow> string" where
  "client_ip_from_headers env to_str headers =
     client_ip_from_headers_and_peer env to_str headers None"

definition normalize_forwarded_proto :: "string \<Rightarrow> string option" where
  "normalize_forwarded_proto value =
     (let v = to_ascii_lowercase (trim_matches (CHR 0x22) (trim value)) in
      if v = ''https'' then Some ''https'' else if v = ''http'' then Some ''http'' else None)"

fun find_map :: "('a \<Rightarrow> 'b option) \<Rightarrow> 'a list \<Rightarrow> 'b option" where
  "find_map f [] = None"
| "find_map f (x # xs) = or_else (f x) (find_map f xs)"

definition forwarded_header_param :: "string \<Rightarrow> string \<Rightarrow> string option" where
  "forwarded_header_param value name =
     find_map (\<lambda>part.
         case split_once (CHR ''='') (trim part) of
           None \<Rightarrow> None
         | Some (key, v) \<Rightarrow>
             if eq_ignore_ascii_case (trim key) name
             then Some (trim_matches (CHR 0x22) (trim v)) else None)
       (split_on (\<lambda>c. c = CHR '';'') (hd (split_on (\<lambda>c. c = CHR '','') value)))"

definition forwarded_proto_header_value :: "header_decoder \<Rightarrow> header_map \<Rightarrow> string option" where
  "forwarded_proto_header_value to_str headers =
     or_else
       (map_option (\<lambda>value. trim (hd (split_on (\<lambda>c. c = CHR '','') value)))
          (Option.bind (header_get headers ''x-forwarded-proto'')
             (bounded_http_forwarded_header_value to_str)))
       (Option.bind
          (Option.bind (header_get headers ''forwarded'')
             (bounded_http_forwarded_header_value to_str))
          (\<lambda>value. forwarded_header_param value ''proto''))"

definition forwarded_proto_from_headers_and_peer ::
  "env \<Rightarrow> header_decoder \<Rightarrow> header_map \<Rightarrow> socket_addr option \<Rightarrow> string option" where
  "forwarded_proto_from_headers_and_peer env to_str headers peer_addr =
     (if \<not> trust_proxy_headers env then None
      else case peer_addr of
        None \<Rightarrow> None
      | Some addr \<Rightarrow>
          if \<not> trusted_proxy_ip env (sa_ip addr) then None
          else Option.bind (forwarded_proto_header_value to_str headers)
                 normalize_forwarded_proto)"

section \<open>WebSocket origins\<close>

record origin_host =
  oh_host :: string
  oh_port :: "nat option"
  oh_default_port :: nat

record request_host =
  rh_host :: string
  rh_port :: "nat option"

definition url_is_bare :: "url \<Rightarrow> bool" where
  "url_is_bare parsed =
     (url_username parsed = [] \<and> url_password parsed = None \<and> url_path parsed = ''/''
      \<and> url_query parsed = None \<and> url_fragment parsed = None)"

definition parse_origin_host :: "url_parser \<Rightarrow> string \<Rightarrow> origin_host option" where
  "parse_origin_host parse_url origin =
     (if has_control origin then None
      else Option.bind (parse_url origin) (\<lambda>parsed.
        if \<not> url_is_bare parsed then None
        else Option.bind
          (if url_scheme parsed = ''http'' then Some 80
           else if url_scheme parsed = ''https'' then Some 443 else None) (\<lambda>default_port.
          map_option (\<lambda>host.
            \<lparr>oh_host = to_ascii_lowercase host, oh_port = url_port parsed,
             oh_default_port = default_port\<rparr>) (url_host_str parsed))))"

definition parse_request_host :: "url_parser \<Rightarrow> string \<Rightarrow> request_host option" where
  "parse_request_host parse_url host =
     (if has_control host then None
      else Option.bind (parse_url (''http://'' @ host)) (\<lambda>parsed.
        if \<not> url_is_bare parsed then None
        else map_option (\<lambda>h. \<lparr>rh_host = to_ascii_lowercase h, rh_port = url_port parsed\<rparr>)
               (url_host_str parsed)))"

definition normalized_host_port :: "url_parser \<Rightarrow> string \<Rightarrow> string option \<Rightarrow> string option" where
  "normalized_host_port parse_url value default_scheme =
     Option.bind
       (case default_scheme of
          Some _ \<Rightarrow> parse_url value
        | None \<Rightarrow> parse_url (''http://'' @ value)) (\<lambda>parsed.
     Option.bind (url_host_str parsed) (\<lambda>h.
       (let host = to_ascii_lowercase h;
            port = or_else (url_port parsed)
              (Option.bind default_scheme (\<lambda>scheme.
                 if scheme = ''http'' then Some 80
                 else if scheme = ''https'' then Some 443 else None))
        in case port of
             Some p \<Rightarrow> Some (host @ '':'' @ show_nat p)
           | None \<Rightarrow> Some host)))"

definition normalized_origin :: "url_parser \<Rightarrow> string \<Rightarrow> string option" where
  "normalized_origin parse_url origin =
     (if has_control origin then None
      else Option.bind (parse_url origin) (\<lambda>parsed.
        if url_scheme parsed \<notin> {''http'', ''https''} then None
        else if \<not> url_is_bare parsed then None
        else map_option (\<lambda>host. to_ascii_lowercase (url_scheme parsed) @ ''://'' @ host)
               (normalized_host_port parse_url origin (Some (url_scheme parsed)))))"

definition origin_matches_allowed_origin :: "url_parser \<Rightarrow> string \<Rightarrow> string \<Rightarrow> bool" where
  "origin_matches_allowed_origin parse_url origin allowed =
     (if trim allowed = ''*'' then False
      else case (normalized_origin parse_url origin, normalized_origin parse_url allowed) of
        (Some o1, Some o2) \<Rightarrow> o1 = o2
      | _ \<Rightarrow> False)"

definition origin_host_matches_request_host :: "url_parser \<Rightarrow> string \<Rightarrow> string \<Rightarrow> bool" where
  "origin_host_matches_request_host parse_url origin_text host_text =
     (case parse_origin_host parse_url origin_text of
        None \<Rightarrow> False
      | Some origin \<Rightarrow>
          (case parse_request_host parse_url host_text of
             None \<Rightarrow> False
           | Some request \<Rightarrow>
               eq_ignore_ascii_case (oh_host origin) (rh_host request) \<and>
               (case (oh_port origin, rh_port request) of
                  (Some origin_port, Some request_port) \<Rightarrow> origin_port = request_port
                | (Some origin_port, None) \<Rightarrow> origin_port = oh_default_port origin
                | (None, Some request_port) \<Rightarrow> request_port = oh_default_port origin
                | (None, None) \<Rightarrow> True)))"

text \<open>The text of a single bounded header value: decoded, trimmed, not empty, no controls.\<close>

definition header_text :: "header_decoder \<Rightarrow> string \<Rightarrow> string option" where
  "header_text to_str v =
     (if length v > HTTP_FORWARDED_HEADER_MAX_BYTES then None
      else case map_option trim (to_str v) of
        None \<Rightarrow> None
      | Some t \<Rightarrow> if t \<noteq> [] \<and> \<not> has_control t then Some t else None)"

definition validate_websocket_origin ::
  "url_parser \<Rightarrow> header_decoder \<Rightarrow> header_map \<Rightarrow> string list \<Rightarrow> unit + unit" where
  "validate_websocket_origin parse_url to_str headers allowed_origins =
     (case headers ''origin'' of
        [] \<Rightarrow> Inr ()
      | first_origin # others \<Rightarrow>
          if others \<noteq> [] then Inl ()
          else (case header_text to_str first_origin of
             None \<Rightarrow> Inl ()
           | Some origin \<Rightarrow>
               if eq_ignore_ascii_case origin ''null'' then Inl ()
               else if list_ex (origin_matches_allowed_origin parse_url origin) allowed_origins
               then Inr ()
               else (case headers ''host'' of
                  [] \<Rightarrow> Inl ()
                | first_host # more_hosts \<Rightarrow>
                    if more_hosts \<noteq> [] then Inl ()
                    else (case header_text to_str first_host of
                       None \<Rightarrow> Inl ()
                     | Some host \<Rightarrow>
                         if origin_host_matches_request_host parse_url origin host
                         then Inr () else Inl ()))))"

section \<open>Specification vocabulary\<close>

text \<open>The special-purpose networks an outbound request must not reach.\<close>

definition blocked_v4_blocks :: "(ipv4 \<times> nat) list" where
  "blocked_v4_blocks =
     [(Ipv4Addr 0 0 0 0, 8), (Ipv4Addr 10 0 0 0, 8), (Ipv4Addr 100 64 0 0, 10),
      (Ipv4Addr 127 0 0 0, 8), (Ipv4Addr 169 254 0 0, 16), (Ipv4Addr 172 16 0 0, 12),
      (Ipv4Addr 192 0 0 0, 24), (Ipv4Addr 192 0 2 0, 24), (Ipv4Addr 192 88 99 0, 24),
      (Ipv4Addr 192 168 0 0, 16), (Ipv4Addr 198 18 0 0, 15), (Ipv4Addr 198 51 100 0, 24),
      (Ipv4Addr 203 0 113 0, 24), (Ipv4Addr 224 0 0 0, 3)]"

text \<open>
  The IPv6 networks as the comments of \<open>is_blocked_ipv6\<close> name them. The test written for the
  documentation prefix \<open>3fff::/20\<close> masks only the first segment and so covers the wider
  \<open>documentation_test_block\<close>.
\<close>

definition blocked_v6_blocks :: "(ipv6 \<times> nat) list" where
  "blocked_v6_blocks =
     [(Ipv6Addr 0xff00 0 0 0 0 0 0 0, 8), (Ipv6Addr 0xfc00 0 0 0 0 0 0 0, 7),
      (Ipv6Addr 0xfe80 0 0 0 0 0 0 0, 10), (Ipv6Addr 0xfec0 0 0 0 0 0 0 0, 10),
      (Ipv6Addr 0x2001 0xdb8 0 0 0 0 0 0, 32), (Ipv6Addr 0x3fff 0 0 0 0 0 0 0, 20),
      (Ipv6Addr 0x2001 0 0 0 0 0 0 0, 23), (Ipv6Addr 0x0100 0 0 0 0 0 0 0, 64),
      (Ipv6Addr 0 0 0 0 0 0 0 0, 96), (Ipv6Addr 0 0 0 0 0xffff 0 0 0, 96),
      (Ipv6Addr 0x64 0xff9b 0 0 0 0 0 0, 96), (Ipv6Addr 0x64 0xff9b 1 0 0 0 0 0, 48)]"

definition documentation_test_block :: "ipv6 \<times> nat" where
  "documentation_test_block = (Ipv6Addr 0x3ff0 0 0 0 0 0 0 0, 12)"

definition in_v4_networks :: "ipv4 \<Rightarrow> (ipv4 \<times> nat) list \<Rightarrow> bool" where
  "in_v4_networks ip networks = list_ex (\<lambda>(network, prefix). ip_in_cidr (IpV4 ip) (IpV4 network) prefix) networks"

definition in_v6_networks :: "ipv6 \<Rightarrow> (ipv6 \<times> nat) list \<Rightarrow> bool" where
  "in_v6_networks ip networks = list_ex (\<lambda>(network, prefix). ip_in_cidr (IpV6 ip) (IpV6 network) prefix) networks"

text \<open>The IPv6 forms under which transition mechanisms carry an IPv4 address.\<close>

fun mapped_form :: "ipv4 \<Rightarrow> ipv6" where
  "mapped_form (Ipv4Addr a b c d) =
     Ipv6Addr 0 0 0 0 0 0xffff (u16_from_be_bytes a b) (u16_from_be_bytes c d)"

fun sixtofour_form :: "ipv4 \<Rightarrow> u16 list \<Rightarrow> ipv6 option" where
  "sixtofour_form (Ipv4Addr a b c d) tail =
     ipv6_of_segments ([0x2002, u16_from_be_bytes a b, u16_from_be_bytes c d] @ tail)"

text \<open>The name or address a host text stands for: trimmed, without the brackets of an IPv6 literal.\<close>

definition dial_name :: "string \<Rightarrow> string" where
  "dial_name host =
     (let h = trim host
      in if h \<noteq> [] \<and> hd h = CHR ''['' \<and> tl h \<noteq> [] \<and> last h = CHR '']'' then butlast (tl h) else h)"

definition ip_label :: "string \<Rightarrow> bool" where
  "ip_label l = (l = ''unknown'' \<or> (\<exists>ip. l = show_ip ip))"

section \<open>Lemmas\<close>

lemma cidr_v4_list:
  "ip_in_cidr (IpV4 (Ipv4Addr a b c d)) (IpV4 (Ipv4Addr x y z w)) 3 \<longleftrightarrow> unat a div 32 = unat x div 32"
  "ip_in_cidr (IpV4 (Ipv4Addr a b c d)) (IpV4 (Ipv4Addr x y z w)) 8 \<longleftrightarrow> a = x"
  "ip_in_cidr (IpV4 (Ipv4Addr a b c d)) (IpV4 (Ipv4Addr x y z w)) 10 \<longleftrightarrow>
     a = x \<and> unat b div 64 = unat y div 64"
  "ip_in_cidr (IpV4 (Ipv4Addr a b c d)) (IpV4 (Ipv4Addr x y z w)) 12 \<longleftrightarrow>
     a = x \<and> unat b div 16 = unat y div 16"
  "ip_in_cidr (IpV4 (Ipv4Addr a b c d)) (IpV4 (Ipv4Addr x y z w)) 15 \<longleftrightarrow>
     a = x \<and> unat b div 2 = unat y div 2"
  "ip_in_cidr (IpV4 (Ipv4Addr a b c d)) (IpV4 (Ipv4Addr x y z w)) 16 \<longleftrightarrow> a = x \<and> b = y"
  "ip_in_cidr (IpV4 (Ipv4Addr a b c d)) (IpV4 (Ipv4Addr x y z w)) 24 \<longleftrightarrow> a = x \<and> b = y \<and> c = z"
  using cidr_v4_octets [of 0 3] cidr_v4_octets [of 0 8] cidr_v4_octets [of 1 2]
    cidr_v4_octets [of 1 4] cidr_v4_octets [of 1 7] cidr_v4_octets [of 1 8]
    cidr_v4_octets [of 2 8]
  by (simp_all add: word_unat_eq_iff conj_assoc)

lemma cidr_v6_list:
  "ip_in_cidr (IpV6 ip) (IpV6 n) 7 \<longleftrightarrow> unat (segments ip ! 0) div 512 = unat (segments n ! 0) div 512"
  "ip_in_cidr (IpV6 ip) (IpV6 n) 8 \<longleftrightarrow> unat (segments ip ! 0) div 256 = unat (segments n ! 0) div 256"
  "ip_in_cidr (IpV6 ip) (IpV6 n) 10 \<longleftrightarrow> unat (segments ip ! 0) div 64 = unat (segments n ! 0) div 64"
  "ip_in_cidr (IpV6 ip) (IpV6 n) 12 \<longleftrightarrow> unat (segments ip ! 0) div 16 = unat (segments n ! 0) div 16"
  "ip_in_cidr (IpV6 ip) (IpV6 n) 20 \<longleftrightarrow> segments ip ! 0 = segments n ! 0 \<and>
     unat (segments ip ! 1) div 4096 = unat (segments n ! 1) div 4096"
  "ip_in_cidr (IpV6 ip) (IpV6 n) 23 \<longleftrightarrow> segments ip ! 0 = segments n ! 0 \<and>
     unat (segments ip ! 1) div 512 = unat (segments n ! 1) div 512"
  "ip_in_cidr (IpV6 ip) (IpV6 n) 32 \<longleftrightarrow> take 2 (segments ip) = take 2 (segments n)"
  "ip_in_cidr (IpV6 ip) (IpV6 n) 48 \<longleftrightarrow> take 3 (segments ip) = take 3 (segments n)"
  "ip_in_cidr (IpV6 ip) (IpV6 n) 64 \<longleftrightarrow> take 4 (segments ip) = take 4 (segments n)"
  "ip_in_cidr (IpV6 ip) (IpV6 n) 96 \<longleftrightarrow> take 6 (segments ip) = take 6 (segments n)"
  using cidr_v6_segments [of 0 7 ip n] cidr_v6_segments [of 0 8 ip n] cidr_v6_segments [of 0 10 ip n]
    cidr_v6_segments [of 0 12 ip n] cidr_v6_segments [of 1 4 ip n] cidr_v6_segments [of 1 7 ip n]
    cidr_v6_segments [of 1 16 ip n] cidr_v6_segments [of 2 16 ip n] cidr_v6_segments [of 3 16 ip n]
    cidr_v6_segments [of 5 16 ip n]
  by (cases ip; cases n; simp add: word_unat_eq_iff conj_assoc)+

lemma u16_masks:
  "(0xff00 :: u16) = push_bit 8 (- 1)"
  "(0xfe00 :: u16) = push_bit 9 (- 1)"
  "(0xffc0 :: u16) = push_bit 6 (- 1)"
  "(0xfff0 :: u16) = push_bit 4 (- 1)"
  by code_simp+

lemma u16_masked_eq:
  fixes x y :: u16
  assumes "k \<le> 16" and "(y AND push_bit k (- 1)) = y"
  shows "(x AND push_bit k (- 1)) = y \<longleftrightarrow> unat x div 2 ^ k = unat y div 2 ^ k"
  using mask_eq_drop [of k x y] assms by (simp add: drop_bit_eq_unat del: push_bit_minus_one_eq_not_mask)

lemma u16_mask:
  "(x AND 0xff00) = (0xff00 :: u16) \<longleftrightarrow> unat x div 256 = 255"
  "(x AND 0xfe00) = (0xfc00 :: u16) \<longleftrightarrow> unat x div 512 = 126"
  "(x AND 0xffc0) = (0xfe80 :: u16) \<longleftrightarrow> unat x div 64 = 1018"
  "(x AND 0xffc0) = (0xfec0 :: u16) \<longleftrightarrow> unat x div 64 = 1019"
  "(x AND 0xfff0) = (0x3ff0 :: u16) \<longleftrightarrow> unat x div 16 = 1023"
  using u16_masked_eq [of 8 "0xff00" x, folded u16_masks] u16_masked_eq [of 9 "0xfc00" x, folded u16_masks] u16_masked_eq [of 6 "0xfe80" x, folded u16_masks]
    u16_masked_eq [of 6 "0xfec0" x, folded u16_masks] u16_masked_eq [of 4 "0x3ff0" x, folded u16_masks]
  by simp_all

lemma u8_ranges:
  "unat (a :: u8) div 32 = 7 \<longleftrightarrow> 224 \<le> a"
  "unat (a :: u8) div 64 = Suc 0 \<longleftrightarrow> 64 \<le> a \<and> a \<le> 127"
  "unat (a :: u8) div 16 = Suc 0 \<longleftrightarrow> 16 \<le> a \<and> a \<le> 31"
  "unat (a :: u8) div 2 = 9 \<longleftrightarrow> 18 \<le> a \<and> a \<le> 19"
  using u8_lt [of a] by (auto simp: word_le_nat_alt div_eq_bounds)

lemma blocked_v4_words:
  "is_blocked_ipv4 (Ipv4Addr a b c d) \<longleftrightarrow>
     a = 0 \<or> a = 10 \<or> a = 100 \<and> 64 \<le> b \<and> b \<le> 127 \<or> a = 127 \<or> a = 169 \<and> b = 254
     \<or> a = 172 \<and> 16 \<le> b \<and> b \<le> 31 \<or> a = 192 \<and> b = 0 \<and> c = 0 \<or> a = 192 \<and> b = 0 \<and> c = 2
     \<or> a = 192 \<and> b = 88 \<and> c = 99 \<or> a = 192 \<and> b = 168 \<or> a = 198 \<and> 18 \<le> b \<and> b \<le> 19
     \<or> a = 198 \<and> b = 51 \<and> c = 100 \<or> a = 203 \<and> b = 0 \<and> c = 113 \<or> 224 \<le> a"
proof -
  have "a = 255 \<Longrightarrow> 224 \<le> a" by simp
  then show ?thesis
    unfolding is_blocked_ipv4.simps Let_def v4_is_private.simps v4_is_loopback.simps v4_is_link_local.simps v4_is_multicast.simps v4_is_unspecified_def v4_is_documentation.simps v4_is_broadcast_def
     ipv4.inject list.inject by argo
qed

lemma blocked_v4_iff: "is_blocked_ipv4 ip \<longleftrightarrow> in_v4_networks ip blocked_v4_blocks"
  by (cases ip) (simp add: in_v4_networks_def blocked_v4_blocks_def cidr_v4_list blocked_v4_words u8_ranges)

text \<open>
  (C19) The octet tests of \<open>is_blocked_ipv4\<close> block exactly the listed special-purpose
  networks: an IPv4 address is blocked if and only if it lies in one of the fourteen CIDR blocks.
\<close>

theorem is_blocked_ipv4_blocks:
  "is_blocked_ipv4 ip \<longleftrightarrow>
     list_ex (\<lambda>(network, prefix). ip_in_cidr (IpV4 ip) (IpV4 network) prefix) blocked_v4_blocks"
  by (simp add: blocked_v4_iff in_v4_networks_def)

lemma v6_block_conditions:
  "v6_is_multicast ip \<longleftrightarrow> unat (segments ip ! 0) div 256 = 255"
  by (cases ip) (simp add: u16_mask)

lemma u16_lt_512: "unat (x :: u16) div 512 = 0 \<longleftrightarrow> x < 0x200"
  by (auto simp: word_less_nat_alt div_eq_bounds)

lemma take_6_loopback:
  "v6_is_loopback ip \<Longrightarrow> take 6 (segments ip) = [0, 0, 0, 0, 0, 0]"
  "v6_is_unspecified ip \<Longrightarrow> take 6 (segments ip) = [0, 0, 0, 0, 0, 0]"
  by (simp_all add: v6_is_loopback_def v6_is_unspecified_def)

lemma in_v6_blocks:
  "in_v6_networks ip (documentation_test_block # blocked_v6_blocks) \<longleftrightarrow>
   (let s = segments ip in
      unat (s ! 0) div 256 = 255 \<or> unat (s ! 0) div 512 = 126 \<or> unat (s ! 0) div 64 = 1018
      \<or> unat (s ! 0) div 64 = 1019 \<or> take 2 s = [0x2001, 0xdb8] \<or> unat (s ! 0) div 16 = 1023
      \<or> s ! 0 = 0x2001 \<and> s ! 1 < 0x200 \<or> take 4 s = [0x100, 0, 0, 0]
      \<or> take 6 s = [0, 0, 0, 0, 0, 0] \<or> take 6 s = [0, 0, 0, 0, 0xffff, 0]
      \<or> take 6 s = [0x64, 0xff9b, 0, 0, 0, 0] \<or> take 3 s = [0x64, 0xff9b, 1])"
proof -
  have doc: "segments ip ! 0 = 0x3fff \<Longrightarrow> unat (segments ip ! 0) div 16 = 1023" by simp
  show ?thesis
    unfolding in_v6_networks_def blocked_v6_blocks_def documentation_test_block_def
    by (simp add: cidr_v6_list u16_lt_512 Let_def) (use doc in auto)
qed

lemma blocked_v6_iff:
  "is_blocked_ipv6 ip \<longleftrightarrow>
     in_v6_networks ip (documentation_test_block # blocked_v6_blocks)
     \<or> (\<exists>v4. embedded_ipv4 ip = Some v4 \<and> is_blocked_ipv4 v4)"
proof -
  have heads: "take 2 (segments ip) = [x, y] \<longleftrightarrow> segments ip ! 0 = x \<and> segments ip ! 1 = y"
    "take 3 (segments ip) = [x, y, z] \<longleftrightarrow> segments ip ! 0 = x \<and> segments ip ! 1 = y \<and> segments ip ! 2 = z"
    "take 4 (segments ip) = [x, 0, 0, 0] \<longleftrightarrow> segments ip ! 0 = x \<and> take 3 (drop 1 (segments ip)) = [0, 0, 0]"
    for x y z by (cases ip; simp)+
  have embedded: "(case embedded_ipv4 ip of Some v4 \<Rightarrow> is_blocked_ipv4 v4 | None \<Rightarrow> False) \<longleftrightarrow>
     (\<exists>v4. embedded_ipv4 ip = Some v4 \<and> is_blocked_ipv4 v4)" by (cases "embedded_ipv4 ip") auto
  show ?thesis
    unfolding is_blocked_ipv6_def in_v6_blocks Let_def embedded u16_mask v6_block_conditions heads
    using take_6_loopback [of ip] by argo
qed

lemma ipv4_from_segments_eq: "ipv4_from_segments = ipv4_of_u16s"
  by (intro ext) (simp add: ipv4_from_segments_def ipv4_of_u16s_def)

lemma embedded_mapped: "embedded_ipv4 (mapped_form v4) = Some v4"
  by (cases v4) (simp add: embedded_ipv4_def ipv4_of_u16s_bytes)

lemma ipv6_of_segments_Some:
  "ipv6_of_segments ss = Some ip \<longleftrightarrow> ss = segments ip"
  by (cases ip; cases ss rule: ipv6_of_segments.cases) auto

lemma embedded_6to4: "sixtofour_form v4 tail = Some ip \<Longrightarrow> embedded_ipv4 ip = Some v4"
  by (cases v4; cases ip)
     (auto simp: ipv6_of_segments_Some embedded_ipv4_def ipv4_from_segments_eq ipv4_of_u16s_bytes)

lemma mapped_form_blocked: "is_blocked_ipv6 (mapped_form v4) = is_blocked_ipv4 v4"
proof (cases v4)
  case (Ipv4Addr a b c d)
  then show ?thesis
    using embedded_mapped [of v4] by (simp add: blocked_v6_iff in_v6_blocks Let_def)
qed

lemma sixtofour_form_blocked:
  assumes "sixtofour_form v4 tail = Some ip"
  shows "is_blocked_ipv6 ip = is_blocked_ipv4 v4"
proof (cases v4; cases ip)
  fix a b c d s0 s1 s2 s3 s4 s5 s6 s7
  assume v4: "v4 = Ipv4Addr a b c d" and ip: "ip = Ipv6Addr s0 s1 s2 s3 s4 s5 s6 s7"
  then have "s0 = 0x2002" using assms by (simp add: ipv6_of_segments_Some)
  with ip show ?thesis
    using embedded_6to4 [OF assms] by (simp add: blocked_v6_iff in_v6_blocks Let_def)
qed

lemma u16_from_own_bytes: "u16_from_be_bytes (ucast (drop_bit 8 x)) (ucast (x :: u16)) = x"
proof -
  have "unat (ucast (drop_bit 8 x) :: u8) = unat x div 256" "unat (ucast x :: u8) = unat x mod 256"
    using u16_lt [of x] by (simp_all add: unsigned_ucast_eq unat_div take_bit_eq_mod drop_bit_eq_div less_mult_imp_div_less)
  then have "unat (u16_from_be_bytes (ucast (drop_bit 8 x)) (ucast x)) = unat x"
    by (simp add: unat_u16_from_be_bytes)
  then show ?thesis by (simp add: word_unat_eq_iff)
qed

lemma to_ipv4_mapped_form: "to_ipv4_mapped ip = Some v4 \<Longrightarrow> ip = mapped_form v4"
  by (cases ip) (auto simp: ipv4_of_u16s_def u16_from_own_bytes split: if_splits)

lemma embedded_ipv4_forms:
  assumes "embedded_ipv4 ip = Some v4"
  shows "in_v6_networks ip (documentation_test_block # blocked_v6_blocks) \<or> ip = mapped_form v4
    \<or> (\<exists>tail. sixtofour_form v4 tail = Some ip)"
proof (cases "to_ipv4_mapped ip")
  case (Some mapped)
  with assms to_ipv4_mapped_form show ?thesis by (auto simp: embedded_ipv4_def)
next
  case None
  obtain s0 s1 s2 s3 s4 s5 s6 s7 where ip: "ip = Ipv6Addr s0 s1 s2 s3 s4 s5 s6 s7" by (cases ip)
  show ?thesis
  proof (cases "in_v6_networks ip (documentation_test_block # blocked_v6_blocks)")
    case False
    with assms None have "s0 = 0x2002" "v4 = ipv4_from_segments s1 s2"
      unfolding ip by (auto simp: embedded_ipv4_def in_v6_blocks Let_def split: if_splits)
    then have "sixtofour_form v4 [s3, s4, s5, s6, s7] = Some ip"
      by (simp add: ip ipv4_from_segments_def u16_from_own_bytes)
    then show ?thesis by blast
  qed simp
qed

text \<open>
  (C20) The segment and mask tests of \<open>is_blocked_ipv6\<close> block exactly the networks its comments
  name, the rest of the block \<open>3ff0::/12\<close> around the documentation prefix \<open>3fff::/20\<close>, and the
  IPv4-mapped and 6to4 forms of the special-purpose IPv4 networks. The other transition prefixes
  (IPv4-compatible, IPv4-translated and both NAT64 prefixes) are blocked as a whole.
\<close>

theorem is_blocked_ipv6_blocks:
  "is_blocked_ipv6 ip \<longleftrightarrow>
     in_v6_networks ip blocked_v6_blocks \<or> in_v6_networks ip [documentation_test_block]
     \<or> (\<exists>v4. in_v4_networks v4 blocked_v4_blocks \<and>
          (ip = mapped_form v4 \<or> (\<exists>tail. sixtofour_form v4 tail = Some ip)))"
proof -
  have split: "in_v6_networks ip (documentation_test_block # blocked_v6_blocks) \<longleftrightarrow>
      in_v6_networks ip blocked_v6_blocks \<or> in_v6_networks ip [documentation_test_block]"
    by (simp add: in_v6_networks_def disj_commute)
  have forms: "\<exists>v4. is_blocked_ipv4 v4 \<and> (ip = mapped_form v4 \<or> (\<exists>tail. sixtofour_form v4 tail = Some ip))"
    if "is_blocked_ipv6 ip" "\<not> in_v6_networks ip (documentation_test_block # blocked_v6_blocks)"
    using that blocked_v6_iff [of ip] embedded_ipv4_forms [of ip] by metis
  have "is_blocked_ipv6 ip"
    if "is_blocked_ipv4 v4" "ip = mapped_form v4 \<or> (\<exists>tail. sixtofour_form v4 tail = Some ip)" for v4
    using that mapped_form_blocked [of v4] sixtofour_form_blocked [of v4 _ ip] by metis
  with forms blocked_v6_iff [of ip] split show ?thesis
    unfolding blocked_v4_iff [symmetric] by metis
qed

text \<open>
  The test for the documentation prefix reaches further than its comment: \<open>3ff1::1\<close> is blocked,
  but lies in none of the networks the comments name.
\<close>

theorem documentation_test_too_wide:
  "is_blocked_ipv6 (Ipv6Addr 0x3ff1 0 0 0 0 0 0 1) \<and>
   \<not> in_v6_networks (Ipv6Addr 0x3ff1 0 0 0 0 0 0 1) blocked_v6_blocks"
  unfolding blocked_v6_iff in_v6_blocks by (simp add: in_v6_networks_def blocked_v6_blocks_def cidr_v6_list)

text \<open>
  No detour through IPv6: the IPv4-mapped form of an address and each of its 6to4 forms
  are blocked if and only if the IPv4 address is.
\<close>

theorem transition_forms_not_a_bypass:
  "is_blocked_ip (IpV6 (mapped_form v4)) = is_blocked_ip (IpV4 v4) \<and>
   (\<forall>tail ip. sixtofour_form v4 tail = Some ip \<longrightarrow>
      is_blocked_ip (IpV6 ip) = is_blocked_ip (IpV4 v4))"
  by (simp add: mapped_form_blocked sixtofour_form_blocked)

lemma collect_public_ok:
  "collect_public addrs = Inr out \<Longrightarrow> out = addrs \<and> (\<forall>a \<in> set addrs. \<not> is_blocked_ip (sa_ip a))"
  by (induction addrs arbitrary: out)
     (auto simp: result_simps ensure_public_ip_def split: if_splits)

lemma collect_public_blocked:
  "a \<in> set addrs \<Longrightarrow> is_blocked_ip (sa_ip a) \<Longrightarrow> \<exists>ip. collect_public addrs = Inl (PrivateAddress ip) \<and> is_blocked_ip ip"
  by (induction addrs)
     (auto simp: result_simps ensure_public_ip_def split: if_splits)

lemma outbound_addresses_public:
  "resolve_outbound_host_with_policy lookup_host host port False = Inr addrs \<Longrightarrow>
     addrs \<noteq> [] \<and> (\<forall>a \<in> set addrs. \<not> is_blocked_ip (sa_ip a))"
  by (auto simp: resolve_outbound_host_with_policy_def Let_def result_simps ensure_public_ip_def
      split: if_splits option.splits dest: collect_public_ok)


lemma unbracketed_dial_name:
  "(case Option.bind (strip_prefix ''['' (trim host)) (strip_suffix '']'') of
      Some v \<Rightarrow> v | None \<Rightarrow> trim host) = dial_name host"
proof (cases "trim host")
  case (Cons c rest)
  then show ?thesis
    by (cases rest rule: rev_cases)
       (auto simp: dial_name_def strip_prefix_def strip_suffix_def starts_with_def ends_with_def Let_def)
qed (simp add: dial_name_def strip_prefix_def starts_with_def)

lemma outbound_addresses_of_host:
  assumes "resolve_outbound_host_with_policy lookup_host host port False = Inr addrs"
  shows "case parse_ip (dial_name host) of
           Some ip \<Rightarrow> addrs = [\<lparr>sa_ip = ip, sa_port = port\<rparr>]
         | None \<Rightarrow> lookup_host (dial_name host) port = Some addrs"
  using assms unfolding resolve_outbound_host_with_policy_def Let_def unbracketed_dial_name
  by (auto simp: result_simps split: if_splits option.splits dest: collect_public_ok)

text \<open>
  (C1) Without the private-outbound switch, a URL that passes validation has an HTTP scheme and
  no credentials, and the client built from it uses no proxy, follows no redirect and has the
  addresses of the URL's own host pinned: at least one, none of them blocked. They are the
  address and port the URL spells out when its host is an IP address, and otherwise what the
  resolver answered for this host and port, whatever that was.
\<close>

theorem outbound_request_pinned:
  assumes "\<not> allow_private_outbound env"
    and "validate_outbound_url_resolved env parse_url lookup_host u = Inr v"
  shows "\<exists>host port addrs.
         parse_url u = Some (vo_url v) \<and> url_scheme (vo_url v) \<in> {''http'', ''https''} \<and>
         url_username (vo_url v) = [] \<and> url_password (vo_url v) = None \<and>
         url_host_str (vo_url v) = Some host \<and> url_port_or_known_default (vo_url v) = Some port \<and>
         (let cb = secure_reqwest_client_builder v in
            \<not> cb_use_proxy cb \<and> cb_redirect cb = RedirectNone \<and> cb_resolve cb host = Some addrs) \<and>
         addrs \<noteq> [] \<and> (\<forall>a \<in> set addrs. \<not> is_blocked_ip (sa_ip a)) \<and>
         (case parse_ip (dial_name host) of
            Some ip \<Rightarrow> addrs = [\<lparr>sa_ip = ip, sa_port = port\<rparr>]
          | None \<Rightarrow> lookup_host (dial_name host) port = Some addrs)"
proof -
  from assms obtain host port addrs where v: "v = \<lparr>vo_url = vo_url v, vo_host = host, vo_addrs = addrs\<rparr>"
      "parse_url u = Some (vo_url v)" "url_scheme (vo_url v) \<in> {''http'', ''https''}"
      "url_username (vo_url v) = []" "url_password (vo_url v) = None"
      "url_host_str (vo_url v) = Some host" "url_port_or_known_default (vo_url v) = Some port"
      and resolved: "resolve_outbound_host_with_policy lookup_host host port False = Inr addrs"
    by (auto simp: validate_outbound_url_resolved_def validate_outbound_url_resolved_with_policy_def result_simps)
  have "vo_host v = host" "vo_addrs v = addrs" by (subst v(1), simp)+
  with v(2-) outbound_addresses_public [OF resolved] outbound_addresses_of_host [OF resolved] show ?thesis
    by (auto simp: secure_reqwest_client_builder_def Let_def)
qed

lemma sanitize_ip_label_shape: "sanitize_ip_label x = Some l \<Longrightarrow> \<exists>ip. l = show_ip ip"
  by (auto simp: sanitize_ip_label_def Let_def split: option.splits if_splits)

lemma ip_label_sanitized: "sanitize_ip_label x = Some l \<Longrightarrow> ip_label l"
  using sanitize_ip_label_shape by (auto simp: ip_label_def)

lemma ip_label_unknown_if_none: "ip_label (unknown_if_none (sanitize_ip_label x))"
  by (cases "sanitize_ip_label x") (auto simp: unknown_if_none_def ip_label_sanitized ip_label_def [of "''unknown''"])

lemma ip_label_case:
  "(\<And>l. x = Some l \<Longrightarrow> ip_label l) \<Longrightarrow> ip_label d \<Longrightarrow> ip_label (case x of Some l \<Rightarrow> l | None \<Rightarrow> d)"
  by (cases x) auto

lemma ip_label_forwarded: "ip_label (forwarded_client_ip_with_peer env get_header fallback peer_ip)"
  unfolding forwarded_client_ip_with_peer_def Let_def
  by (auto intro!: ip_label_case ip_label_unknown_if_none
      simp: result_simps bind_eq_Some_conv split: if_splits dest: ip_label_sanitized)

text \<open>
  The client address a request is attributed to is the word \<open>unknown\<close> or the
  canonical text of an IP address, never raw header text.
\<close>

theorem client_ip_canonical:
  "client_ip_from_headers_and_peer env to_str headers peer = ''unknown'' \<or>
   (\<exists>ip. client_ip_from_headers_and_peer env to_str headers peer = show_ip ip)"
  unfolding ip_label_def [symmetric] client_ip_from_headers_and_peer_def Let_def
  by (simp add: ip_label_unknown_if_none ip_label_forwarded)

text \<open>
  (C34) Forwarding headers count only behind a trusted proxy: with the trust switch off, without
  a peer address, or with a peer outside the trusted list, the client address is the peer's own
  label and no forwarded protocol is reported, whatever the headers say.
\<close>

theorem untrusted_forwarding_ignored:
  assumes "\<not> trust_proxy_headers env \<or> peer = None \<or>
           (\<exists>a. peer = Some a \<and> \<not> trusted_proxy_ip env (sa_ip a))"
  shows "client_ip_from_headers_and_peer env to_str headers peer =
           (case sanitize_ip_label (map_option (\<lambda>a. show_ip (sa_ip a)) peer) of
              Some label \<Rightarrow> label | None \<Rightarrow> ''unknown'') \<and>
         forwarded_proto_from_headers_and_peer env to_str headers peer = None"
  using assms
  by (auto simp: client_ip_from_headers_and_peer_def forwarded_client_ip_with_peer_def
      forwarded_proto_from_headers_and_peer_def unknown_if_none_def Let_def option.map_comp comp_def
      split: option.splits)

lemma origin_match:
  "origin_matches_allowed_origin parse_url x a \<longleftrightarrow>
     trim a \<noteq> ''*'' \<and> (\<exists>n. normalized_origin parse_url x = Some n \<and> normalized_origin parse_url a = Some n)"
  by (auto simp: origin_matches_allowed_origin_def split: option.splits)

text \<open>
  A WebSocket upgrade is accepted exactly when it carries no Origin, or a single well-formed
  one other than \<open>null\<close> that equals an allowed origin (never the wildcard) after normalisation
  or names the host of the single Host header.
\<close>

theorem websocket_origin_accepted_iff:
  "validate_websocket_origin parse_url to_str headers allowed = Inr () \<longleftrightarrow>
     headers ''origin'' = [] \<or>
     (\<exists>v origin. headers ''origin'' = [v] \<and> header_text to_str v = Some origin \<and>
        to_ascii_lowercase origin \<noteq> ''null'' \<and>
        ((\<exists>a n. a \<in> set allowed \<and> trim a \<noteq> ''*'' \<and> normalized_origin parse_url origin = Some n
                \<and> normalized_origin parse_url a = Some n)
         \<or> (\<exists>w host. headers ''host'' = [w] \<and> header_text to_str w = Some host
                \<and> origin_host_matches_request_host parse_url origin host)))"
proof -
  have null: "eq_ignore_ascii_case x ''null'' \<longleftrightarrow> to_ascii_lowercase x = ''null''" for x
    by (simp add: eq_ignore_ascii_case_def) (simp add: to_ascii_lowercase_def lower_byte_def)
  have allowed: "list_ex (origin_matches_allowed_origin parse_url x) allowed \<longleftrightarrow>
    (\<exists>a n. a \<in> set allowed \<and> trim a \<noteq> ''*'' \<and> normalized_origin parse_url x = Some n
                \<and> normalized_origin parse_url a = Some n)" for x
    by (auto simp: list_ex_iff origin_match)
  show ?thesis
    unfolding validate_websocket_origin_def null allowed
    by (cases "headers ''origin''"; cases "headers ''host''") (auto split: option.splits if_splits)
qed

lemma origin_port_match:
  "(case (p, q) of
      (Some origin_port, Some request_port) \<Rightarrow> origin_port = request_port
    | (Some origin_port, None) \<Rightarrow> origin_port = d
    | (None, Some request_port) \<Rightarrow> request_port = d
    | (None, None) \<Rightarrow> True) \<longleftrightarrow>
   (case p of Some x \<Rightarrow> x | None \<Rightarrow> d) = (case q of Some x \<Rightarrow> x | None \<Rightarrow> (d::nat))"
  by (auto split: option.splits)

section \<open>Properties at concrete inputs\<close>

theorem transition_forms_witness:
  "sixtofour_form (Ipv4Addr 127 0 0 1) [0, 0, 0, 0, 1] = Some (Ipv6Addr 0x2002 0x7f00 1 0 0 0 0 1)
   \<and> is_blocked_ip (IpV6 (Ipv6Addr 0x2002 0x7f00 1 0 0 0 0 1)) = is_blocked_ip (IpV4 (Ipv4Addr 127 0 0 1))"
proof -
  have h: "sixtofour_form (Ipv4Addr 127 0 0 1) [0, 0, 0, 0, 1] = Some (Ipv6Addr 0x2002 0x7f00 1 0 0 0 0 1)"
    by (simp add: u16_from_be_bytes_def)
  show ?thesis using h transition_forms_not_a_bypass [of "Ipv4Addr 127 0 0 1"] by blast
qed

definition example_url :: url where
  "example_url =
     \<lparr>url_scheme = ''https'', url_username = [], url_password = None,
      url_host_str = Some ''example.com'', url_port = None,
      url_port_or_known_default = Some 443, url_path = ''/'', url_query = None,
      url_fragment = None\<rparr>"

definition example_addr :: socket_addr where
  "example_addr = \<lparr>sa_ip = IpV4 (Ipv4Addr 93 184 216 34), sa_port = 443\<rparr>"

lemma example_resolves:
  "validate_outbound_url_resolved (\<lambda>_. None) (\<lambda>_. Some example_url)
     (\<lambda>_ _. Some [example_addr]) ''https://example.com/'' =
   Inr \<lparr>vo_url = example_url, vo_host = ''example.com'', vo_addrs = [example_addr]\<rparr>"
proof -
  have "trim ''example.com'' = ''example.com''" by (simp add: text_eval)
  moreover have "parse_ip ''example.com'' = None" by (simp add: ip_eval)
  moreover have "\<not> is_blocked_ip (sa_ip example_addr)"
    by (simp add: example_addr_def blocked_v4_words)
  ultimately show ?thesis
    by (simp add: validate_outbound_url_resolved_def validate_outbound_url_resolved_with_policy_def
        resolve_outbound_host_with_policy_def example_url_def ok_or_def ensure_public_ip_def
        strip_prefix_def starts_with_def ends_with_def trim_end_matches_def
        to_ascii_lowercase_def lower_byte_def allow_private_outbound_def env_flag_def)
qed

theorem outbound_request_pinned_witness:
  "\<not> allow_private_outbound (\<lambda>_. None) \<and>
   (let cb = secure_reqwest_client_builder
       \<lparr>vo_url = example_url, vo_host = ''example.com'', vo_addrs = [example_addr]\<rparr> in
      \<not> cb_use_proxy cb \<and> cb_redirect cb = RedirectNone \<and>
      cb_resolve cb ''example.com'' = Some [example_addr] \<and> \<not> is_blocked_ip (sa_ip example_addr))"
proof -
  have h: "\<not> allow_private_outbound (\<lambda>_. None)"
    by (simp add: allow_private_outbound_def env_flag_def)
  show ?thesis
    using h outbound_request_pinned [OF h example_resolves]
    by (auto simp: Let_def example_url_def secure_reqwest_client_builder_def)
qed

theorem untrusted_forwarding_ignored_witness:
  "client_ip_from_headers_and_peer (\<lambda>_. None) Some (\<lambda>_. [''203.0.113.9'']) None = ''unknown'' \<and>
   forwarded_proto_from_headers_and_peer (\<lambda>_. None) Some (\<lambda>_. [''https'']) None = None"
  using untrusted_forwarding_ignored [of "\<lambda>_. None" None Some "\<lambda>_. [''203.0.113.9'']"]
    untrusted_forwarding_ignored [of "\<lambda>_. None" None Some "\<lambda>_. [''https'']"]
  by (simp add: sanitize_ip_label_def)

end
