(* ===== verification/Nat_Policy.thy ===== *)
theory Nat_Policy
  imports Security
begin

text \<open>
  The runtime policy of NAT mappings (\<open>server/src/nat/policy.rs\<close> over the data of
  \<open>shared/src/nat.rs\<close>): text and number limits, canonical identifiers, loopback-only
  targets, and the source access list with its normal form. The UUID library is the pair of
  parameters \<open>uuid_parse\<close> and \<open>uuid_show\<close>.
\<close>

section \<open>Data\<close>

datatype protocol = Tcp | Udp

record nat_mapping =
  nm_id :: string
  nm_agent_id :: string
  nm_local_host :: string
  nm_local_port :: nat
  nm_public_port :: nat
  nm_protocol :: protocol
  nm_enabled :: bool
  nm_description :: "string option"
  nm_allowed_sources :: "string option"
  nm_max_active_tunnels :: "nat option"
  nm_idle_timeout_seconds :: "nat option"
  nm_max_bytes_per_tunnel :: "nat option"
  nm_max_bandwidth_bytes_per_second :: "nat option"
  nm_rate_limit_window_seconds :: "nat option"
  nm_max_connections_per_window :: "nat option"
  nm_max_bytes_per_window :: "nat option"
  nm_created_at :: string
  nm_updated_at :: string

datatype policy_error =
    NotCanonicalUuid string
  | FieldRequired string
  | FieldTooLong string nat
  | FieldZero string
  | FieldTooLarge string nat
  | LocalHostNotLoopback
  | LocalPortZero
  | PublicPortBelowMinimum nat
  | SourcesTooLong
  | TooManySources
  | SourceEntryTooLong
  | SourceEntryInvalid string

fun protocol_as_str :: "protocol \<Rightarrow> string" where
  "protocol_as_str Tcp = ''tcp''"
| "protocol_as_str Udp = ''udp''"

text \<open>\<open>to_lowercase\<close> is the Unicode mapping; no character outside ASCII has a letter of
  \<open>tcp\<close> or \<open>udp\<close> as its lower case, so comparing ASCII lower cases decides the same.\<close>

definition protocol_parse :: "string \<Rightarrow> protocol option" where
  "protocol_parse s =
     (let l = to_ascii_lowercase s in
      if l = ''tcp'' then Some Tcp else if l = ''udp'' then Some Udp else None)"

definition NAT_UUID_TEXT_LEN :: nat where
  "NAT_UUID_TEXT_LEN = 36"
definition NAT_MAX_LOCAL_HOST_BYTES :: nat where
  "NAT_MAX_LOCAL_HOST_BYTES = 253"
definition NAT_MAX_DESCRIPTION_BYTES :: nat where
  "NAT_MAX_DESCRIPTION_BYTES = 1024"
definition NAT_MAX_ALLOWED_SOURCES_BYTES :: nat where
  "NAT_MAX_ALLOWED_SOURCES_BYTES = 4096"
definition NAT_MAX_ALLOWED_SOURCE_ENTRIES :: nat where
  "NAT_MAX_ALLOWED_SOURCE_ENTRIES = 64"
definition NAT_MAX_ALLOWED_SOURCE_ENTRY_BYTES :: nat where
  "NAT_MAX_ALLOWED_SOURCE_ENTRY_BYTES = 128"
definition NAT_MAX_ACTIVE_TUNNELS_PER_MAPPING :: nat where
  "NAT_MAX_ACTIVE_TUNNELS_PER_MAPPING = 1024"
definition NAT_MAX_IDLE_TIMEOUT_SECONDS :: nat where
  "NAT_MAX_IDLE_TIMEOUT_SECONDS = 24 * 60 * 60"
definition NAT_MAX_BYTES_PER_TUNNEL :: nat where
  "NAT_MAX_BYTES_PER_TUNNEL = 1024 * 1024 * 1024 * 1024"
definition NAT_MAX_BANDWIDTH_BYTES_PER_SECOND :: nat where
  "NAT_MAX_BANDWIDTH_BYTES_PER_SECOND = 1024 * 1024 * 1024"
definition NAT_MAX_RATE_LIMIT_WINDOW_SECONDS :: nat where
  "NAT_MAX_RATE_LIMIT_WINDOW_SECONDS = 24 * 60 * 60"
definition NAT_MAX_CONNECTIONS_PER_WINDOW :: nat where
  "NAT_MAX_CONNECTIONS_PER_WINDOW = 100000"
definition NAT_MAX_BYTES_PER_WINDOW :: nat where
  "NAT_MAX_BYTES_PER_WINDOW = 1024 * 1024 * 1024 * 1024"
definition DEFAULT_NAT_MIN_PUBLIC_PORT :: nat where
  "DEFAULT_NAT_MIN_PUBLIC_PORT = 1024"

section \<open>Ports and targets\<close>

definition nat_public_port_min :: "env \<Rightarrow> nat" where
  "nat_public_port_min env =
     (case Option.bind (env ''XLSTATUS_NAT_PUBLIC_PORT_MIN'') (\<lambda>value. parse_u16 (trim value)) of
        Some p \<Rightarrow> p | None \<Rightarrow> DEFAULT_NAT_MIN_PUBLIC_PORT)"

definition nat_public_port_allowed :: "env \<Rightarrow> nat \<Rightarrow> bool" where
  "nat_public_port_allowed env port = (nat_public_port_min env \<le> port)"

definition nat_private_targets_allowed :: "env \<Rightarrow> bool" where
  "nat_private_targets_allowed env =
     list_ex (env_flag env)
       [''XLSTATUS_ALLOW_PRIVATE_NAT_TARGETS'', ''XLSTATUS_ALLOW_PRIVATE_OUTBOUND'']"

definition nat_local_target_is_loopback :: "string \<Rightarrow> bool" where
  "nat_local_target_is_loopback h =
     (let host = trim h in
      if host = [] then False
      else if eq_ignore_ascii_case host ''localhost'' then True
      else (case parse_ip host of Some ip \<Rightarrow> is_loopback ip | None \<Rightarrow> False))"

definition nat_local_target_allowed :: "env \<Rightarrow> string \<Rightarrow> bool" where
  "nat_local_target_allowed env host =
     (nat_private_targets_allowed env \<or> nat_local_target_is_loopback host)"

section \<open>Source access lists\<close>

definition nat_ip_in_cidr :: "ipaddr \<Rightarrow> ipaddr \<Rightarrow> nat \<Rightarrow> bool" where
  "nat_ip_in_cidr ip network prefix =
     (case (ip, network) of
        (IpV4 a, IpV4 n) \<Rightarrow>
          prefix \<le> 32 \<and>
          (let mask = (if prefix = 0 then 0 else push_bit (32 - prefix) (- 1 :: u32))
           in (u32_from a AND mask) = (u32_from n AND mask))
      | (IpV6 a, IpV6 n) \<Rightarrow>
          prefix \<le> 128 \<and>
          (let mask = (if prefix = 0 then 0 else push_bit (128 - prefix) (- 1 :: u128))
           in (u128_from a AND mask) = (u128_from n AND mask))
      | _ \<Rightarrow> False)"

definition nat_source_entry_matches :: "string \<Rightarrow> ipaddr \<Rightarrow> bool" where
  "nat_source_entry_matches entry ip =
     (case parse_ip entry of
        Some exact \<Rightarrow> exact = ip
      | None \<Rightarrow>
          (case split_once (CHR ''/'') entry of
             None \<Rightarrow> False
           | Some (network, prefix) \<Rightarrow>
               (case parse_ip network of
                  None \<Rightarrow> False
                | Some network_ip \<Rightarrow>
                    (case parse_u8 prefix of
                       None \<Rightarrow> False
                     | Some p \<Rightarrow> nat_ip_in_cidr ip network_ip p))))"

definition nat_source_entry_valid :: "string \<Rightarrow> bool" where
  "nat_source_entry_valid entry =
     (if parse_ip entry \<noteq> None then True
      else
        (case split_once (CHR ''/'') entry of
           None \<Rightarrow> False
         | Some (network, prefix) \<Rightarrow>
             (case parse_ip network of
                None \<Rightarrow> False
              | Some network_ip \<Rightarrow>
                  (case parse_u8 prefix of
                     None \<Rightarrow> False
                   | Some p \<Rightarrow>
                       (case network_ip of IpV4 _ \<Rightarrow> p \<le> 32 | IpV6 _ \<Rightarrow> p \<le> 128)))))"

definition source_entries :: "string \<Rightarrow> string list" where
  "source_entries value =
     filter (\<lambda>item. item \<noteq> []) (map trim (split_on list_separator value))"

fun check_source_entries :: "string list \<Rightarrow> policy_error + unit" where
  "check_source_entries [] = Inr ()"
| "check_source_entries (entry # entries) =
     (if length entry > NAT_MAX_ALLOWED_SOURCE_ENTRY_BYTES then Inl SourceEntryTooLong
      else if \<not> nat_source_entry_valid entry then Inl (SourceEntryInvalid entry)
      else check_source_entries entries)"

definition normalize_nat_allowed_sources :: "string option \<Rightarrow> policy_error + string option" where
  "normalize_nat_allowed_sources v =
     (case map_option trim v of
        None \<Rightarrow> Inr None
      | Some value \<Rightarrow>
          if value = [] then Inr None
          else if length value > NAT_MAX_ALLOWED_SOURCES_BYTES then Inl SourcesTooLong
          else
            (let entries = source_entries value in
             if entries = [] then Inr None
             else if length entries > NAT_MAX_ALLOWED_SOURCE_ENTRIES then Inl TooManySources
             else and_then (check_source_entries entries) (\<lambda>_. Inr (Some (join '','' entries)))))"

definition nat_source_list_allows :: "string \<Rightarrow> ipaddr \<Rightarrow> bool" where
  "nat_source_list_allows raw peer_ip =
     (case normalize_nat_allowed_sources (Some raw) of
        Inr (Some normalized) \<Rightarrow>
          list_ex (\<lambda>item. nat_source_entry_matches item peer_ip)
            (split_on (\<lambda>c. c = CHR '','') normalized)
      | _ \<Rightarrow> False)"

section \<open>Mappings\<close>

definition validate_canonical_uuid ::
  "(string \<Rightarrow> 'u option) \<Rightarrow> ('u \<Rightarrow> string) \<Rightarrow> string \<Rightarrow> string \<Rightarrow> policy_error + string" where
  "validate_canonical_uuid uuid_parse uuid_show value field =
     (if length value \<noteq> NAT_UUID_TEXT_LEN then Inl (NotCanonicalUuid field)
      else and_then (ok_or (uuid_parse value) (NotCanonicalUuid field)) (\<lambda>parsed.
        (let canonical = uuid_show parsed in
         if canonical \<noteq> value then Inl (NotCanonicalUuid field) else Inr canonical)))"

definition validate_required_text :: "string \<Rightarrow> nat \<Rightarrow> string \<Rightarrow> policy_error + string" where
  "validate_required_text v max_bytes field =
     (let value = trim v in
      if value = [] then Inl (FieldRequired field)
      else if length value > max_bytes then Inl (FieldTooLong field max_bytes)
      else Inr value)"

definition validate_optional_text ::
  "string option \<Rightarrow> nat \<Rightarrow> string \<Rightarrow> policy_error + string option" where
  "validate_optional_text v max_bytes field =
     (case map_option trim v of
        None \<Rightarrow> Inr None
      | Some value \<Rightarrow>
          if value = [] then Inr None
          else if length value > max_bytes then Inl (FieldTooLong field max_bytes)
          else Inr (Some value))"

text \<open>\<open>validate_optional_u32\<close> and \<open>validate_optional_u64\<close> differ only in the integer width.\<close>

definition validate_optional_uint :: "nat option \<Rightarrow> nat \<Rightarrow> string \<Rightarrow> policy_error + unit" where
  "validate_optional_uint v max_value field =
     (case v of
        None \<Rightarrow> Inr ()
      | Some value \<Rightarrow>
          if value = 0 then Inl (FieldZero field)
          else if value > max_value then Inl (FieldTooLarge field max_value)
          else Inr ())"

definition validate_nat_mapping_runtime_policy ::
  "env \<Rightarrow> (string \<Rightarrow> 'u option) \<Rightarrow> ('u \<Rightarrow> string) \<Rightarrow> nat_mapping \<Rightarrow> policy_error + nat_mapping" where
  "validate_nat_mapping_runtime_policy env uuid_parse uuid_show m =
     and_then (validate_canonical_uuid uuid_parse uuid_show (nm_id m) ''id'') (\<lambda>id'.
     and_then (validate_canonical_uuid uuid_parse uuid_show (nm_agent_id m) ''agent_id'') (\<lambda>agent.
     and_then (validate_required_text (nm_local_host m) NAT_MAX_LOCAL_HOST_BYTES ''local_host'')
       (\<lambda>host.
     and_then (ensure (nat_local_target_allowed env host) LocalHostNotLoopback) (\<lambda>_.
     and_then (ensure (nm_local_port m \<noteq> 0) LocalPortZero) (\<lambda>_.
     and_then (ensure (nat_public_port_allowed env (nm_public_port m))
                 (PublicPortBelowMinimum (nm_public_port m))) (\<lambda>_.
     and_then (validate_optional_text (nm_description m) NAT_MAX_DESCRIPTION_BYTES ''description'')
       (\<lambda>descr.
     and_then (normalize_nat_allowed_sources (nm_allowed_sources m)) (\<lambda>sources.
     and_then (validate_optional_uint (nm_max_active_tunnels m)
                 NAT_MAX_ACTIVE_TUNNELS_PER_MAPPING ''max_active_tunnels'') (\<lambda>_.
     and_then (validate_optional_uint (nm_idle_timeout_seconds m)
                 NAT_MAX_IDLE_TIMEOUT_SECONDS ''idle_timeout_seconds'') (\<lambda>_.
     and_then (validate_optional_uint (nm_max_bytes_per_tunnel m)
                 NAT_MAX_BYTES_PER_TUNNEL ''max_bytes_per_tunnel'') (\<lambda>_.
     and_then (validate_optional_uint (nm_max_bandwidth_bytes_per_second m)
                 NAT_MAX_BANDWIDTH_BYTES_PER_SECOND ''max_bandwidth_bytes_per_second'') (\<lambda>_.
     and_then (validate_optional_uint (nm_rate_limit_window_seconds m)
                 NAT_MAX_RATE_LIMIT_WINDOW_SECONDS ''rate_limit_window_seconds'') (\<lambda>_.
     and_then (validate_optional_uint (nm_max_connections_per_window m)
                 NAT_MAX_CONNECTIONS_PER_WINDOW ''max_connections_per_window'') (\<lambda>_.
     and_then (validate_optional_uint (nm_max_bytes_per_window m)
                 NAT_MAX_BYTES_PER_WINDOW ''max_bytes_per_window'') (\<lambda>_.
       Inr (m\<lparr>nm_id := id', nm_agent_id := agent, nm_local_host := host,
              nm_description := descr, nm_allowed_sources := sources\<rparr>))))))))))))))))"

section \<open>Specification vocabulary\<close>

definition limit_ok :: "nat \<Rightarrow> nat option \<Rightarrow> bool" where
  "limit_ok m v = (case v of None \<Rightarrow> True | Some n \<Rightarrow> 0 < n \<and> n \<le> m)"

text \<open>
  What a mapping accepted by the policy satisfies: canonical identifiers, trimmed texts within
  their limits, an allowed target and port, a source list in normal form whose entries are valid,
  and positive limits below the caps.
\<close>

definition canonical_uuid :: "(string \<Rightarrow> 'u option) \<Rightarrow> ('u \<Rightarrow> string) \<Rightarrow> string \<Rightarrow> bool" where
  "canonical_uuid uuid_parse uuid_show t = (length t = 36 \<and> map_option uuid_show (uuid_parse t) = Some t)"

definition text_ok :: "nat \<Rightarrow> string \<Rightarrow> bool" where
  "text_ok m t = (t \<noteq> [] \<and> trim t = t \<and> length t \<le> m)"

definition source_list_ok :: "string \<Rightarrow> bool" where
  "source_list_ok t =
     (let entries = split_on (\<lambda>c. c = CHR '','') t
      in length t \<le> 4096 \<and> length entries \<le> 64 \<and>
         list_all (\<lambda>e. text_ok 128 e \<and> \<not> list_ex list_separator e \<and> nat_source_entry_valid e) entries)"

definition policy_mapping :: "env \<Rightarrow> (string \<Rightarrow> 'u option) \<Rightarrow> ('u \<Rightarrow> string) \<Rightarrow> nat_mapping \<Rightarrow> bool" where
  "policy_mapping env uuid_parse uuid_show m =
     (canonical_uuid uuid_parse uuid_show (nm_id m) \<and> canonical_uuid uuid_parse uuid_show (nm_agent_id m)
      \<and> text_ok 253 (nm_local_host m) \<and> nat_local_target_allowed env (nm_local_host m)
      \<and> 0 < nm_local_port m \<and> nat_public_port_min env \<le> nm_public_port m
      \<and> pred_option (text_ok 1024) (nm_description m)
      \<and> pred_option source_list_ok (nm_allowed_sources m)
      \<and> limit_ok 1024 (nm_max_active_tunnels m)
      \<and> limit_ok 86400 (nm_idle_timeout_seconds m)
      \<and> limit_ok 1099511627776 (nm_max_bytes_per_tunnel m)
      \<and> limit_ok 1073741824 (nm_max_bandwidth_bytes_per_second m)
      \<and> limit_ok 86400 (nm_rate_limit_window_seconds m)
      \<and> limit_ok 100000 (nm_max_connections_per_window m)
      \<and> limit_ok 1099511627776 (nm_max_bytes_per_window m))"

section \<open>Lemmas\<close>

lemma length_join_entries: 
  assumes "source_entries s \<noteq> []"
  shows "length (join '','' (source_entries s)) \<le> length s"
proof -
  have "Suc (length (join '','' (source_entries s))) = (\<Sum>w\<leftarrow>source_entries s. Suc (length w))"
    using length_join_Suc [OF assms] .
  also have "\<dots> \<le> (\<Sum>w\<leftarrow>split_on list_separator s. Suc (length w))"
    unfolding source_entries_def by (rule sum_filter_trim_le)
  finally show ?thesis by (simp add: length_split_Suc)
qed

lemma source_entries_shape:
  assumes "e \<in> set (source_entries s)"
  shows "e \<noteq> [] \<and> trim e = e \<and> (\<forall>c \<in> set e. \<not> list_separator c)"
proof -
  from assms obtain w where w: "w \<in> set (split_on list_separator s)" "e = trim w" "e \<noteq> []"
    by (auto simp: source_entries_def)
  have "\<forall>c \<in> set w. \<not> list_separator c" using split_on_no_sep w(1) by blast
  with w(2,3) set_trim [of w] show ?thesis by auto
qed

lemma split_entries:
  assumes "source_entries s \<noteq> []"
  shows "split_on (\<lambda>c. c = CHR '','') (join '','' (source_entries s)) = source_entries s"
    "split_on list_separator (join '','' (source_entries s)) = source_entries s"
proof -
  have plain: "\<forall>e \<in> set (source_entries s). \<forall>c \<in> set e. \<not> list_separator c"
    using source_entries_shape by blast
  then have comma: "\<forall>e \<in> set (source_entries s). \<forall>c \<in> set e. \<not> c = CHR '',''"
    by (auto simp: list_separator_def)
  show "split_on (\<lambda>c. c = CHR '','') (join '','' (source_entries s)) = source_entries s"
    using split_join [OF assms comma] by simp
  show "split_on list_separator (join '','' (source_entries s)) = source_entries s"
    by (rule split_join [OF assms plain]) (simp add: list_separator_def)
qed

lemma join_split: "join [d] (split_on (\<lambda>c. c = d) t) = t"
proof (induction t)
  case (Cons c t)
  obtain w ws where "split_on (\<lambda>c. c = d) t = w # ws" by (cases "split_on (\<lambda>c. c = d) t") auto
  with Cons show ?case by (cases ws) auto
qed simp

lemma trimmed_words: "\<forall>w \<in> set ws. w \<noteq> [] \<and> trim w = w \<Longrightarrow> filter (\<lambda>e. e \<noteq> []) (map trim ws) = ws"
  by (induction ws) auto

lemma source_entries_join:
  assumes "source_entries s \<noteq> []"
  shows "source_entries (join '','' (source_entries s)) = source_entries s"
  using split_entries(2) [OF assms] source_entries_shape [of _ s] trimmed_words [of "source_entries s"]
  by (simp add: source_entries_def [of "join '','' (source_entries s)"])

lemma trim_source_entries: "trim (join '','' (source_entries s)) = join '','' (source_entries s)"
proof (cases "source_entries s = []")
  case False
  then show ?thesis
    using trim_join [of "source_entries s" "CHR '',''"] source_entries_shape [of _ s] by (intro trim_fixed) auto
qed (simp add: trim_fixed)

lemma check_source_entries_iff:
  "check_source_entries es = Inr u \<longleftrightarrow>
     (\<forall>e \<in> set es. length e \<le> NAT_MAX_ALLOWED_SOURCE_ENTRY_BYTES \<and> nat_source_entry_valid e)"
  by (induction es) auto

lemma normalize_sources_Some_iff:
  "normalize_nat_allowed_sources (Some raw) = Inr (Some n) \<longleftrightarrow>
     (let es = source_entries (trim raw) in
      es \<noteq> [] \<and> length (trim raw) \<le> 4096 \<and> length es \<le> 64
      \<and> (\<forall>e \<in> set es. length e \<le> 128 \<and> nat_source_entry_valid e) \<and> n = join '','' es)"
proof -
  have "trim raw = [] \<Longrightarrow> source_entries (trim raw) = []"
    by (simp add: source_entries_def trim_fixed)
  then show ?thesis
    by (auto simp: normalize_nat_allowed_sources_def Let_def result_simps check_source_entries_iff
        NAT_MAX_ALLOWED_SOURCES_BYTES_def NAT_MAX_ALLOWED_SOURCE_ENTRIES_def
        NAT_MAX_ALLOWED_SOURCE_ENTRY_BYTES_def split: if_splits)
qed

lemma normalize_sources_idem:
  assumes "normalize_nat_allowed_sources v = Inr v'"
  shows "normalize_nat_allowed_sources v' = Inr v'"
proof (cases v')
  case (Some n)
  then obtain raw where raw: "v = Some raw"
    using assms by (cases v) (auto simp: normalize_nat_allowed_sources_def)
  let ?es = "source_entries (trim raw)"
  have es: "?es \<noteq> []" "length (trim raw) \<le> 4096" "length ?es \<le> 64" "n = join '','' ?es"
      "\<forall>e \<in> set ?es. length e \<le> 128 \<and> nat_source_entry_valid e"
    using assms raw Some normalize_sources_Some_iff [of raw n] by (auto simp: Let_def)
  have "trim n = n" using trim_source_entries [of "trim raw"] es(4) by simp
  then show ?thesis
    using es source_entries_join [OF es(1)] length_join_entries [OF es(1)] Some
      normalize_sources_Some_iff [of n n] by (simp add: Let_def)
qed (simp add: normalize_nat_allowed_sources_def)

lemma nat_ip_in_cidr_eq: "nat_ip_in_cidr ip network p = ip_in_cidr ip network p"
  by (cases ip; cases network) (simp_all add: nat_ip_in_cidr_def ip_in_cidr.simps)

text \<open>
  A source list admits a peer exactly when the list is within its limits, \<^emph>\<open>every\<close> entry
  is a valid address or CIDR block, and some entry matches the peer: one malformed entry closes
  the list altogether.
\<close>

theorem source_list_allows_iff:
  "nat_source_list_allows raw ip \<longleftrightarrow>
     (let es = source_entries (trim raw) in
      length (trim raw) \<le> 4096 \<and> length es \<le> 64
      \<and> list_all (\<lambda>e. length e \<le> 128 \<and> nat_source_entry_valid e) es
      \<and> list_ex (\<lambda>e. nat_source_entry_matches e ip) es)"
proof (cases "\<exists>n. normalize_nat_allowed_sources (Some raw) = Inr (Some n)")
  case True
  then obtain n where n: "normalize_nat_allowed_sources (Some raw) = Inr (Some n)" by blast
  then show ?thesis
    using normalize_sources_Some_iff [of raw n] split_entries(1) [of "trim raw"]
    by (auto simp: nat_source_list_allows_def Let_def list_all_iff)
next
  case False
  then have "\<not> nat_source_list_allows raw ip"
    by (auto simp: nat_source_list_allows_def split: sum.splits option.splits)
  with False show ?thesis
    using normalize_sources_Some_iff [of raw] by (auto simp: Let_def list_all_iff)
qed

lemma validate_required_idem:
  "validate_required_text v n f = Inr w \<Longrightarrow> validate_required_text w n f = Inr w"
  by (auto simp: validate_required_text_def Let_def split: if_splits)

lemma validate_optional_idem:
  "validate_optional_text v n f = Inr w \<Longrightarrow> validate_optional_text w n f = Inr w"
  by (auto simp: validate_optional_text_def split: if_splits option.splits)

lemma validate_uuid_same:
  "validate_canonical_uuid p sh v f = Inr w \<Longrightarrow> w = v \<and> length v = 36"
  by (auto simp: validate_canonical_uuid_def Let_def result_simps NAT_UUID_TEXT_LEN_def split: if_splits)

lemma validate_uint_iff: "validate_optional_uint v m f = Inr u \<longleftrightarrow> limit_ok m v"
  by (auto simp: validate_optional_uint_def limit_ok_def split: option.splits)

lemma nat_policy_ok_iff:
  "validate_nat_mapping_runtime_policy env uuid_parse uuid_show m = Inr m' \<longleftrightarrow>
    (\<exists>host descr sources.
       validate_canonical_uuid uuid_parse uuid_show (nm_id m) ''id'' = Inr (nm_id m)
     \<and> validate_canonical_uuid uuid_parse uuid_show (nm_agent_id m) ''agent_id'' = Inr (nm_agent_id m)
     \<and> validate_required_text (nm_local_host m) 253 ''local_host'' = Inr host
     \<and> nat_local_target_allowed env host \<and> 0 < nm_local_port m
     \<and> nat_public_port_min env \<le> nm_public_port m
     \<and> validate_optional_text (nm_description m) 1024 ''description'' = Inr descr
     \<and> normalize_nat_allowed_sources (nm_allowed_sources m) = Inr sources
     \<and> limit_ok 1024 (nm_max_active_tunnels m)
     \<and> limit_ok 86400 (nm_idle_timeout_seconds m)
     \<and> limit_ok 1099511627776 (nm_max_bytes_per_tunnel m)
     \<and> limit_ok 1073741824 (nm_max_bandwidth_bytes_per_second m)
     \<and> limit_ok 86400 (nm_rate_limit_window_seconds m)
     \<and> limit_ok 100000 (nm_max_connections_per_window m)
     \<and> limit_ok 1099511627776 (nm_max_bytes_per_window m)
     \<and> m' = m\<lparr>nm_local_host := host, nm_description := descr, nm_allowed_sources := sources\<rparr>)"
  (is "?lhs \<longleftrightarrow> ?rhs")
proof -
  have uuid: "(\<exists>w. validate_canonical_uuid p sh v f = Inr w \<and> Q w) \<longleftrightarrow>
      validate_canonical_uuid p sh v f = Inr v \<and> Q v" for p :: "string \<Rightarrow> 'a option" and sh v f Q
    using validate_uuid_same [of p sh v f] by blast
  have same: "m\<lparr>nm_id := nm_id m, nm_agent_id := nm_agent_id m, nm_local_host := h, nm_description := d,
      nm_allowed_sources := s\<rparr> = m\<lparr>nm_local_host := h, nm_description := d, nm_allowed_sources := s\<rparr>" for h d s
    by simp
  show ?thesis
    unfolding validate_nat_mapping_runtime_policy_def and_then_ok_iff ensure_iff uuid validate_uint_iff same
      nat_public_port_allowed_def
    by (auto simp: NAT_MAX_LOCAL_HOST_BYTES_def NAT_MAX_DESCRIPTION_BYTES_def
        NAT_MAX_ACTIVE_TUNNELS_PER_MAPPING_def NAT_MAX_IDLE_TIMEOUT_SECONDS_def
        NAT_MAX_BYTES_PER_TUNNEL_def NAT_MAX_BANDWIDTH_BYTES_PER_SECOND_def
        NAT_MAX_RATE_LIMIT_WINDOW_SECONDS_def NAT_MAX_CONNECTIONS_PER_WINDOW_def
        NAT_MAX_BYTES_PER_WINDOW_def)
qed

lemma validate_uuid_iff:
  "validate_canonical_uuid p sh v f = Inr v \<longleftrightarrow> canonical_uuid p sh v"
  by (auto simp: validate_canonical_uuid_def canonical_uuid_def Let_def result_simps NAT_UUID_TEXT_LEN_def)

lemma validate_required_fixed: "validate_required_text v n f = Inr v \<longleftrightarrow> text_ok n v"
  by (auto simp: validate_required_text_def text_ok_def Let_def)

lemma validate_optional_fixed: "validate_optional_text v n f = Inr v \<longleftrightarrow> pred_option (text_ok n) v"
  by (cases v) (auto simp: validate_optional_text_def text_ok_def)

lemma source_list_entries:
  assumes "source_list_ok t"
  shows "source_entries t = split_on (\<lambda>c. c = CHR '','') t" "trim t = t"
proof -
  let ?es = "split_on (\<lambda>c. c = CHR '','') t"
  have es: "\<forall>e \<in> set ?es. e \<noteq> [] \<and> trim e = e" "\<forall>e \<in> set ?es. \<forall>c \<in> set e. \<not> list_separator c"
    using assms by (auto simp: source_list_ok_def text_ok_def Let_def list_all_iff list_ex_iff)
  have "split_on list_separator (join '','' ?es) = ?es"
    by (rule split_join [OF _ es(2)]) (simp_all add: list_separator_def)
  with trimmed_words [OF es(1)] show "source_entries t = ?es"
    by (simp add: source_entries_def join_split)
  with trim_source_entries [of t] show "trim t = t" by (simp add: join_split)
qed

lemma normalize_sources_fixed:
  "normalize_nat_allowed_sources v = Inr v \<longleftrightarrow> pred_option source_list_ok v"
proof (cases v)
  case (Some t)
  have "source_list_ok t" if norm: "normalize_nat_allowed_sources (Some t) = Inr (Some t)"
  proof -
    let ?es = "source_entries (trim t)"
    have es: "?es \<noteq> []" "length (trim t) \<le> 4096" "length ?es \<le> 64" "t = join '','' ?es"
        "\<forall>e \<in> set ?es. length e \<le> 128 \<and> nat_source_entry_valid e"
      using norm by (auto simp: normalize_sources_Some_iff Let_def)
    have "split_on (\<lambda>c. c = CHR '','') t = ?es" "length t \<le> 4096"
      using es(2,4) split_entries(1) [OF es(1)] length_join_entries [OF es(1)] by auto
    with es(3,5) source_entries_shape [of _ "trim t"] show ?thesis
      by (auto simp: source_list_ok_def text_ok_def Let_def list_all_iff list_ex_iff)
  qed
  moreover have "normalize_nat_allowed_sources (Some t) = Inr (Some t)" if ok: "source_list_ok t"
    using ok source_list_entries [OF ok]
    by (auto simp: normalize_sources_Some_iff source_list_ok_def text_ok_def Let_def list_all_iff join_split)
  ultimately show ?thesis using Some by auto
qed (simp add: normalize_nat_allowed_sources_def)

lemma nat_policy_fixed:
  "validate_nat_mapping_runtime_policy env uuid_parse uuid_show m = Inr m \<longleftrightarrow>
     policy_mapping env uuid_parse uuid_show m"
proof -
  have same: "m = m\<lparr>nm_local_host := h, nm_description := d, nm_allowed_sources := s\<rparr> \<longleftrightarrow>
      h = nm_local_host m \<and> d = nm_description m \<and> s = nm_allowed_sources m" for h d s
    by (cases m) auto
  show ?thesis
    unfolding nat_policy_ok_iff same policy_mapping_def validate_uuid_iff
    by (simp add: validate_required_fixed validate_optional_fixed normalize_sources_fixed)
qed

lemma nat_policy_idem:
  assumes "validate_nat_mapping_runtime_policy env uuid_parse uuid_show m = Inr m'"
  shows "validate_nat_mapping_runtime_policy env uuid_parse uuid_show m' = Inr m'"
proof -
  from assms obtain host descr sources where
    texts: "validate_required_text (nm_local_host m) 253 ''local_host'' = Inr host"
      "validate_optional_text (nm_description m) 1024 ''description'' = Inr descr"
      "normalize_nat_allowed_sources (nm_allowed_sources m) = Inr sources"
    and m': "m' = m\<lparr>nm_local_host := host, nm_description := descr, nm_allowed_sources := sources\<rparr>"
    unfolding nat_policy_ok_iff by blast
  with assms show ?thesis
    unfolding nat_policy_ok_iff m'
    using validate_required_idem [OF texts(1)] validate_optional_idem [OF texts(2)]
      normalize_sources_idem [OF texts(3)] by auto
qed

text \<open>
  (C21) A mapping accepted by the runtime policy satisfies every limit of the policy: canonical
  identifiers, texts and the description within their lengths, a normal-form source list of at most
  64 valid entries, an allowed target and port, every number within its cap. Accepting it is final:
  the normalised mapping passes again unchanged, and the mappings that pass unchanged are exactly
  those within the limits. The tunnel manager validates a mapping once when it loads the table and
  once more when it opens the listener.
\<close>

theorem nat_policy_establishes_and_stable:
  assumes "validate_nat_mapping_runtime_policy env uuid_parse uuid_show m = Inr m'"
  shows "policy_mapping env uuid_parse uuid_show m' \<and>
         validate_nat_mapping_runtime_policy env uuid_parse uuid_show m' = Inr m' \<and>
         (validate_nat_mapping_runtime_policy env uuid_parse uuid_show n = Inr n \<longleftrightarrow>
            policy_mapping env uuid_parse uuid_show n)"
  using nat_policy_idem [OF assms] by (simp add: nat_policy_fixed)

lemma protocol_text_roundtrip:
  "protocol_parse (protocol_as_str p) = Some p"
  by (cases p) (simp_all add: protocol_parse_def to_ascii_lowercase_def lower_byte_def)

section \<open>Properties at concrete inputs\<close>

definition example_mapping :: nat_mapping where
  "example_mapping =
     \<lparr>nm_id = replicate 36 (CHR ''a''), nm_agent_id = replicate 36 (CHR ''b''),
      nm_local_host = ''localhost'', nm_local_port = 8080, nm_public_port = 9090,
      nm_protocol = Tcp, nm_enabled = True, nm_description = None, nm_allowed_sources = None,
      nm_max_active_tunnels = Some 2, nm_idle_timeout_seconds = Some 60,
      nm_max_bytes_per_tunnel = None, nm_max_bandwidth_bytes_per_second = None,
      nm_rate_limit_window_seconds = Some 60, nm_max_connections_per_window = Some 30,
      nm_max_bytes_per_window = None, nm_created_at = [], nm_updated_at = []\<rparr>"

lemma example_mapping_valid:
  "validate_nat_mapping_runtime_policy (\<lambda>_. None) Some id example_mapping = Inr example_mapping"
proof -
  have t: "trim ''localhost'' = ''localhost''" by (simp add: text_eval)
  then have "nat_local_target_allowed (\<lambda>_. None) ''localhost''"
    by (simp add: nat_local_target_allowed_def nat_local_target_is_loopback_def
        eq_ignore_ascii_case_def)
  with t show ?thesis
    unfolding nat_policy_ok_iff
    by (simp add: example_mapping_def validate_canonical_uuid_def validate_required_text_def
        validate_optional_text_def normalize_nat_allowed_sources_def limit_ok_def
        nat_public_port_min_def DEFAULT_NAT_MIN_PUBLIC_PORT_def NAT_UUID_TEXT_LEN_def ok_or_def)
qed

theorem nat_policy_witness: "policy_mapping (\<lambda>_. None) Some id example_mapping"
  using nat_policy_establishes_and_stable [OF example_mapping_valid] by blast

end
