(* ===== verification/Nat_Limits.thy ===== *)
theory Nat_Limits
  imports Nat_Policy
begin

text \<open>
  The limits of the NAT tunnel manager (\<open>server/src/nat/tunnel.rs\<close>): which public ports a
  listener may bind, who may connect, how many tunnels run at once, and the per-source rate
  windows.

  A point in time is its number of nanoseconds since the epoch; \<open>from_timestamp\<close> is chrono's
  conversion from seconds, which answers \<open>None\<close> outside its range.
\<close>

datatype nat_error =
    PrivilegedPort nat
  | PortBelowMinimum nat
  | ReservedPort nat
  | SourceEmpty
  | TrackedSourceLimit nat string
  | ConnectionRateExceeded string
  | ByteWindowExceeded string
  | ActiveTunnelLimit
  | MappingTunnelLimit
  | DuplicateTunnelId
  | DatabaseError string
  | InvalidTunnelId
  | UnknownTunnel string
  | NotTunnelOwner string
  | FrameAgentMismatch string
  | FrameStreamMismatch string
  | FrameTooLarge nat
  | DeliveryFailed
  | InvalidAgentId string
  | AgentHasNoIoStream string
  | OpenRequestFailed string
  | SendFailed string
  | PublicIoError string
  | PublicWriteTimeout
  | ByteLimitExceeded
  | IdleTimeoutReached
  | AgentTunnelError string

definition DEFAULT_NAT_MAX_ACTIVE_TUNNELS :: nat where
  [limit_simps]: "DEFAULT_NAT_MAX_ACTIVE_TUNNELS = 128"
definition PRIVILEGED_PORT_MAX :: nat where
  [limit_simps]: "PRIVILEGED_PORT_MAX = 1023"
definition DEFAULT_RESERVED_CONTROL_PLANE_PORTS :: "nat list" where
  [limit_simps]: "DEFAULT_RESERVED_CONTROL_PLANE_PORTS = [3000, 8080, 50051]"
definition MAX_TRACKED_SOURCE_IPS_PER_MAPPING :: nat where
  [limit_simps]: "MAX_TRACKED_SOURCE_IPS_PER_MAPPING = 4096"
definition MAX_NAT_FRAME_BYTES :: nat where
  [limit_simps]: "MAX_NAT_FRAME_BYTES = 64 * 1024"

section \<open>Ports\<close>

definition parse_port_from_bind_spec :: "string \<Rightarrow> nat option" where
  "parse_port_from_bind_spec raw =
     (let spec = trim raw in
      case parse_socket_addr spec of
        Some addr \<Rightarrow> Some (sa_port addr)
      | None \<Rightarrow>
          (case rsplit_once (CHR '':'') spec of
             None \<Rightarrow> None
           | Some (_, port_str) \<Rightarrow> parse_u16 (trim port_str)))"

definition bind_port_reserved :: "env \<Rightarrow> nat \<Rightarrow> string \<Rightarrow> bool" where
  "bind_port_reserved env port env_name =
     (case env env_name of
        None \<Rightarrow> False
      | Some bind_value \<Rightarrow>
          (case parse_port_from_bind_spec bind_value of None \<Rightarrow> False | Some p \<Rightarrow> p = port))"

definition port_list_separator :: "char \<Rightarrow> bool" where
  "port_list_separator c \<longleftrightarrow> c \<in> {CHR '','', CHR '' '', CHR 0x09, CHR 0x0A}"

definition is_reserved_control_plane_port :: "env \<Rightarrow> nat \<Rightarrow> bool" where
  "is_reserved_control_plane_port env port =
     (if port \<in> set DEFAULT_RESERVED_CONTROL_PLANE_PORTS then True
      else if list_ex (bind_port_reserved env port)
                [''HTTP_BIND'', ''GRPC_BIND'', ''XLSTATUS_HTTP_BIND'', ''XLSTATUS_GRPC_BIND''] then True
      else case env ''XLSTATUS_NAT_RESERVED_PORTS'' of
             None \<Rightarrow> False
           | Some raw_ports \<Rightarrow>
               list_ex (\<lambda>token. parse_u16 (trim token) = Some port)
                 (split_on port_list_separator raw_ports))"

definition validate_nat_bind_port :: "env \<Rightarrow> nat \<Rightarrow> nat_error + unit" where
  "validate_nat_bind_port env port =
     (if port \<le> PRIVILEGED_PORT_MAX then Inl (PrivilegedPort port)
      else if \<not> nat_public_port_allowed env port then Inl (PortBelowMinimum port)
      else if is_reserved_control_plane_port env port then Inl (ReservedPort port)
      else Inr ())"

definition nat_bind_addr :: "env \<Rightarrow> nat \<Rightarrow> string" where
  "nat_bind_addr env port =
     (let host = (case env ''XLSTATUS_NAT_BIND_HOST'' of
                    None \<Rightarrow> ''127.0.0.1''
                  | Some value \<Rightarrow> if trim value = [] then ''127.0.0.1'' else trim value)
      in host @ '':'' @ show_nat port)"

section \<open>Sources\<close>

definition nat_source_allowed :: "env \<Rightarrow> socket_addr \<Rightarrow> bool" where
  "nat_source_allowed env peer_addr =
     (let raw = (case env ''XLSTATUS_NAT_ALLOWED_SOURCES'' of
                   Some v \<Rightarrow> v | None \<Rightarrow> ''127.0.0.0/8,::1/128'')
      in nat_source_list_allows raw (sa_ip peer_addr))"

definition nat_mapping_source_allowed :: "nat_mapping \<Rightarrow> socket_addr \<Rightarrow> bool" where
  "nat_mapping_source_allowed mapping peer_addr =
     (case nm_allowed_sources mapping of
        None \<Rightarrow> True
      | Some raw \<Rightarrow> nat_source_list_allows raw (sa_ip peer_addr))"

definition nat_max_active_tunnels :: "env \<Rightarrow> nat" where
  "nat_max_active_tunnels env =
     (case Option.bind (env ''XLSTATUS_NAT_MAX_ACTIVE_TUNNELS'') (\<lambda>value. parse_usize (trim value)) of
        None \<Rightarrow> DEFAULT_NAT_MAX_ACTIVE_TUNNELS
      | Some value \<Rightarrow> if 0 < value then value else DEFAULT_NAT_MAX_ACTIVE_TUNNELS)"

section \<open>Rate windows\<close>

record tracked_source_rate_state =
  ts_window_start :: datetime
  ts_connection_count :: nat
  ts_bytes_transferred :: nat
  ts_updated_at :: datetime

type_synonym source_table = "(string, tracked_source_rate_state) table"

definition prune_expired_source_rate_windows :: "datetime \<Rightarrow> source_table \<Rightarrow> source_table" where
  "prune_expired_source_rate_windows min_window_start sources =
     hm_retain (\<lambda>_ state. ts_window_start state \<ge> min_window_start) sources"

definition over_limit :: "nat \<Rightarrow> nat option \<Rightarrow> bool" where
  "over_limit n limit = (case limit of None \<Rightarrow> False | Some l \<Rightarrow> n > l)"

definition window_counts :: "datetime \<Rightarrow> tracked_source_rate_state option \<Rightarrow> nat \<times> nat" where
  "window_counts window_start existing =
     (case existing of
        Some state \<Rightarrow>
          if ts_window_start state = window_start
          then (ts_connection_count state, ts_bytes_transferred state) else (0, 0)
      | None \<Rightarrow> (0, 0))"

definition record_source_connection_in_map ::
  "string \<Rightarrow> datetime \<Rightarrow> datetime \<Rightarrow> nat \<Rightarrow> nat option \<Rightarrow> nat option \<Rightarrow> source_table
    \<Rightarrow> (nat_error + tracked_source_rate_state) \<times> source_table" where
  "record_source_connection_in_map source_ip window_start now max_tracked_ips
     max_connections_per_window max_bytes_per_window sources =
     (let pruned = prune_expired_source_rate_windows window_start sources;
          source = trim source_ip in
      if source = [] then (Inl SourceEmpty, pruned)
      else if hm_get pruned source = None \<and> hm_len pruned \<ge> max_tracked_ips
      then (Inl (TrackedSourceLimit max_tracked_ips source), pruned)
      else case window_counts window_start (hm_get pruned source) of (count, byte_count) \<Rightarrow>
        let conn_count = sat_add64 count 1;
            state = \<lparr>ts_window_start = window_start, ts_connection_count = conn_count,
                     ts_bytes_transferred = byte_count, ts_updated_at = now\<rparr> in
        if over_limit conn_count max_connections_per_window
        then (Inl (ConnectionRateExceeded source), hm_insert source state pruned)
        else if over_limit byte_count max_bytes_per_window
        then (Inl (ByteWindowExceeded source), pruned)
        else (Inr state, hm_insert source state pruned))"

definition record_source_bytes_in_map ::
  "string \<Rightarrow> datetime \<Rightarrow> nat \<Rightarrow> datetime \<Rightarrow> nat \<Rightarrow> source_table
    \<Rightarrow> tracked_source_rate_state option \<times> source_table" where
  "record_source_bytes_in_map source_ip window_start bytes now max_tracked_ips sources =
     (let pruned = prune_expired_source_rate_windows window_start sources;
          source = trim source_ip in
      if source = [] then (None, pruned)
      else if hm_get pruned source = None \<and> hm_len pruned \<ge> max_tracked_ips then (None, pruned)
      else
        let entry = (case hm_get pruned source of
                       Some e \<Rightarrow> e
                     | None \<Rightarrow> \<lparr>ts_window_start = window_start, ts_connection_count = 0,
                                ts_bytes_transferred = 0, ts_updated_at = now\<rparr>);
            current = (if ts_window_start entry \<noteq> window_start
                       then entry\<lparr>ts_window_start := window_start, ts_connection_count := 0,
                                  ts_bytes_transferred := 0\<rparr>
                       else entry);
            updated = current\<lparr>ts_bytes_transferred := sat_add64 (ts_bytes_transferred current) bytes,
                              ts_updated_at := now\<rparr>
        in (Some updated, hm_insert source updated pruned))"

definition nat_rate_limit_window_seconds :: "nat_mapping \<Rightarrow> nat option" where
  "nat_rate_limit_window_seconds mapping =
     (if nm_max_connections_per_window mapping = None \<and> nm_max_bytes_per_window mapping = None
      then None
      else or_else (nm_rate_limit_window_seconds mapping) (Some 60))"

definition current_nat_usage_window :: "(int \<Rightarrow> datetime option) \<Rightarrow> datetime \<Rightarrow> nat \<Rightarrow> datetime" where
  "current_nat_usage_window from_timestamp now seconds =
     (let window_seconds = int (max seconds 1);
          timestamp = now div 1000000000;
          window_start = timestamp - timestamp mod window_seconds
      in case from_timestamp window_start of Some t \<Rightarrow> t | None \<Rightarrow> now)"

section \<open>Active tunnels\<close>

record active_tunnel =
  at_tunnel_id :: string
  at_mapping_id :: string
  at_agent_id :: string
  at_created_at :: datetime
  at_bytes_sent :: nat
  at_bytes_received :: nat

type_synonym tunnel_table = "(string, active_tunnel) table"

definition active_tunnel_count :: "tunnel_table \<Rightarrow> nat" where
  "active_tunnel_count tunnels = hm_len tunnels"

definition active_tunnel_count_for_mapping :: "string \<Rightarrow> tunnel_table \<Rightarrow> nat" where
  "active_tunnel_count_for_mapping mapping_id tunnels =
     length (filter (\<lambda>(_, tunnel). at_mapping_id tunnel = mapping_id) tunnels)"

definition reserve_active_tunnel ::
  "active_tunnel \<Rightarrow> nat \<Rightarrow> nat option \<Rightarrow> tunnel_table \<Rightarrow> (nat_error + unit) \<times> tunnel_table" where
  "reserve_active_tunnel tunnel global_limit mapping_limit tunnels =
     (if hm_len tunnels \<ge> global_limit then (Inl ActiveTunnelLimit, tunnels)
      else if (case mapping_limit of
                 None \<Rightarrow> False
               | Some limit \<Rightarrow> active_tunnel_count_for_mapping (at_mapping_id tunnel) tunnels \<ge> limit)
      then (Inl MappingTunnelLimit, tunnels)
      else if hm_get tunnels (at_tunnel_id tunnel) \<noteq> None then (Inl DuplicateTunnelId, tunnels)
      else (Inr (), hm_insert (at_tunnel_id tunnel) tunnel tunnels))"

section \<open>Lemmas\<close>

lemma rsplit_once_last:
  assumes "CHR '':'' \<notin> set ds"
  shows "rsplit_once (CHR '':'') (h @ CHR '':'' # ds) = Some (h, ds)"
proof -
  have "takeWhile (\<lambda>c. c \<noteq> CHR '':'') (rev ds @ CHR '':'' # rev h) = rev ds"
    "dropWhile (\<lambda>c. c \<noteq> CHR '':'') (rev ds @ CHR '':'' # rev h) = CHR '':'' # rev h"
    using assms by (auto simp: takeWhile_append dropWhile_append)
  then show ?thesis by (simp add: rsplit_once_def split_once_def)
qed

lemma digits_no_colon: "list_all is_digit ds \<Longrightarrow> CHR '':'' \<notin> set ds"
  by (auto simp: list_all_iff is_digit_def)

lemma digits_not_white: "list_all is_digit ds \<Longrightarrow> \<not> is_white (map byte ds)"
proof -
  assume ds: "list_all is_digit ds"
  consider "ds = []" | a where "ds = [a]" | a b where "ds = [a, b]" | a b c where "ds = [a, b, c]"
    | a b c d r where "ds = a # b # c # d # r"
    by (metis list.exhaust)
  then show ?thesis using ds by cases (auto simp: is_digit_def)
qed

lemma trim_digits: "list_all is_digit ds \<Longrightarrow> trim ds = ds"
proof (rule trim_fixed)
  assume ds: "list_all is_digit ds"
  then have "list_all is_digit (take n ds)" "list_all is_digit (drop n ds)" for n
    by (auto simp: list_all_iff dest: in_set_takeD in_set_dropD)
  then have "\<not> is_white (map byte (take n ds))" "\<not> is_white (map byte (drop n ds))" for n
    using digits_not_white by blast+
  then show "ws_prefix ds = 0" "ws_suffix ds = 0"
    by (simp_all add: ws_prefix_def ws_suffix_def)
qed

lemma parse_digits_u16:
  assumes "ds \<noteq> []" "list_all is_digit ds" "dec_value ds \<le> 65535"
  shows "parse_u16 ds = Some (dec_value ds)"
proof -
  obtain c r where "ds = c # r" using assms(1) by (cases ds) auto
  then show ?thesis using assms(2,3) digit_not_plus [of c] by (auto simp: parse_unsigned_def)
qed

text \<open>Both ways of reading a bind address agree on the port.\<close>

lemma parse_port_last_part:
  "parse_port_from_bind_spec raw =
     Option.bind (rsplit_once (CHR '':'') (trim raw)) (\<lambda>(_, port_str). parse_u16 (trim port_str))"
proof (cases "parse_socket_addr (trim raw)")
  case None
  then show ?thesis
    by (auto simp: parse_port_from_bind_spec_def Let_def split: option.splits)
next
  case (Some sa)
  then obtain h ds where "trim raw = h @ CHR '':'' # ds" "ds \<noteq> []" "list_all is_digit ds"
    "sa_port sa = dec_value ds" "dec_value ds \<le> 65535"
    using parse_socket_addr_port by blast
  with Some show ?thesis
    by (simp add: parse_port_from_bind_spec_def Let_def rsplit_once_last digits_no_colon trim_digits
          parse_digits_u16)
qed

lemma parse_port_shown:
  assumes "trim spec = spec" "spec = host @ '':'' @ show_nat port" "port \<le> 65535"
  shows "parse_port_from_bind_spec spec = Some port"
  using assms rsplit_once_last [of "show_nat port" host] digits_no_colon [of "show_nat port"]
    show_nat_digits [of port] trim_digits [of "show_nat port"] parse_show_unsigned [of port 65535]
  by (simp add: parse_port_last_part)

lemma validate_nat_bind_port_ok:
  "validate_nat_bind_port env port = Inr () \<longleftrightarrow>
     1023 < port \<and> nat_public_port_min env \<le> port \<and> \<not> is_reserved_control_plane_port env port"
  by (auto simp: validate_nat_bind_port_def nat_public_port_allowed_def limit_simps)

lemma split_on_append: "P d \<Longrightarrow> split_on P (zs @ d # s) = split_on P zs @ split_on P s"
proof (induction zs)
  case (Cons z zs)
  then show ?case by (cases "split_on P zs") auto
qed simp

text \<open>A word between separators, or at either end of the text, is one of its parts.\<close>

lemma split_on_word:
  assumes "\<forall>c \<in> set w. \<not> P c" "xs = [] \<or> P (last xs)" "ys = [] \<or> P (hd ys)"
  shows "w \<in> set (split_on P (xs @ w @ ys))"
proof -
  have tail: "w \<in> set (split_on P (w @ ys))"
    using assms(1,3) by (cases ys) (auto simp: split_on_plain split_on_append_sep)
  show ?thesis
  proof (cases xs rule: rev_cases)
    case (snoc zs d)
    with assms(2) split_on_append [of P d zs "w @ ys"] tail show ?thesis by simp
  qed (use tail in simp)
qed

lemma reserved_by_list:
  assumes "env ''XLSTATUS_NAT_RESERVED_PORTS'' = Some (xs @ show_nat port @ ys)" "port \<le> 65535"
    and "xs = [] \<or> port_list_separator (last xs)" "ys = [] \<or> port_list_separator (hd ys)"
  shows "is_reserved_control_plane_port env port"
proof -
  have "\<forall>c \<in> set (show_nat port). \<not> port_list_separator c"
    using show_nat_digits [of port] by (auto simp: port_list_separator_def list_all_iff is_digit_def)
  then have "show_nat port \<in> set (split_on port_list_separator (xs @ show_nat port @ ys))"
    using assms(3,4) by (rule split_on_word)
  moreover have "parse_u16 (trim (show_nat port)) = Some port"
    using assms(2) show_nat_digits [of port] trim_digits [of "show_nat port"] parse_show_unsigned [of port 65535] by simp
  ultimately show ?thesis using assms(1) by (auto simp: is_reserved_control_plane_port_def list_ex_iff)
qed

lemma reserved_by_bind:
  assumes "name \<in> {''HTTP_BIND'', ''GRPC_BIND'', ''XLSTATUS_HTTP_BIND'', ''XLSTATUS_GRPC_BIND''}"
    and "env name = Some spec" "parse_port_from_bind_spec spec = Some port"
  shows "is_reserved_control_plane_port env port"
proof -
  have "bind_port_reserved env port name"
    using assms(2,3) by (simp add: bind_port_reserved_def)
  with assms(1) show ?thesis by (auto simp: is_reserved_control_plane_port_def)
qed

subsection \<open>Rate windows\<close>

lemma window_counts_simps:
  "window_counts w None = (0, 0)"
  "window_counts w (Some e) =
     (if ts_window_start e = w then (ts_connection_count e, ts_bytes_transferred e) else (0, 0))"
  by (simp_all add: window_counts_def)

lemma prune_sources_ok: "hm_ok m \<Longrightarrow> hm_ok (prune_expired_source_rate_windows w m)"
  by (simp add: prune_expired_source_rate_windows_def)

interpretation connection_cap: capped_table
  "\<lambda>(ip, w, now, mc, mb) m. snd (record_source_connection_in_map ip w now MAX_TRACKED_SOURCE_IPS_PER_MAPPING mc mb m)"
  MAX_TRACKED_SOURCE_IPS_PER_MAPPING
proof
  fix x :: "string \<times> int \<times> int \<times> nat option \<times> nat option" and m
  obtain ip w now mc mb where x: "x = (ip, w, now, mc, mb)" by (cases x)
  let ?P = "\<lambda>_ state. ts_window_start state \<ge> w"
  show "\<exists>P k v. (case x of (ip, w, now, mc, mb) \<Rightarrow> \<lambda>m. snd (record_source_connection_in_map ip w now MAX_TRACKED_SOURCE_IPS_PER_MAPPING mc mb m)) m = hm_retain P m \<or>
     (case x of (ip, w, now, mc, mb) \<Rightarrow> \<lambda>m. snd (record_source_connection_in_map ip w now MAX_TRACKED_SOURCE_IPS_PER_MAPPING mc mb m)) m = hm_insert k v (hm_retain P m) \<and>
     (hm_get (hm_retain P m) k = None \<longrightarrow> hm_len (hm_retain P m) < MAX_TRACKED_SOURCE_IPS_PER_MAPPING)"
    unfolding x
    by (rule exI [of _ ?P], rule exI [of _ "trim ip"])
       (auto simp: record_source_connection_in_map_def prune_expired_source_rate_windows_def Let_def
          split: prod.splits)
qed

interpretation bytes_cap: capped_table
  "\<lambda>(ip, w, b, now) m. snd (record_source_bytes_in_map ip w b now MAX_TRACKED_SOURCE_IPS_PER_MAPPING m)"
  MAX_TRACKED_SOURCE_IPS_PER_MAPPING
proof
  fix x :: "string \<times> int \<times> nat \<times> int" and m
  obtain ip w b now where x: "x = (ip, w, b, now)" by (cases x)
  let ?P = "\<lambda>_ state. ts_window_start state \<ge> w"
  show "\<exists>P k v. (case x of (ip, w, b, now) \<Rightarrow> \<lambda>m. snd (record_source_bytes_in_map ip w b now MAX_TRACKED_SOURCE_IPS_PER_MAPPING m)) m = hm_retain P m \<or>
     (case x of (ip, w, b, now) \<Rightarrow> \<lambda>m. snd (record_source_bytes_in_map ip w b now MAX_TRACKED_SOURCE_IPS_PER_MAPPING m)) m = hm_insert k v (hm_retain P m) \<and>
     (hm_get (hm_retain P m) k = None \<longrightarrow> hm_len (hm_retain P m) < MAX_TRACKED_SOURCE_IPS_PER_MAPPING)"
    unfolding x
    by (rule exI [of _ ?P], rule exI [of _ "trim ip"])
       (auto simp: record_source_bytes_in_map_def prune_expired_source_rate_windows_def Let_def)
qed

interpretation tunnels_cap: capped_table
  "\<lambda>(tunnel, mapping_limit) m. snd (reserve_active_tunnel tunnel global_limit mapping_limit m)" global_limit
  for global_limit
proof
  fix x :: "active_tunnel \<times> nat option" and m :: tunnel_table
  obtain t l where x: "x = (t, l)" by (cases x)
  have all: "hm_retain (\<lambda>_ _. True) m = m" by (simp add: hm_retain_def case_prod_unfold)
  show "\<exists>P k v. (case x of (tunnel, mapping_limit) \<Rightarrow> \<lambda>m. snd (reserve_active_tunnel tunnel global_limit mapping_limit m)) m = hm_retain P m \<or>
     (case x of (tunnel, mapping_limit) \<Rightarrow> \<lambda>m. snd (reserve_active_tunnel tunnel global_limit mapping_limit m)) m = hm_insert k v (hm_retain P m) \<and>
     (hm_get (hm_retain P m) k = None \<longrightarrow> hm_len (hm_retain P m) < global_limit)"
    unfolding x
    by (rule exI [of _ "\<lambda>_ _. True"], rule exI [of _ "at_tunnel_id t"], rule exI [of _ t])
       (simp add: reserve_active_tunnel_def all split: option.split)
qed

text \<open>The verdicts on a series of connections from one source in one window.\<close>

fun connection_verdicts ::
  "string \<Rightarrow> datetime \<Rightarrow> nat option \<Rightarrow> nat option \<Rightarrow> datetime list \<Rightarrow> source_table \<Rightarrow> bool list" where
  "connection_verdicts ip w mc mb [] m = []"
| "connection_verdicts ip w mc mb (now # nows) m =
     (case record_source_connection_in_map ip w now MAX_TRACKED_SOURCE_IPS_PER_MAPPING mc mb m of
        (r, m') \<Rightarrow> is_ok r # connection_verdicts ip w mc mb nows m')"

lemma hm_get_prune_sources:
  "hm_ok m \<Longrightarrow> hm_get (prune_expired_source_rate_windows w m) k =
     (case hm_get m k of None \<Rightarrow> None | Some e \<Rightarrow> if w \<le> ts_window_start e then Some e else None)"
  by (simp add: prune_expired_source_rate_windows_def table_simps split: option.split)

lemma record_connection_tracked:
  assumes "hm_ok m" "trim ip \<noteq> []" "hm_get m (trim ip) = Some e" "ts_window_start e = w"
    and "\<not> over_limit (ts_bytes_transferred e) mb"
  shows "\<exists>e' m'. record_source_connection_in_map ip w now cap (Some l) mb m =
      (if sat_add64 (ts_connection_count e) 1 \<le> l then Inr e' else Inl (ConnectionRateExceeded (trim ip)), m') \<and>
     hm_ok m' \<and> hm_get m' (trim ip) = Some e' \<and> ts_window_start e' = w \<and>
     ts_connection_count e' = sat_add64 (ts_connection_count e) 1 \<and>
     ts_bytes_transferred e' = ts_bytes_transferred e"
  using assms
  by (auto simp: record_source_connection_in_map_def hm_get_prune_sources Let_def window_counts_simps
        over_limit_def prune_sources_ok table_simps)

lemma record_connection_new:
  assumes "hm_ok m" "trim ip \<noteq> []" "hm_get (prune_expired_source_rate_windows w m) (trim ip) = None"
    and "hm_len (prune_expired_source_rate_windows w m) < cap"
  shows "\<exists>e' m'. record_source_connection_in_map ip w now cap (Some l) mb m =
      (if 1 \<le> l then Inr e' else Inl (ConnectionRateExceeded (trim ip)), m') \<and>
     hm_ok m' \<and> hm_get m' (trim ip) = Some e' \<and> ts_window_start e' = w \<and>
     ts_connection_count e' = 1 \<and> ts_bytes_transferred e' = 0"
  using assms
  by (auto simp: record_source_connection_in_map_def Let_def window_counts_simps
        over_limit_def prune_sources_ok table_simps sat_add64_def u64_max_def split: option.splits)

lemma connection_verdicts_tracked:
  assumes "hm_ok m" "trim ip \<noteq> []" "hm_get m (trim ip) = Some e" "ts_window_start e = w"
    and "\<not> over_limit (ts_bytes_transferred e) mb" "l < u64_max" "ts_connection_count e \<le> u64_max"
  shows "connection_verdicts ip w (Some l) mb nows m =
         map (\<lambda>i. ts_connection_count e + i < l) [0..<length nows]"
  using assms
proof (induction nows arbitrary: m e)
  case (Cons now nows)
  let ?c = "ts_connection_count e"
  obtain e' m' where step: "record_source_connection_in_map ip w now MAX_TRACKED_SOURCE_IPS_PER_MAPPING (Some l) mb m =
      (if sat_add64 ?c 1 \<le> l then Inr e' else Inl (ConnectionRateExceeded (trim ip)), m')"
    and e': "hm_ok m'" "hm_get m' (trim ip) = Some e'" "ts_window_start e' = w"
      "ts_connection_count e' = sat_add64 ?c 1" "ts_bytes_transferred e' = ts_bytes_transferred e"
    using record_connection_tracked [OF Cons.prems(1-5)] by blast
  have verdict: "sat_add64 ?c 1 \<le> l \<longleftrightarrow> ?c < l"
    using Cons.prems(6) by (auto simp: sat_add64_def)
  have shift: "sat_add64 ?c 1 + i < l \<longleftrightarrow> ?c + Suc i < l" for i
    using Cons.prems(6) by (auto simp: sat_add64_def min_def)
  have "connection_verdicts ip w (Some l) mb nows m' = map (\<lambda>i. ?c + Suc i < l) [0..<length nows]"
    using Cons.IH [OF e'(1) Cons.prems(2) e'(2,3)] e'(4,5) Cons.prems(5,6) sat_add64_le [of ?c 1] shift
    by simp
  moreover have "[0..<length (now # nows)] = 0 # map Suc [0..<length nows]"
    unfolding map_Suc_upt using upt_conv_Cons [of 0 "length (now # nows)"] by simp
  ultimately show ?case using verdict by (simp add: step del: upt_Suc)
qed simp

text \<open>
  How often a source has connected in the window \<open>w\<close>: recording a connection never takes a count
  of the present window back, and an admitted one adds one and stays within the limit.
\<close>

definition window_connections :: "datetime \<Rightarrow> string \<Rightarrow> source_table \<Rightarrow> nat" where
  "window_connections w source m = fst (window_counts w (hm_get m source))"

lemma window_connections_pruned:
  "hm_ok m \<Longrightarrow> window_connections w k (prune_expired_source_rate_windows w m) = window_connections w k m"
  by (auto simp: window_connections_def hm_get_prune_sources window_counts_simps split: option.splits)

lemma window_connections_insert:
  "window_connections w k (hm_insert j e m) =
     (if k = j then fst (window_counts w (Some e)) else window_connections w k m)"
  by (simp add: window_connections_def table_simps)

lemma window_connections_mono:
  assumes "hm_ok m"
  shows "min (window_connections w k m) u64_max \<le>
         min (window_connections w k (snd (record_source_connection_in_map ip w now cap mc mb m))) u64_max"
proof -
  let ?pruned = "prune_expired_source_rate_windows w m"
  obtain c b where counts: "window_counts w (hm_get ?pruned (trim ip)) = (c, b)" by fastforce
  have c: "window_connections w (trim ip) ?pruned = c" by (simp add: window_connections_def counts)
  show ?thesis
    using c unfolding window_connections_pruned [OF assms, symmetric, of w k]
    by (auto simp: record_source_connection_in_map_def Let_def counts window_connections_insert window_counts_simps
        sat_add64_def)
qed

lemma window_connections_admitted:
  assumes "hm_ok m" "record_source_connection_in_map ip w now cap (Some l) mb m = (Inr e, m')" "l < u64_max"
  shows "window_connections w (trim ip) m' = Suc (window_connections w (trim ip) m)"
    and "window_connections w (trim ip) m' \<le> l"
proof -
  let ?pruned = "prune_expired_source_rate_windows w m"
  obtain c b where counts: "window_counts w (hm_get ?pruned (trim ip)) = (c, b)" by fastforce
  have c: "window_connections w (trim ip) m = c"
    unfolding window_connections_pruned [OF assms(1), symmetric, of w "trim ip"] by (simp add: window_connections_def counts)
  have "sat_add64 c 1 \<le> l" "window_connections w (trim ip) m' = sat_add64 c 1"
    using assms(2)
    by (auto simp: record_source_connection_in_map_def Let_def counts over_limit_def window_connections_insert
        window_counts_simps split: if_splits)
  with c assms(3) show "window_connections w (trim ip) m' = Suc (window_connections w (trim ip) m)"
    "window_connections w (trim ip) m' \<le> l" by (auto simp: sat_add64_def)
qed

text \<open>The limits every mapping is configured with hold for the table of active tunnels.\<close>

definition tunnels_within :: "nat \<Rightarrow> (string \<Rightarrow> nat option) \<Rightarrow> tunnel_table \<Rightarrow> bool" where
  "tunnels_within global_limit mapping_limit m \<longleftrightarrow>
     hm_ok m \<and> hm_len m \<le> global_limit \<and>
     (\<forall>k t. hm_get m k = Some t \<longrightarrow> at_tunnel_id t = k) \<and>
     (\<forall>mid l. mapping_limit mid = Some l \<longrightarrow> active_tunnel_count_for_mapping mid m \<le> l)"

lemma hm_insert_new: "hm_get m k = None \<Longrightarrow> hm_insert k v m = m @ [(k, v)]"
  by (induction m) (auto simp: hm_get_def hm_insert_def split: if_splits)

lemma tunnel_count_insert:
  "hm_get m k = None \<Longrightarrow> active_tunnel_count_for_mapping mid (hm_insert k t m) =
     active_tunnel_count_for_mapping mid m + (if at_mapping_id t = mid then 1 else 0)"
  by (simp add: active_tunnel_count_for_mapping_def hm_insert_new)

lemma tunnel_count_remove:
  "active_tunnel_count_for_mapping mid (hm_remove k m) \<le> active_tunnel_count_for_mapping mid m"
proof -
  have "filter P (filter Q xs) = filter Q (filter P xs)" for P Q and xs :: tunnel_table
    by (simp add: conj_commute)
  then show ?thesis
    unfolding active_tunnel_count_for_mapping_def hm_remove_def by (metis length_filter_le)
qed

lemma reserve_within:
  assumes "tunnels_within g lim m"
  shows "tunnels_within g lim (snd (reserve_active_tunnel t g (lim (at_mapping_id t)) m))"
  using assms
  by (auto simp: tunnels_within_def reserve_active_tunnel_def table_simps tunnel_count_insert
           split: option.splits if_splits)

lemma release_within: "tunnels_within g lim m \<Longrightarrow> tunnels_within g lim (hm_remove k m)"
  unfolding tunnels_within_def
  using hm_len_remove_le [of k m] tunnel_count_remove [of _ k m]
  by (auto simp: table_simps split: if_splits) (meson order_trans)

section \<open>Properties\<close>

text \<open>
  (C32) No NAT listener takes a port of the control plane: a port up to 1023, one below the
  configured minimum, one of the default ports 3000, 8080 and 50051, the port of any address
  \<open>host:port\<close> configured in \<open>HTTP_BIND\<close>, \<open>GRPC_BIND\<close> or their prefixed forms, and every port listed
  in \<open>XLSTATUS_NAT_RESERVED_PORTS\<close> is refused. With none of these variables set, exactly the ports
  above 1023 other than the three defaults are accepted; in particular 5432, which the
  documentation counts among the reserved ports, is not refused.
\<close>

theorem control_plane_ports_refused:
  "(port \<le> 1023 \<or> port < nat_public_port_min env \<or> port \<in> {3000, 8080, 50051} \<or>
     port \<le> 65535 \<and>
     ((\<exists>name \<in> {''HTTP_BIND'', ''GRPC_BIND'', ''XLSTATUS_HTTP_BIND'', ''XLSTATUS_GRPC_BIND''}.
         \<exists>spec host. env name = Some spec \<and> trim spec = spec \<and> spec = host @ '':'' @ show_nat port) \<or>
      (\<exists>xs ys. env ''XLSTATUS_NAT_RESERVED_PORTS'' = Some (xs @ show_nat port @ ys) \<and>
         (xs = [] \<or> last xs \<in> {CHR '','', CHR '' '', CHR 0x09, CHR 0x0A}) \<and>
         (ys = [] \<or> hd ys \<in> {CHR '','', CHR '' '', CHR 0x09, CHR 0x0A})))
     \<longrightarrow> (\<exists>e. validate_nat_bind_port env port = Inl e)) \<and>
   (env = (\<lambda>_. None) \<longrightarrow>
      (validate_nat_bind_port env port = Inr () \<longleftrightarrow> 1023 < port \<and> port \<notin> {3000, 8080, 50051}))"
  (is "(?blocked \<longrightarrow> ?refused) \<and> ?plain")
proof
  have err: ?refused if "\<not> validate_nat_bind_port env port = Inr ()"
    using that by (cases "validate_nat_bind_port env port") auto
  have default: "port \<in> {3000, 8080, 50051} \<Longrightarrow> is_reserved_control_plane_port env port"
    by (auto simp: is_reserved_control_plane_port_def limit_simps)
  have listed: "is_reserved_control_plane_port env port"
    if "env ''XLSTATUS_NAT_RESERVED_PORTS'' = Some (xs @ show_nat port @ ys)" "port \<le> 65535"
      "xs = [] \<or> last xs \<in> {CHR '','', CHR '' '', CHR 0x09, CHR 0x0A}"
      "ys = [] \<or> hd ys \<in> {CHR '','', CHR '' '', CHR 0x09, CHR 0x0A}" for xs ys
    using reserved_by_list [of env xs port ys] that unfolding port_list_separator_def by blast
  show "?blocked \<longrightarrow> ?refused"
    using err default listed parse_port_shown reserved_by_bind unfolding validate_nat_bind_port_ok
    by (metis not_less)
  show ?plain
    unfolding validate_nat_bind_port_ok
    by (auto simp: is_reserved_control_plane_port_def bind_port_reserved_def nat_public_port_min_def
        DEFAULT_NAT_MIN_PUBLIC_PORT_def limit_simps)
qed

definition reserving_env :: env where
  "reserving_env name = (if name = ''XLSTATUS_NAT_RESERVED_PORTS'' then Some ''9000,9443'' else None)"

theorem control_plane_ports_refused_witness:
  "(\<exists>e. validate_nat_bind_port reserving_env 9443 = Inl e) \<and> validate_nat_bind_port (\<lambda>_. None) 9443 = Inr ()"
proof
  have "show_nat 9443 = ''9443''" by (simp add: show_nat.simps char_of_def bit_Suc_0_iff)
  then have listed: "\<exists>xs ys. reserving_env ''XLSTATUS_NAT_RESERVED_PORTS'' = Some (xs @ show_nat 9443 @ ys) \<and>
      (xs = [] \<or> last xs \<in> {CHR '','', CHR '' '', CHR 0x09, CHR 0x0A}) \<and>
      (ys = [] \<or> hd ys \<in> {CHR '','', CHR '' '', CHR 0x09, CHR 0x0A})"
    by (intro exI [of _ "''9000,''"] exI [of _ "[]"]) (simp add: reserving_env_def)
  show "\<exists>e. validate_nat_bind_port reserving_env 9443 = Inl e"
    by (intro control_plane_ports_refused [THEN conjunct1, THEN mp] disjI2 conjI listed) simp
  show "validate_nat_bind_port (\<lambda>_. None) 9443 = Inr ()"
    using control_plane_ports_refused [of 9443 "\<lambda>_. None"] by simp
qed

text \<open>The default port of PostgreSQL is open to NAT mappings, although the documentation lists it as reserved.\<close>

theorem postgres_port_not_reserved: "validate_nat_bind_port (\<lambda>_. None) 5432 = Inr ()"
  by (simp add: validate_nat_bind_port_ok is_reserved_control_plane_port_def bind_port_reserved_def
      nat_public_port_min_def DEFAULT_NAT_MIN_PUBLIC_PORT_def limit_simps)

text \<open>
  (C33) The connection limit of a rate window is exact: of any number of connections from one
  newly seen source in one window, exactly the first \<open>limit\<close> are admitted and every later one
  is refused.
\<close>

theorem connection_limit_exact:
  assumes "hm_ok m" "trim ip \<noteq> []" "limit < u64_max"
    and "hm_get (prune_expired_source_rate_windows w m) (trim ip) = None"
    and "hm_len (prune_expired_source_rate_windows w m) < MAX_TRACKED_SOURCE_IPS_PER_MAPPING"
  shows "connection_verdicts ip w (Some limit) mb nows m = map (\<lambda>i. i < limit) [0..<length nows]"
proof (cases nows)
  case (Cons now rest)
  obtain e' m' where step: "record_source_connection_in_map ip w now MAX_TRACKED_SOURCE_IPS_PER_MAPPING (Some limit) mb m =
      (if 1 \<le> limit then Inr e' else Inl (ConnectionRateExceeded (trim ip)), m')"
    and e': "hm_ok m'" "hm_get m' (trim ip) = Some e'" "ts_window_start e' = w"
      "ts_connection_count e' = 1" "ts_bytes_transferred e' = 0"
    using record_connection_new [OF assms(1,2,4,5)] by blast
  have "connection_verdicts ip w (Some limit) mb rest m' = map (\<lambda>i. Suc i < limit) [0..<length rest]"
    using connection_verdicts_tracked [OF e'(1) assms(2) e'(2,3) _ assms(3), of mb rest] e'(4,5)
    by (simp add: over_limit_def u64_max_def split: option.split)
  moreover have "[0..<length nows] = 0 # map Suc [0..<length rest]"
    unfolding map_Suc_upt using upt_conv_Cons [of 0 "length nows"] Cons by simp
  ultimately show ?thesis using step Cons by auto
qed simp

theorem connection_limit_exact_witness:
  "connection_verdicts ''198.51.100.7'' 0 (Some 2) None [1, 2, 3] [] = [True, True, False]"
  using connection_limit_exact [of "[]" "''198.51.100.7''" 2 0 None "[1, 2, 3]"]
  by (simp add: text_eval u64_max_def prune_expired_source_rate_windows_def hm_retain_def limit_simps upt_rec)

text \<open>
  Recording a connection or transferred bytes of one source leaves the count of every other
  source of the current window as it was.
\<close>

theorem rate_sources_independent:
  assumes "hm_ok m" "k \<noteq> trim ip" "hm_get m k = Some e" "w \<le> ts_window_start e"
  shows "hm_get (snd (record_source_connection_in_map ip w now cap mc mb m)) k = Some e"
    and "hm_get (snd (record_source_bytes_in_map ip w bytes now cap m)) k = Some e"
  using assms
  by (auto simp: record_source_connection_in_map_def record_source_bytes_in_map_def Let_def
        hm_get_prune_sources table_simps split: prod.split)

definition demo_rate :: tracked_source_rate_state where
  "demo_rate = \<lparr>ts_window_start = 60, ts_connection_count = 3, ts_bytes_transferred = 9, ts_updated_at = 61\<rparr>"

theorem rate_sources_independent_witness:
  "hm_get (snd (record_source_connection_in_map ''b'' 60 62 4096 (Some 5) None [(''a'', demo_rate)])) ''a'' = Some demo_rate"
  using rate_sources_independent(1) [of "[(''a'', demo_rate)]" "''a''" "''b''" demo_rate 60]
  by (simp add: hm_ok_def hm_get_def demo_rate_def text_eval)

text \<open>
  However connections and byte reports of a mapping are mixed, at most 4096 sources are
  tracked for it, one entry each.
\<close>

theorem tracked_sources_bounded:
  assumes "hm_ok m" "hm_len m \<le> 4096"
  shows "hm_len (fold (\<lambda>ev m. case ev of
             Inl (ip, w, now, mc, mb) \<Rightarrow> snd (record_source_connection_in_map ip w now MAX_TRACKED_SOURCE_IPS_PER_MAPPING mc mb m)
           | Inr (ip, w, b, now) \<Rightarrow> snd (record_source_bytes_in_map ip w b now MAX_TRACKED_SOURCE_IPS_PER_MAPPING m)) evs m) \<le> 4096"
  using assms
proof (induction evs arbitrary: m)
  case (Cons ev evs)
  have cap: "hm_len m \<le> MAX_TRACKED_SOURCE_IPS_PER_MAPPING" using Cons.prems(2) by (simp add: limit_simps)
  show ?case
    using connection_cap.admit_within_cap [OF cap] connection_cap.admit_hm_ok [OF Cons.prems(1)]
      bytes_cap.admit_within_cap [OF cap] bytes_cap.admit_hm_ok [OF Cons.prems(1)]
    by (cases ev) (auto simp: MAX_TRACKED_SOURCE_IPS_PER_MAPPING_def case_prod_unfold intro!: Cons.IH)
qed simp

theorem tracked_sources_bounded_witness:
  "hm_len (fold (\<lambda>ev m. case ev of
       Inl (ip, w, now, mc, mb) \<Rightarrow> snd (record_source_connection_in_map ip w now MAX_TRACKED_SOURCE_IPS_PER_MAPPING mc mb m)
     | Inr (ip, w, b, now) \<Rightarrow> snd (record_source_bytes_in_map ip w b now MAX_TRACKED_SOURCE_IPS_PER_MAPPING m))
       [Inl (''a'', 0, 1, None, None), Inr (''b'', 0, 5, 2)] []) \<le> 4096"
  by (rule tracked_sources_bounded) (simp_all add: hm_len_def)

text \<open>
  A reservation never takes the manager over its limits: reserving a tunnel, whatever its
  outcome, and releasing one keep at most the global number of tunnels, at most each
  mapping's own number, and every tunnel under its own id.
\<close>

theorem reservations_within_limits:
  assumes "tunnels_within g lim m"
  shows "tunnels_within g lim (snd (reserve_active_tunnel t g (lim (at_mapping_id t)) m)) \<and>
     tunnels_within g lim (hm_remove k m) \<and>
     (fst (reserve_active_tunnel t g (lim (at_mapping_id t)) m) = Inr () \<longrightarrow>
         hm_get (snd (reserve_active_tunnel t g (lim (at_mapping_id t)) m)) (at_tunnel_id t) = Some t \<and>
         hm_get m (at_tunnel_id t) = None)"
  using reserve_within [OF assms] release_within [OF assms]
  by (auto simp: reserve_active_tunnel_def table_simps split: if_splits option.splits)

definition demo_tunnel :: active_tunnel where
  "demo_tunnel = \<lparr>at_tunnel_id = ''t'', at_mapping_id = ''m'', at_agent_id = ''a'', at_created_at = 0,
     at_bytes_sent = 0, at_bytes_received = 0\<rparr>"

theorem reservations_within_limits_witness:
  "tunnels_within 1 (\<lambda>_. Some 1) (snd (reserve_active_tunnel demo_tunnel 1 (Some 1) []))"
proof -
  have "tunnels_within 1 (\<lambda>_. Some 1) []"
    by (simp add: tunnels_within_def active_tunnel_count_for_mapping_def)
  from reservations_within_limits [OF this, of demo_tunnel] show ?thesis by simp
qed

text \<open>
  A rate window contains the present and is aligned: with a time chrono can represent, the
  window of length \<open>s\<close> starts at a multiple of \<open>s\<close> seconds, not after now, and ends after now.
\<close>

theorem usage_window_contains_now:
  assumes "\<And>t. t_min \<le> t \<Longrightarrow> t \<le> t_max \<Longrightarrow> from_timestamp t = Some (t * 1000000000)"
    and "t_min + int s \<le> now div 1000000000" "now div 1000000000 \<le> t_max" "0 < s"
  shows "current_nat_usage_window from_timestamp now s \<le> now"
    and "now < current_nat_usage_window from_timestamp now s + int s * 1000000000"
    and "int s * 1000000000 dvd current_nat_usage_window from_timestamp now s"
proof -
  let ?t = "now div 1000000000"
  have m: "0 \<le> ?t mod int s" "?t mod int s < int s" using assms(4) by simp_all
  have "max s 1 = s" using assms(4) by simp
  moreover have "from_timestamp (?t - ?t mod int s) = Some ((?t - ?t mod int s) * 1000000000)"
    by (rule assms(1)) (use assms(2,3) m in linarith)+
  ultimately have w: "current_nat_usage_window from_timestamp now s = (?t - ?t mod int s) * 1000000000"
    by (simp add: current_nat_usage_window_def Let_def)
  have t: "?t * 1000000000 \<le> now" "now < (?t + 1) * 1000000000"
    by simp_all
  show "current_nat_usage_window from_timestamp now s \<le> now"
    unfolding w using t(1) m(1) by (simp add: left_diff_distrib)
  have "(?t + 1) * 1000000000 \<le> (?t - ?t mod int s + int s) * 1000000000"
    using m(2) by (intro mult_right_mono) auto
  then show "now < current_nat_usage_window from_timestamp now s + int s * 1000000000"
    unfolding w using t(2) by (simp add: distrib_right)
  have "int s dvd ?t - ?t mod int s" by (rule dvd_minus_mod)
  then show "int s * 1000000000 dvd current_nat_usage_window from_timestamp now s"
    unfolding w by (rule mult_dvd_mono) simp
qed

theorem usage_window_contains_now_witness:
  "current_nat_usage_window (\<lambda>t. if \<bar>t\<bar> \<le> 8000000000000 then Some (t * 1000000000) else None) 125000000000 60
     \<le> 125000000000"
  by (rule usage_window_contains_now [where t_min = "-8000000000000" and t_max = 8000000000000]) simp_all

end
