(* ===== verification/Agent_Sessions.thy ===== *)
theory Agent_Sessions
  imports Rust_Text
begin

text \<open>
  The session registry of the gRPC server (\<open>grpc/session.rs\<close>): which channel currently
  reaches an agent, who is revoked, and \<open>send_to_current\<close>, the routine that commits a
  message to the current channel only.

  Channels, watch cells and timers belong to tokio. A channel and a watch cell are handles
  (\<open>chan_id\<close>, \<open>watch_id\<close>) that the operations receive when tokio creates them; what an
  operation does to them is returned as a list of effects; what tokio reports back to the
  waiting routine (a permit, a closed channel, a change notification, a timeout) is the
  \<open>wake\<close> argument of its next step. Lock regions are atomic: each function below is the
  body of one region, and \<open>disconnect\<close>, which takes its two locks one after the other, is
  two functions.
\<close>

type_synonym chan_id = nat
type_synonym watch_id = nat

section \<open>Messages\<close>

record shell_command_task =
  sc_command :: string
  sc_working_dir :: string
  sc_env :: "(string, string) table"
  sc_timeout_seconds :: u32
  sc_max_output_bytes :: nat

datatype task_type = UnspecifiedTask | ShellCommand | HttpGet | IcmpPing | TcpPing | Terminal
  | FileList | FileRead | FileWrite | FileDelete | FileTransfer

text \<open>The specifications of the other task kinds pass through the registry unread.\<close>

datatype 'o task_spec = ShellSpec shell_command_task | OtherSpec 'o

record 'o server_task =
  st_task_id :: string
  st_task_type :: task_type
  st_spec :: "'o task_spec option"

datatype 'o server_message = TaskMessage "'o server_task" | OtherMessage 'o | EmptyMessage

section \<open>Registered senders\<close>

record registered_sender =
  rs_sender :: chan_id
  rs_changes :: watch_id

definition registered_sender_new :: "chan_id \<Rightarrow> watch_id \<Rightarrow> registered_sender" where
  "registered_sender_new sender changes = \<lparr>rs_sender = sender, rs_changes = changes\<rparr>"

datatype 'v effect = NotifyChanged watch_id | PermitSend chan_id 'v | TrySend chan_id 'v

definition notify_changed :: "registered_sender \<Rightarrow> 'v effect list" where
  "notify_changed s = [NotifyChanged (rs_changes s)]"

type_synonym sender_table = "(agent_id, registered_sender) table"

section \<open>send_to_current\<close>

record send_errors =
  missing_error :: string
  closed_error :: string
  timeout_error :: string

definition revoked_error :: string where
  "revoked_error = ''Agent has been revoked''"

datatype send_pc =
    LoopHead
  | Waiting chan_id watch_id
  | HoldingPermit chan_id
  | Returned "string + unit"

datatype wake = Proceed | ReserveOk | ReserveErr | ChangedOk | ChangedErr | Elapsed

definition send_acquire :: "sender_table \<Rightarrow> agent_id set \<Rightarrow> agent_id \<Rightarrow> send_errors \<Rightarrow> send_pc" where
  "send_acquire senders revoked a errs =
     (if a \<in> revoked then Returned (Inl revoked_error)
      else case hm_get senders a of
             None \<Rightarrow> Returned (Inl (missing_error errs))
           | Some current \<Rightarrow> Waiting (rs_sender current) (rs_changes current))"

definition send_reserve_failed ::
  "sender_table \<Rightarrow> agent_id set \<Rightarrow> agent_id \<Rightarrow> send_errors \<Rightarrow> chan_id \<Rightarrow> send_pc" where
  "send_reserve_failed senders revoked a errs sender =
     (if a \<in> revoked then Returned (Inl revoked_error)
      else case hm_get senders a of
             Some current \<Rightarrow>
               if rs_sender current \<noteq> sender then LoopHead
               else Returned (Inl (closed_error errs))
           | None \<Rightarrow> Returned (Inl (missing_error errs)))"

definition send_commit ::
  "sender_table \<Rightarrow> agent_id set \<Rightarrow> agent_id \<Rightarrow> send_errors \<Rightarrow> 'v \<Rightarrow> chan_id
    \<Rightarrow> send_pc \<times> 'v effect list" where
  "send_commit senders revoked a errs v sender =
     (if a \<in> revoked then (Returned (Inl revoked_error), [])
      else case hm_get senders a of
             Some current \<Rightarrow>
               if rs_sender current = sender then (Returned (Inr ()), [PermitSend sender v])
               else (LoopHead, [])
           | None \<Rightarrow> (Returned (Inl (missing_error errs)), []))"

text \<open>
  One step of the routine: the program counter, the wake-up it receives and the registry at
  that moment. \<open>None\<close> says the wake-up cannot happen there.
\<close>

fun send_to_current_step ::
  "sender_table \<Rightarrow> agent_id set \<Rightarrow> agent_id \<Rightarrow> send_errors \<Rightarrow> 'v \<Rightarrow> send_pc \<Rightarrow> wake
    \<Rightarrow> (send_pc \<times> 'v effect list) option" where
  "send_to_current_step senders revoked a errs v (Returned r) w = None"
| "send_to_current_step senders revoked a errs v pc Elapsed =
     Some (Returned (Inl (timeout_error errs)), [])"
| "send_to_current_step senders revoked a errs v LoopHead Proceed =
     Some (send_acquire senders revoked a errs, [])"
| "send_to_current_step senders revoked a errs v (Waiting c k) ReserveOk =
     Some (HoldingPermit c, [])"
| "send_to_current_step senders revoked a errs v (Waiting c k) ReserveErr =
     Some (send_reserve_failed senders revoked a errs c, [])"
| "send_to_current_step senders revoked a errs v (Waiting c k) ChangedOk =
     Some (LoopHead, [])"
| "send_to_current_step senders revoked a errs v (Waiting c k) ChangedErr =
     Some (Returned (Inl (missing_error errs)), [])"
| "send_to_current_step senders revoked a errs v (HoldingPermit c) Proceed =
     Some (send_commit senders revoked a errs v c)"
| "send_to_current_step senders revoked a errs v pc w = None"

section \<open>SessionRegistry\<close>

record session_registry =
  sessions :: sender_table
  revoked :: "agent_id set"

definition session_registry_new :: session_registry where
  "session_registry_new = \<lparr>sessions = [], revoked = {}\<rparr>"

definition replaced_effects :: "registered_sender option \<Rightarrow> 'v effect list" where
  "replaced_effects previous = (case previous of None \<Rightarrow> [] | Some p \<Rightarrow> notify_changed p)"

definition register ::
  "agent_id \<Rightarrow> chan_id \<Rightarrow> watch_id \<Rightarrow> session_registry
    \<Rightarrow> bool \<times> session_registry \<times> 'v effect list" where
  "register a sender changes r =
     (if a \<in> revoked r then (False, r, [])
      else (True,
            r\<lparr>sessions := hm_insert a (registered_sender_new sender changes) (sessions r)\<rparr>,
            replaced_effects (hm_get (sessions r) a)))"

text \<open>
  The weak sender upgrades while some strong sender of its channel lives; the registry's own
  entry is one, so for the current channel the upgrade succeeds and the test is identity.
\<close>

definition is_current :: "sender_table \<Rightarrow> agent_id \<Rightarrow> chan_id \<Rightarrow> bool" where
  "is_current senders a sender =
     (case hm_get senders a of None \<Rightarrow> False | Some current \<Rightarrow> rs_sender current = sender)"

definition unregister ::
  "agent_id \<Rightarrow> chan_id \<Rightarrow> session_registry \<Rightarrow> bool \<times> session_registry \<times> 'v effect list" where
  "unregister a sender r =
     (if is_current (sessions r) a sender
      then (True, r\<lparr>sessions := hm_remove a (sessions r)\<rparr>,
            replaced_effects (hm_get (sessions r) a))
      else (False, r, []))"

definition disconnect_mark :: "agent_id \<Rightarrow> session_registry \<Rightarrow> session_registry" where
  "disconnect_mark a r = r\<lparr>revoked := insert a (revoked r)\<rparr>"

definition disconnect_remove ::
  "agent_id \<Rightarrow> session_registry \<Rightarrow> session_registry \<times> 'v effect list" where
  "disconnect_remove a r =
     (r\<lparr>sessions := hm_remove a (sessions r)\<rparr>, replaced_effects (hm_get (sessions r) a))"

definition disconnect :: "agent_id \<Rightarrow> session_registry \<Rightarrow> session_registry \<times> 'v effect list" where
  "disconnect a r = disconnect_remove a (disconnect_mark a r)"

definition session_send_errors :: send_errors where
  "session_send_errors =
     \<lparr>missing_error = ''Agent session not found'',
      closed_error = ''Agent session channel is closed'',
      timeout_error = ''Timed out waiting for Agent session capacity''\<rparr>"

definition session_send_step ::
  "session_registry \<Rightarrow> agent_id \<Rightarrow> 'o server_message \<Rightarrow> send_pc \<Rightarrow> wake
    \<Rightarrow> (send_pc \<times> 'o server_message effect list) option" where
  "session_send_step r a m pc w =
     send_to_current_step (sessions r) (revoked r) a session_send_errors m pc w"

definition broadcast_targets :: "session_registry \<Rightarrow> chan_id list" where
  "broadcast_targets r = map (rs_sender \<circ> snd) (sessions r)"

text \<open>
  \<open>broadcast\<close> takes the senders under the lock and then sends to each in turn, waiting for
  capacity; a send to a closed channel fails and is ignored.
\<close>

definition broadcast ::
  "(chan_id \<Rightarrow> bool) \<Rightarrow> session_registry \<Rightarrow> 'o server_message \<Rightarrow> 'o server_message effect list" where
  "broadcast is_closed r m =
     map (\<lambda>c. PermitSend c m) (filter (\<lambda>c. \<not> is_closed c) (broadcast_targets r))"

definition shell_task_message :: "string \<Rightarrow> string \<Rightarrow> u32 \<Rightarrow> nat \<Rightarrow> 'o server_message" where
  "shell_task_message task_id shell_command timeout_seconds max_output_bytes =
     TaskMessage
       \<lparr>st_task_id = task_id,
        st_task_type = ShellCommand,
        st_spec = Some (ShellSpec
          \<lparr>sc_command = shell_command,
           sc_working_dir = [],
           sc_env = [],
           sc_timeout_seconds = timeout_seconds,
           sc_max_output_bytes = max_output_bytes\<rparr>)\<rparr>"

definition send_shell_task_step ::
  "session_registry \<Rightarrow> agent_id \<Rightarrow> string \<Rightarrow> string \<Rightarrow> u32 \<Rightarrow> nat \<Rightarrow> send_pc \<Rightarrow> wake
    \<Rightarrow> (send_pc \<times> 'o server_message effect list) option" where
  "send_shell_task_step r a task_id command timeout max_output pc w =
     session_send_step r a (shell_task_message task_id command timeout max_output) pc w"

definition send_task_step ::
  "session_registry \<Rightarrow> agent_id \<Rightarrow> string \<Rightarrow> string \<Rightarrow> u32 \<Rightarrow> send_pc \<Rightarrow> wake
    \<Rightarrow> (send_pc \<times> 'o server_message effect list) option" where
  "send_task_step r a task_id command timeout pc w =
     send_shell_task_step r a task_id command timeout (64 * 1024) pc w"

definition send_server_task_step ::
  "session_registry \<Rightarrow> agent_id \<Rightarrow> 'o server_task \<Rightarrow> send_pc \<Rightarrow> wake
    \<Rightarrow> (send_pc \<times> 'o server_message effect list) option" where
  "send_server_task_step r a task pc w = session_send_step r a (TaskMessage task) pc w"

definition session_count :: "session_registry \<Rightarrow> nat" where
  "session_count r = hm_len (sessions r)"

definition online_agent_ids :: "session_registry \<Rightarrow> agent_id list" where
  "online_agent_ids r = map fst (sessions r)"

definition is_online :: "session_registry \<Rightarrow> agent_id \<Rightarrow> bool" where
  "is_online r a = (hm_get (sessions r) a \<noteq> None)"

section \<open>The registry contract\<close>

text \<open>
  What the session registry and the IO registry promise alike: agents enter under a channel,
  leave when the channel is still the current one, and a banned agent is taken offline and
  can never enter again.
\<close>

datatype registry_op = Join agent_id chan_id watch_id | Leave agent_id chan_id | Ban agent_id

fun registry_exec ::
  "(agent_id \<Rightarrow> chan_id \<Rightarrow> watch_id \<Rightarrow> 's \<Rightarrow> bool \<times> 's) \<Rightarrow> (agent_id \<Rightarrow> chan_id \<Rightarrow> 's \<Rightarrow> bool \<times> 's)
    \<Rightarrow> (agent_id \<Rightarrow> 's \<Rightarrow> 's) \<Rightarrow> registry_op \<Rightarrow> 's \<Rightarrow> 's" where
  "registry_exec enter leave ban (Join a c k) s = snd (enter a c k s)"
| "registry_exec enter leave ban (Leave a c) s = snd (leave a c s)"
| "registry_exec enter leave ban (Ban a) s = ban a s"

locale revocable_registry =
  fixes enter :: "agent_id \<Rightarrow> chan_id \<Rightarrow> watch_id \<Rightarrow> 's \<Rightarrow> bool \<times> 's"
    and leave :: "agent_id \<Rightarrow> chan_id \<Rightarrow> 's \<Rightarrow> bool \<times> 's"
    and ban :: "agent_id \<Rightarrow> 's \<Rightarrow> 's"
    and current :: "'s \<Rightarrow> agent_id \<Rightarrow> chan_id option"
    and banned :: "'s \<Rightarrow> agent_id \<Rightarrow> bool"
  assumes enter_banned: "banned s a \<Longrightarrow> enter a c k s = (False, s)"
    and enter_ok: "\<not> banned s a \<Longrightarrow> fst (enter a c k s)"
    and enter_current: "\<not> banned s a \<Longrightarrow>
          current (snd (enter a c k s)) b = (if b = a then Some c else current s b)"
    and enter_keeps_bans: "banned (snd (enter a c k s)) b = banned s b"
    and leave_iff: "fst (leave a c s) \<longleftrightarrow> current s a = Some c"
    and leave_current: "current (snd (leave a c s)) b =
          (if b = a \<and> current s a = Some c then None else current s b)"
    and leave_keeps_bans: "banned (snd (leave a c s)) b = banned s b"
    and ban_current: "current (ban a s) b = (if b = a then None else current s b)"
    and ban_banned: "banned (ban a s) b \<longleftrightarrow> b = a \<or> banned s b"
begin

lemma exec_keeps_ban: "banned s a \<Longrightarrow> banned (registry_exec enter leave ban op s) a"
  by (cases op) (auto simp: enter_keeps_bans leave_keeps_bans ban_banned)

lemma exec_keeps_offline:
  assumes "banned s a" "current s a = None"
  shows "current (registry_exec enter leave ban op s) a = None"
proof (cases op)
  case (Join b c k)
  then show ?thesis using assms
    by (cases "banned s b") (auto simp: enter_banned enter_current)
qed (use assms in \<open>auto simp: leave_current ban_current\<close>)

lemma run_keeps_ban_and_offline:
  assumes "banned s a" "current s a = None"
  shows "banned (fold (registry_exec enter leave ban) ops s) a \<and>
         current (fold (registry_exec enter leave ban) ops s) a = None"
  using assms by (induction ops arbitrary: s) (auto simp: exec_keeps_ban exec_keeps_offline)

lemma banned_for_good:
  "current (fold (registry_exec enter leave ban) ops (ban a s)) a = None \<and>
   enter a c k (fold (registry_exec enter leave ban) ops (ban a s)) =
     (False, fold (registry_exec enter leave ban) ops (ban a s))"
  using run_keeps_ban_and_offline [of "ban a s" a ops]
  by (simp add: ban_banned ban_current enter_banned)

lemma stale_leave_ignored:
  "\<not> banned s a \<Longrightarrow> c \<noteq> d \<Longrightarrow>
   \<not> fst (leave a d (snd (enter a c k s))) \<and>
   current (snd (leave a d (snd (enter a c k s)))) a = Some c"
  by (simp add: leave_iff leave_current enter_current)

end

section \<open>Concurrent sends and registry operations\<close>

text \<open>
  Any number of \<open>send\<close> calls run beside registrations, cleanups and revocations. The system
  holds the registry, each started call (its agent, its message and where it stands) and the
  agents whose \<open>disconnect\<close> is between its two lock regions.
\<close>

record 'v session_system =
  ss_registry :: session_registry
  ss_sends :: "nat \<Rightarrow> (agent_id \<times> 'v \<times> send_pc) option"
  ss_disconnecting :: "agent_id list"

datatype 'v label =
    Registered agent_id chan_id bool
  | Unregistered agent_id chan_id bool
  | Marked agent_id
  | Removed agent_id
  | Started nat agent_id 'v
  | Sent nat agent_id "'v effect list"

inductive session_step ::
  "'o server_message session_system \<Rightarrow> 'o server_message label \<Rightarrow> 'o server_message session_system \<Rightarrow> bool" where
  do_register:
    "register a c k (ss_registry s) = (b, r, effs :: 'o server_message effect list) \<Longrightarrow>
     session_step s (Registered a c b) (s\<lparr>ss_registry := r\<rparr>)"
| do_unregister:
    "unregister a c (ss_registry s) = (b, r, effs :: 'o server_message effect list) \<Longrightarrow>
     session_step s (Unregistered a c b) (s\<lparr>ss_registry := r\<rparr>)"
| do_mark:
    "session_step s (Marked a)
       (s\<lparr>ss_registry := disconnect_mark a (ss_registry s),
          ss_disconnecting := a # ss_disconnecting s\<rparr>)"
| do_remove:
    "a \<in> set (ss_disconnecting s) \<Longrightarrow> disconnect_remove a (ss_registry s) = (r, effs :: 'o server_message effect list) \<Longrightarrow>
     session_step s (Removed a)
       (s\<lparr>ss_registry := r, ss_disconnecting := remove1 a (ss_disconnecting s)\<rparr>)"
| do_start:
    "ss_sends s i = None \<Longrightarrow>
     session_step s (Started i a m) (s\<lparr>ss_sends := (ss_sends s)(i \<mapsto> (a, m, LoopHead))\<rparr>)"
| do_send:
    "ss_sends s i = Some (a, m, pc) \<Longrightarrow>
     session_send_step (ss_registry s) a m pc w = Some (pc', effs) \<Longrightarrow>
     session_step s (Sent i a effs) (s\<lparr>ss_sends := (ss_sends s)(i \<mapsto> (a, m, pc'))\<rparr>)"

inductive session_run ::
  "'o server_message session_system \<Rightarrow> 'o server_message label list \<Rightarrow> 'o server_message session_system \<Rightarrow> bool" where
  run_nil: "session_run s [] s"
| run_cons: "session_step s l t \<Longrightarrow> session_run t ls u \<Longrightarrow> session_run s (l # ls) u"

inductive_cases session_step_sentE: "session_step s (Sent i a effs) t"
inductive_cases session_step_registeredE: "session_step s (Registered a c b) t"
inductive_cases session_run_ConsE: "session_run s (l # ls) u"
inductive_simps session_run_Nil: "session_run s [] u"

text \<open>The messages a label commits to a channel on behalf of the call \<open>i\<close>, or to the agent \<open>a\<close>.\<close>

fun pushed :: "'v effect list \<Rightarrow> (chan_id \<times> 'v) list" where
  "pushed [] = []"
| "pushed (PermitSend c v # es) = (c, v) # pushed es"
| "pushed (e # es) = pushed es"

fun committed_by :: "nat \<Rightarrow> 'v label \<Rightarrow> (chan_id \<times> 'v) list" where
  "committed_by i (Sent j a effs) = (if i = j then pushed effs else [])"
| "committed_by i _ = []"

fun committed_to :: "agent_id \<Rightarrow> 'v label \<Rightarrow> (chan_id \<times> 'v) list" where
  "committed_to a (Sent j b effs) = (if a = b then pushed effs else [])"
| "committed_to a _ = []"

definition commits_by :: "nat \<Rightarrow> 'v label list \<Rightarrow> (chan_id \<times> 'v) list" where
  "commits_by i ls = concat (map (committed_by i) ls)"

definition commits_to :: "agent_id \<Rightarrow> 'v label list \<Rightarrow> (chan_id \<times> 'v) list" where
  "commits_to a ls = concat (map (committed_to a) ls)"

definition system_start :: "'o server_message session_system" where
  "system_start =
     \<lparr>ss_registry = session_registry_new, ss_sends = (\<lambda>i. None), ss_disconnecting = []\<rparr>"

section \<open>Lemmas on the registry\<close>

lemmas session_defs = register_def unregister_def disconnect_def disconnect_mark_def
  disconnect_remove_def is_current_def registered_sender_new_def

definition current_channel :: "session_registry \<Rightarrow> agent_id \<Rightarrow> chan_id option" where
  "current_channel r a = map_option rs_sender (hm_get (sessions r) a)"

definition session_join :: "agent_id \<Rightarrow> chan_id \<Rightarrow> watch_id \<Rightarrow> session_registry \<Rightarrow> bool \<times> session_registry" where
  "session_join a c k r =
     (case (register a c k r :: bool \<times> session_registry \<times> unit effect list) of (b, r', _) \<Rightarrow> (b, r'))"

definition session_leave :: "agent_id \<Rightarrow> chan_id \<Rightarrow> session_registry \<Rightarrow> bool \<times> session_registry" where
  "session_leave a c r =
     (case (unregister a c r :: bool \<times> session_registry \<times> unit effect list) of (b, r', _) \<Rightarrow> (b, r'))"

definition session_ban :: "agent_id \<Rightarrow> session_registry \<Rightarrow> session_registry" where
  "session_ban a r = fst (disconnect a r :: _ \<times> unit effect list)"

interpretation sessions: revocable_registry session_join session_leave session_ban current_channel
  "\<lambda>r a. a \<in> revoked r"
  by unfold_locales
     (auto simp: session_join_def session_leave_def session_ban_def current_channel_def
        session_defs table_simps split: option.splits)

section \<open>Lemmas on concurrent runs\<close>

lemma commits_simps [simp]:
  "commits_by i [] = []"
  "commits_by i (l # ls) = committed_by i l @ commits_by i ls"
  "commits_to a [] = []"
  "commits_to a (l # ls) = committed_to a l @ commits_to a ls"
  by (simp_all add: commits_by_def commits_to_def)

lemma send_step_pushed:
  assumes "send_to_current_step senders rv a errs v pc w = Some (pc', effs)"
  shows "pushed effs = [] \<and> pc' \<noteq> Returned (Inr ()) \<or>
         (\<exists>c current. pushed effs = [(c, v)] \<and> pc = HoldingPermit c \<and> pc' = Returned (Inr ()) \<and>
            a \<notin> rv \<and> hm_get senders a = Some current \<and> rs_sender current = c)"
  using assms
  by (induction senders rv a errs v pc w rule: send_to_current_step.induct)
     (auto simp: send_acquire_def send_reserve_failed_def send_commit_def
           split: if_splits option.splits)

lemma send_step_live: "send_to_current_step senders rv a errs v pc w = Some q \<Longrightarrow> pc \<noteq> Returned r"
  by (cases pc) auto

lemma session_step_revoked_mono:
  "session_step s l t \<Longrightarrow> revoked (ss_registry s) \<subseteq> revoked (ss_registry t)"
  by (induction rule: session_step.induct) (auto simp: session_defs split: if_splits)

lemma session_run_revoked_mono:
  "session_run s ls t \<Longrightarrow> revoked (ss_registry s) \<subseteq> revoked (ss_registry t)"
  by (induction rule: session_run.induct) (auto dest: session_step_revoked_mono)

lemma session_step_revoked_silent:
  "session_step s l t \<Longrightarrow> a \<in> revoked (ss_registry s) \<Longrightarrow> committed_to a l = []"
  by (induction rule: session_step.induct)
     (auto simp: session_send_step_def dest: send_step_pushed)

lemma session_step_revoked_refused:
  "session_step s l t \<Longrightarrow> a \<in> revoked (ss_registry s) \<Longrightarrow> l \<noteq> Registered a c True"
  by (induction rule: session_step.induct) (auto simp: register_def)

definition revocation_pending :: "'o server_message session_system \<Rightarrow> bool" where
  "revocation_pending s \<longleftrightarrow>
     (\<forall>a. a \<in> revoked (ss_registry s) \<longrightarrow> is_online (ss_registry s) a
        \<longrightarrow> a \<in> set (ss_disconnecting s))"

lemma session_step_revocation_pending:
  "session_step s l t \<Longrightarrow> revocation_pending s \<Longrightarrow> revocation_pending t"
proof (induction rule: session_step.induct)
  case (do_remove a s r effs)
  then show ?case
    by (auto simp: revocation_pending_def is_online_def session_defs table_simps
                   in_set_remove1 split: if_splits)
qed (auto simp: revocation_pending_def is_online_def session_defs table_simps split: if_splits)

lemma session_run_revocation_pending:
  "session_run s ls t \<Longrightarrow> revocation_pending s \<Longrightarrow> revocation_pending t"
  by (induction rule: session_run.induct) (auto intro: session_step_revocation_pending)

lemma session_run_revoked_silent:
  "session_run s ls t \<Longrightarrow> a \<in> revoked (ss_registry s) \<Longrightarrow>
   commits_to a ls = [] \<and> Registered a c True \<notin> set ls"
proof (induction rule: session_run.induct)
  case (run_cons s l t ls u)
  then have "a \<in> revoked (ss_registry t)"
    using session_step_revoked_mono by blast
  with run_cons show ?case
    using session_step_revoked_silent session_step_revoked_refused by fastforce
qed simp

text \<open>What one step does to the call \<open>i\<close>: a finished call is left alone.\<close>

lemma session_step_send:
  assumes "session_step s l t" "ss_sends s i = Some (a, v, pc)"
  obtains (kept) "ss_sends t i = Some (a, v, pc)" "committed_by i l = []"
  | (moved) w pc' effs where "l = Sent i a effs" "ss_sends t i = Some (a, v, pc')"
      "session_send_step (ss_registry s) a v pc w = Some (pc', effs)"
proof -
  from assms have
    "ss_sends t i = Some (a, v, pc) \<and> committed_by i l = [] \<or>
     (\<exists>w pc' effs. l = Sent i a effs \<and> ss_sends t i = Some (a, v, pc') \<and>
        session_send_step (ss_registry s) a v pc w = Some (pc', effs))"
  proof (induction rule: session_step.induct)
    case (do_send s j b m q w q' effs)
    then show ?case by (cases "i = j") auto
  qed auto
  with kept moved show thesis by blast
qed

lemma session_run_finished_send:
  "session_run s ls t \<Longrightarrow> ss_sends s i = Some (a, v, Returned r) \<Longrightarrow>
   ss_sends t i = Some (a, v, Returned r) \<and> commits_by i ls = []"
proof (induction rule: session_run.induct)
  case (run_cons s l t ls u)
  from run_cons.hyps(1) run_cons.prems show ?case
  proof (cases rule: session_step_send)
    case kept
    with run_cons show ?thesis by simp
  next
    case (moved w pc' effs)
    then show ?thesis by (simp add: session_send_step_def)
  qed
qed simp

lemma session_run_commits:
  "session_run s ls t \<Longrightarrow> ss_sends s i = Some (a, v, pc) \<Longrightarrow> pc \<noteq> Returned (Inr ()) \<Longrightarrow>
   \<exists>pc'. ss_sends t i = Some (a, v, pc') \<and>
     (if pc' = Returned (Inr ()) then \<exists>c. commits_by i ls = [(c, v)]
      else commits_by i ls = [])"
proof (induction arbitrary: pc rule: session_run.induct)
  case (run_cons s l t ls u)
  from run_cons.hyps(1) run_cons.prems(1) show ?case
  proof (cases rule: session_step_send)
    case kept
    show ?thesis
      using run_cons.IH [OF kept(1) run_cons.prems(2)]
      unfolding commits_simps kept(2) append_Nil .
  next
    case (moved w pc' effs)
    show ?thesis
    proof (cases "pc' = Returned (Inr ())")
      case True
      with moved have "\<exists>c. pushed effs = [(c, v)]"
        using send_step_pushed unfolding session_send_step_def by fast
      with True moved show ?thesis
        using session_run_finished_send [OF run_cons.hyps(2)] by auto
    next
      case False
      with moved have "pushed effs = []"
        using send_step_pushed unfolding session_send_step_def by fast
      then have none: "committed_by i l = []" using moved(1) by simp
      show ?thesis using run_cons.IH [OF moved(2) False]
        unfolding commits_simps none append_Nil .
    qed
  qed
qed simp

lemma session_run_append:
  "session_run s ls t \<Longrightarrow> session_run t ms u \<Longrightarrow> session_run s (ls @ ms) u"
  by (induction rule: session_run.induct) (auto intro: session_run.intros)

lemma system_start_pending: "revocation_pending system_start"
  by (simp add: revocation_pending_def system_start_def session_registry_new_def)

text \<open>A run that delivers: one agent on channel 1 and one call, whose channel has capacity.\<close>

definition demo_system :: "agent_id set \<Rightarrow> send_pc \<Rightarrow> unit server_message session_system" where
  "demo_system rv pc =
     \<lparr>ss_registry = \<lparr>sessions = [(7, \<lparr>rs_sender = 1, rs_changes = 1\<rparr>)], revoked = rv\<rparr>,
      ss_sends = [0 \<mapsto> (7, EmptyMessage, pc)], ss_disconnecting = []\<rparr>"

lemma demo_send:
  assumes "session_send_step (ss_registry (demo_system rv pc)) 7 EmptyMessage pc w = Some (pc', effs)"
  shows "session_step (demo_system rv pc) (Sent 0 7 effs) (demo_system rv pc')"
proof -
  have "ss_sends (demo_system rv pc) 0 = Some (7, EmptyMessage, pc)"
    by (simp add: demo_system_def)
  from do_send [OF this assms] show ?thesis by (simp add: demo_system_def)
qed

lemmas demo_eval = demo_system_def session_send_step_def send_acquire_def send_commit_def hm_get_def

lemma demo_steps:
  "session_step (demo_system {} LoopHead) (Sent 0 7 []) (demo_system {} (Waiting 1 1))"
  "session_step (demo_system {} (Waiting 1 1)) (Sent 0 7 []) (demo_system {} (HoldingPermit 1))"
  "session_step (demo_system {} (HoldingPermit 1)) (Sent 0 7 [PermitSend 1 EmptyMessage])
     (demo_system {} (Returned (Inr ())))"
  by (rule demo_send [where w = Proceed], simp add: demo_eval)
     (rule demo_send [where w = ReserveOk], simp add: demo_eval,
      rule demo_send [where w = Proceed], simp add: demo_eval)

lemma demo_run:
  "session_run (demo_system {} LoopHead)
     [Sent 0 7 [], Sent 0 7 [], Sent 0 7 [PermitSend 1 EmptyMessage]]
     (demo_system {} (Returned (Inr ())))"
  by (rule run_cons [OF demo_steps(1) run_cons [OF demo_steps(2) run_cons [OF demo_steps(3) run_nil]]])

section \<open>Properties\<close>

text \<open>
  (C14) A message is committed only to the channel that is the agent's registered one at that
  very moment, for an agent that is not revoked; the call that commits then returns \<open>Ok\<close>, in any
  interleaving with registrations, cleanups and revocations.
\<close>

theorem commit_reaches_current_channel:
  assumes "session_step s (Sent i a effs) t" "(c, v) \<in> set (pushed effs)"
  shows "a \<notin> revoked (ss_registry s) \<and>
     current_channel (ss_registry s) a = Some c \<and>
     ss_sends s i = Some (a, v, HoldingPermit c) \<and>
     ss_sends t i = Some (a, v, Returned (Inr ()))"
  using assms
  by (auto elim!: session_step_sentE dest!: send_step_pushed
           simp: session_send_step_def current_channel_def)

theorem commit_reaches_current_channel_witness:
  "current_channel (ss_registry (demo_system {} (HoldingPermit 1))) 7 = Some 1 \<and>
   ss_sends (demo_system {} (Returned (Inr ()))) 0 = Some (7, EmptyMessage, Returned (Inr ()))"
  using commit_reaches_current_channel [OF demo_steps(3), of 1 EmptyMessage] by simp

text \<open>
  (C30) A call delivers its own message at most once, and exactly when it returns \<open>Ok\<close>: over any
  run, a call that ends with \<open>Ok\<close> has committed its message once to one channel, and a call
  that failed, timed out or still waits has committed nothing.
\<close>

theorem send_delivers_once_iff_ok:
  assumes "session_run s ls t" "ss_sends s i = Some (a, v, LoopHead)"
  shows "\<exists>pc. ss_sends t i = Some (a, v, pc) \<and>
           (if pc = Returned (Inr ()) then \<exists>c. commits_by i ls = [(c, v)] else commits_by i ls = [])"
  using session_run_commits [OF assms] by simp

theorem send_delivers_once_witness:
  "\<exists>pc. ss_sends (demo_system {} (Returned (Inr ()))) 0 = Some (7, EmptyMessage, pc) \<and>
     (if pc = Returned (Inr ())
      then \<exists>c. commits_by 0 [Sent 0 7 [], Sent 0 7 [], Sent 0 7 [PermitSend 1 (EmptyMessage :: unit server_message)]]
                = [(c, EmptyMessage)]
      else commits_by 0 [Sent 0 7 [], Sent 0 7 [], Sent 0 7 [PermitSend 1 (EmptyMessage :: unit server_message)]] = [])"
  by (rule send_delivers_once_iff_ok [OF demo_run]) (simp add: demo_system_def)

text \<open>
  Once \<open>disconnect\<close> has marked an agent revoked, no later step of any run commits a message
  to it or lets it register again, and as soon as the disconnect has run its second lock region
  the agent is offline.
\<close>

theorem revoked_agent_unreachable:
  assumes "session_run system_start ls s" "session_run s (Marked a # ms) t"
  shows "commits_to a ms = [] \<and>
     Registered a c True \<notin> set ms \<and>
     (a \<notin> set (ss_disconnecting t) \<longrightarrow> \<not> is_online (ss_registry t) a)"
proof (intro conjI impI)
  obtain u where u: "session_step s (Marked a) u" and run: "session_run u ms t"
    using assms(2) by (elim session_run_ConsE)
  have "a \<in> revoked (ss_registry u)"
    using u by (auto elim: session_step.cases simp: disconnect_mark_def)
  note silent = session_run_revoked_silent [OF run this]
  show "commits_to a ms = []" "Registered a c True \<notin> set ms" using silent by auto
  have "a \<in> revoked (ss_registry t)"
    using session_run_revoked_mono [OF run] \<open>a \<in> revoked (ss_registry u)\<close> by blast
  moreover have "revocation_pending t"
    using session_run_revocation_pending [OF session_run_append [OF assms] system_start_pending] .
  ultimately show "a \<notin> set (ss_disconnecting t) \<Longrightarrow> \<not> is_online (ss_registry t) a"
    by (auto simp: revocation_pending_def)
qed

theorem revoked_agent_unreachable_witness:
  "\<exists>t :: unit server_message session_system. session_run system_start [Marked 7, Removed 7] t \<and>
     commits_to 7 [Removed 7 :: unit server_message label] = [] \<and>
     (7 \<notin> set (ss_disconnecting t) \<longrightarrow> \<not> is_online (ss_registry t) 7)"
proof -
  let ?s = "system_start :: unit server_message session_system"
  let ?m = "?s\<lparr>ss_registry := disconnect_mark 7 (ss_registry ?s), ss_disconnecting := 7 # ss_disconnecting ?s\<rparr>"
  obtain r and effs :: "unit server_message effect list"
    where rm: "disconnect_remove 7 (ss_registry ?m) = (r, effs)" by fastforce
  have run: "session_run ?s [Marked 7, Removed 7]
      (?m\<lparr>ss_registry := r, ss_disconnecting := remove1 7 (ss_disconnecting ?m)\<rparr>)"
    by (rule run_cons [OF do_mark run_cons [OF do_remove [OF _ rm] run_nil]]) simp
  from revoked_agent_unreachable [OF run_nil run] show ?thesis using run by blast
qed

end
