(* ===== verification/Io_Streams.thy ===== *)
theory Io_Streams
  imports Agent_Sessions
begin

text \<open>
  The IO registry of the gRPC server (\<open>grpc/session.rs\<close>, \<open>IoRegistry\<close>): one outgoing stream
  per agent and one subscriber per stream id, through which terminals, file transfers and NAT
  tunnels exchange frames with an agent.

  Parameters: \<open>uuid_show\<close> is the uuid crate's text form of an agent id, \<open>is_closed\<close> tokio's
  answer whether the receiving end of a channel is gone. Effects and lock regions are as in
  \<open>Agent_Sessions\<close>.
\<close>

section \<open>Frames\<close>

datatype io_payload = IoData string | IoClose string | IoError string string

record io_frame =
  if_stream_id :: string
  if_sequence :: nat
  if_agent_id :: string
  if_payload :: "io_payload option"

definition IO_STREAM_CLOSED_CODE :: string where
  "IO_STREAM_CLOSED_CODE = ''agent_io_stream_closed''"

definition MAX_IO_STREAM_ID_BYTES :: nat where [limit_simps]: "MAX_IO_STREAM_ID_BYTES = 128"
definition MAX_IO_FRAME_DATA_BYTES :: nat where [limit_simps]: "MAX_IO_FRAME_DATA_BYTES = 1024 * 1024"
definition MAX_IO_CONTROL_TEXT_BYTES :: nat where [limit_simps]: "MAX_IO_CONTROL_TEXT_BYTES = 4096"
definition MAX_ACTIVE_IO_STREAMS :: nat where [limit_simps]: "MAX_ACTIVE_IO_STREAMS = 1024"

definition valid_io_stream_id :: "string \<Rightarrow> bool" where
  "valid_io_stream_id stream_id \<longleftrightarrow>
     stream_id \<noteq> [] \<and> length stream_id \<le> MAX_IO_STREAM_ID_BYTES \<and> \<not> has_control stream_id"

definition valid_io_frame_from_agent :: "(agent_id \<Rightarrow> string) \<Rightarrow> agent_id \<Rightarrow> io_frame \<Rightarrow> bool" where
  "valid_io_frame_from_agent uuid_show a frame =
     (if \<not> valid_io_stream_id (if_stream_id frame) then False
      else if if_agent_id frame \<noteq> [] \<and> if_agent_id frame \<noteq> uuid_show a then False
      else case if_payload frame of
             Some (IoData bytes) \<Rightarrow> length bytes \<le> MAX_IO_FRAME_DATA_BYTES
           | Some (IoClose reason) \<Rightarrow> length reason \<le> MAX_IO_CONTROL_TEXT_BYTES
           | Some (IoError code message) \<Rightarrow>
               length code \<le> MAX_IO_STREAM_ID_BYTES \<and> length message \<le> MAX_IO_CONTROL_TEXT_BYTES
           | None \<Rightarrow> True)"

section \<open>State\<close>

record io_subscriber =
  sub_agent_id :: agent_id
  sub_sender :: chan_id
  sub_changes :: watch_id

type_synonym subscriber_table = "(string, io_subscriber) table"

record io_registry =
  agent_streams :: sender_table
  stream_subscribers :: subscriber_table
  revoked_agents :: "agent_id set"

definition io_registry_new :: io_registry where
  "io_registry_new = \<lparr>agent_streams = [], stream_subscribers = [], revoked_agents = {}\<rparr>"

definition notify_closed :: "io_subscriber \<Rightarrow> io_frame effect list" where
  "notify_closed s = [NotifyChanged (sub_changes s)]"

definition prune_closed_io_subscribers ::
  "(chan_id \<Rightarrow> bool) \<Rightarrow> subscriber_table \<Rightarrow> subscriber_table \<times> io_frame effect list" where
  "prune_closed_io_subscribers is_closed subs =
     (hm_retain (\<lambda>_ s. \<not> is_closed (sub_sender s)) subs,
      concat (map (\<lambda>(_, s). if is_closed (sub_sender s) then notify_closed s else []) subs))"

fun remove_streams :: "string list \<Rightarrow> subscriber_table \<Rightarrow> subscriber_table \<times> subscriber_table" where
  "remove_streams [] subs = ([], subs)"
| "remove_streams (i # is) subs =
     (case hm_get subs i of
        None \<Rightarrow> remove_streams is subs
      | Some s \<Rightarrow> (case remove_streams is (hm_remove i subs) of (taken, rest) \<Rightarrow> ((i, s) # taken, rest)))"

definition take_agent_subscribers ::
  "agent_id \<Rightarrow> subscriber_table \<Rightarrow> subscriber_table \<times> subscriber_table" where
  "take_agent_subscribers a subs =
     remove_streams (map fst (filter (\<lambda>(_, s). sub_agent_id s = a) subs)) subs"

definition closed_frame :: "(agent_id \<Rightarrow> string) \<Rightarrow> agent_id \<Rightarrow> string \<Rightarrow> string \<Rightarrow> io_frame" where
  "closed_frame uuid_show a reason stream_id =
     \<lparr>if_stream_id = stream_id, if_sequence = 0, if_agent_id = uuid_show a,
      if_payload = Some (IoError IO_STREAM_CLOSED_CODE reason)\<rparr>"

definition notify_closed_subscribers ::
  "(agent_id \<Rightarrow> string) \<Rightarrow> agent_id \<Rightarrow> string \<Rightarrow> subscriber_table \<Rightarrow> io_frame effect list" where
  "notify_closed_subscribers uuid_show a reason subs =
     concat (map (\<lambda>(stream_id, s).
       notify_closed s @ [TrySend (sub_sender s) (closed_frame uuid_show a reason stream_id)]) subs)"

section \<open>Operations\<close>

definition register_agent ::
  "(agent_id \<Rightarrow> string) \<Rightarrow> agent_id \<Rightarrow> chan_id \<Rightarrow> watch_id \<Rightarrow> io_registry
    \<Rightarrow> bool \<times> io_registry \<times> io_frame effect list" where
  "register_agent uuid_show a sender changes r =
     (if a \<in> revoked_agents r then (False, r, [])
      else
        let streams = hm_insert a (registered_sender_new sender changes) (agent_streams r)
        in case hm_get (agent_streams r) a of
             Some previous \<Rightarrow>
               (case take_agent_subscribers a (stream_subscribers r) of (closed, subs) \<Rightarrow>
                 (True, r\<lparr>agent_streams := streams, stream_subscribers := subs\<rparr>,
                  notify_changed previous
                    @ notify_closed_subscribers uuid_show a ''Agent IO stream was replaced'' closed))
           | None \<Rightarrow> (True, r\<lparr>agent_streams := streams\<rparr>, []))"

definition unregister_agent ::
  "(agent_id \<Rightarrow> string) \<Rightarrow> agent_id \<Rightarrow> chan_id \<Rightarrow> io_registry
    \<Rightarrow> bool \<times> io_registry \<times> io_frame effect list" where
  "unregister_agent uuid_show a sender r =
     (if \<not> is_current (agent_streams r) a sender then (False, r, [])
      else case take_agent_subscribers a (stream_subscribers r) of (closed, subs) \<Rightarrow>
        (True,
         r\<lparr>agent_streams := hm_remove a (agent_streams r), stream_subscribers := subs\<rparr>,
         replaced_effects (hm_get (agent_streams r) a)
           @ notify_closed_subscribers uuid_show a ''Agent IO stream disconnected'' closed))"

definition disconnect_agent_mark :: "agent_id \<Rightarrow> io_registry \<Rightarrow> io_registry" where
  "disconnect_agent_mark a r = r\<lparr>revoked_agents := insert a (revoked_agents r)\<rparr>"

definition disconnect_agent_remove ::
  "(agent_id \<Rightarrow> string) \<Rightarrow> agent_id \<Rightarrow> io_registry \<Rightarrow> io_registry \<times> io_frame effect list" where
  "disconnect_agent_remove uuid_show a r =
     (case take_agent_subscribers a (stream_subscribers r) of (closed, subs) \<Rightarrow>
        (r\<lparr>agent_streams := hm_remove a (agent_streams r), stream_subscribers := subs\<rparr>,
         replaced_effects (hm_get (agent_streams r) a)
           @ notify_closed_subscribers uuid_show a ''Agent was revoked'' closed))"

definition disconnect_agent ::
  "(agent_id \<Rightarrow> string) \<Rightarrow> agent_id \<Rightarrow> io_registry \<Rightarrow> io_registry \<times> io_frame effect list" where
  "disconnect_agent uuid_show a r = disconnect_agent_remove uuid_show a (disconnect_agent_mark a r)"

text \<open>
  \<open>admit_subscriber\<close> is the table update of \<open>subscribe_stream\<close>: closed subscribers leave, a
  stream of another agent is refused, and a new stream needs room. The receiver handed back
  is live exactly when the new sender \<open>tx\<close> entered the table.
\<close>

definition admit_subscriber ::
  "(chan_id \<Rightarrow> bool) \<Rightarrow> string \<Rightarrow> io_subscriber \<Rightarrow> subscriber_table \<Rightarrow> subscriber_table" where
  "admit_subscriber is_closed stream_id s subs =
     (let pruned = fst (prune_closed_io_subscribers is_closed subs)
      in case hm_get pruned stream_id of
           Some existing \<Rightarrow>
             if sub_agent_id existing \<noteq> sub_agent_id s then pruned
             else hm_insert stream_id s pruned
         | None \<Rightarrow>
             if hm_len pruned \<ge> MAX_ACTIVE_IO_STREAMS then pruned
             else hm_insert stream_id s pruned)"

definition subscribe_effects ::
  "(chan_id \<Rightarrow> bool) \<Rightarrow> string \<Rightarrow> agent_id \<Rightarrow> subscriber_table \<Rightarrow> io_frame effect list" where
  "subscribe_effects is_closed stream_id a subs =
     (case prune_closed_io_subscribers is_closed subs of (pruned, effs) \<Rightarrow>
        effs @ (case hm_get pruned stream_id of
                  Some existing \<Rightarrow> if sub_agent_id existing \<noteq> a then [] else notify_closed existing
                | None \<Rightarrow> []))"

definition subscribe_stream ::
  "(chan_id \<Rightarrow> bool) \<Rightarrow> string \<Rightarrow> agent_id \<Rightarrow> chan_id \<Rightarrow> watch_id \<Rightarrow> io_registry
    \<Rightarrow> io_registry \<times> io_frame effect list" where
  "subscribe_stream is_closed stream_id a tx changes r =
     (if \<not> valid_io_stream_id stream_id then (r, [])
      else if a \<in> revoked_agents r then (r, [])
      else if hm_get (agent_streams r) a = None then (r, [])
      else
        (r\<lparr>stream_subscribers :=
             admit_subscriber is_closed stream_id
               \<lparr>sub_agent_id = a, sub_sender = tx, sub_changes = changes\<rparr> (stream_subscribers r)\<rparr>,
         subscribe_effects is_closed stream_id a (stream_subscribers r)))"

definition unsubscribe_stream ::
  "(chan_id \<Rightarrow> bool) \<Rightarrow> string \<Rightarrow> io_registry \<Rightarrow> io_registry \<times> io_frame effect list" where
  "unsubscribe_stream is_closed stream_id r =
     (case prune_closed_io_subscribers is_closed (stream_subscribers r) of (pruned, effs) \<Rightarrow>
        (r\<lparr>stream_subscribers := hm_remove stream_id pruned\<rparr>,
         effs @ (case hm_get pruned stream_id of None \<Rightarrow> [] | Some s \<Rightarrow> notify_closed s)))"

definition io_send_errors :: send_errors where
  "io_send_errors =
     \<lparr>missing_error = ''Agent IO stream not found'',
      closed_error = ''Agent IO stream channel is closed'',
      timeout_error = ''Timed out waiting for Agent IO stream capacity''\<rparr>"

text \<open>The checks of \<open>send_to_agent\<close>, in front of the loop of \<open>send_to_current\<close>.\<close>

definition send_to_agent_checks ::
  "(agent_id \<Rightarrow> string) \<Rightarrow> (chan_id \<Rightarrow> bool) \<Rightarrow> io_registry \<Rightarrow> agent_id \<Rightarrow> io_frame \<Rightarrow> string + unit" where
  "send_to_agent_checks uuid_show is_closed r a frame =
     (if if_agent_id frame \<noteq> [] \<and> if_agent_id frame \<noteq> uuid_show a
      then Inl ''IoFrame agent_id does not match target Agent''
      else if if_stream_id frame \<noteq> [] then
        (case hm_get (stream_subscribers r) (if_stream_id frame) of
           Some s \<Rightarrow>
             if \<not> is_closed (sub_sender s) \<and> sub_agent_id s \<noteq> a
             then Inl ''IO stream is bound to a different Agent''
             else Inr ()
         | None \<Rightarrow> Inr ())
      else Inr ())"

definition send_to_agent_begin ::
  "(agent_id \<Rightarrow> string) \<Rightarrow> (chan_id \<Rightarrow> bool) \<Rightarrow> io_registry \<Rightarrow> agent_id \<Rightarrow> io_frame \<Rightarrow> send_pc" where
  "send_to_agent_begin uuid_show is_closed r a frame =
     (case send_to_agent_checks uuid_show is_closed r a frame of
        Inl e \<Rightarrow> Returned (Inl e)
      | Inr _ \<Rightarrow> LoopHead)"

definition send_to_agent_step ::
  "io_registry \<Rightarrow> agent_id \<Rightarrow> io_frame \<Rightarrow> send_pc \<Rightarrow> wake \<Rightarrow> (send_pc \<times> io_frame effect list) option" where
  "send_to_agent_step r a frame pc w =
     send_to_current_step (agent_streams r) (revoked_agents r) a io_send_errors frame pc w"

text \<open>
  \<open>deliver_from_agent\<close>: the first lock region picks the subscriber, then the frame races the
  subscriber's change notification and a timeout. \<open>changed\<close> says the notification is ready,
  \<open>sent\<close> the outcome of the send when it completed in time. The registry does not change between
  the two lock regions of one call here; what other calls do to the subscriber meanwhile shows in
  \<open>changed\<close>, \<open>sent\<close> and \<open>is_closed_after\<close>.
\<close>

definition deliver_lookup ::
  "(agent_id \<Rightarrow> string) \<Rightarrow> (chan_id \<Rightarrow> bool) \<Rightarrow> io_registry \<Rightarrow> agent_id \<Rightarrow> io_frame
    \<Rightarrow> (io_subscriber \<times> io_frame) option" where
  "deliver_lookup uuid_show is_closed r a frame =
     (if \<not> valid_io_frame_from_agent uuid_show a frame then None
      else case hm_get (stream_subscribers r) (if_stream_id frame) of
             None \<Rightarrow> None
           | Some s \<Rightarrow>
               if sub_agent_id s = a \<and> \<not> is_closed (sub_sender s)
               then Some (s, frame\<lparr>if_agent_id := uuid_show a\<rparr>) else None)"

definition prune_region :: "(chan_id \<Rightarrow> bool) \<Rightarrow> io_registry \<Rightarrow> io_registry \<times> io_frame effect list" where
  "prune_region is_closed r =
     (case prune_closed_io_subscribers is_closed (stream_subscribers r) of (pruned, effs) \<Rightarrow>
        (r\<lparr>stream_subscribers := pruned\<rparr>, effs))"

definition deliver_race :: "bool \<Rightarrow> bool option \<Rightarrow> bool" where
  "deliver_race changed sent = (if changed then False else case sent of None \<Rightarrow> False | Some ok \<Rightarrow> ok)"

definition deliver_from_agent ::
  "(agent_id \<Rightarrow> string) \<Rightarrow> (chan_id \<Rightarrow> bool) \<Rightarrow> (chan_id \<Rightarrow> bool) \<Rightarrow> bool \<Rightarrow> bool option
    \<Rightarrow> agent_id \<Rightarrow> io_frame \<Rightarrow> io_registry \<Rightarrow> bool \<times> io_registry \<times> io_frame effect list" where
  "deliver_from_agent uuid_show is_closed is_closed_after changed sent a frame r =
     (if \<not> valid_io_frame_from_agent uuid_show a frame then (False, r, [])
      else case deliver_lookup uuid_show is_closed r a frame of
        None \<Rightarrow> (case prune_region is_closed r of (r', effs) \<Rightarrow> (False, r', effs))
      | Some (s, stamped) \<Rightarrow>
          if deliver_race changed sent then (True, r, [PermitSend (sub_sender s) stamped])
          else if is_closed_after (sub_sender s) then
            (case prune_region is_closed_after r of (r', effs) \<Rightarrow> (False, r', effs))
          else (False, r, []))"

definition is_agent_online :: "io_registry \<Rightarrow> agent_id \<Rightarrow> bool" where
  "is_agent_online r a = (hm_get (agent_streams r) a \<noteq> None)"

section \<open>Lock regions as steps\<close>

inductive io_step :: "(agent_id \<Rightarrow> string) \<Rightarrow> io_registry \<Rightarrow> io_registry \<Rightarrow> bool" for uuid_show where
  io_register: "register_agent uuid_show a c k r = (b, r', effs) \<Longrightarrow> io_step uuid_show r r'"
| io_unregister: "unregister_agent uuid_show a c r = (b, r', effs) \<Longrightarrow> io_step uuid_show r r'"
| io_mark: "io_step uuid_show r (disconnect_agent_mark a r)"
| io_remove: "disconnect_agent_remove uuid_show a r = (r', effs) \<Longrightarrow> io_step uuid_show r r'"
| io_subscribe: "subscribe_stream is_closed sid a tx k r = (r', effs) \<Longrightarrow> io_step uuid_show r r'"
| io_unsubscribe: "unsubscribe_stream is_closed sid r = (r', effs) \<Longrightarrow> io_step uuid_show r r'"
| io_prune: "prune_region is_closed r = (r', effs) \<Longrightarrow> io_step uuid_show r r'"

definition io_inv :: "io_registry \<Rightarrow> bool" where
  "io_inv r \<longleftrightarrow>
     hm_ok (agent_streams r) \<and> hm_ok (stream_subscribers r) \<and>
     hm_len (stream_subscribers r) \<le> MAX_ACTIVE_IO_STREAMS \<and>
     (\<forall>sid s. hm_get (stream_subscribers r) sid = Some s \<longrightarrow>
        valid_io_stream_id sid \<and> is_agent_online r (sub_agent_id s))"

section \<open>Lemmas\<close>

lemma hm_retain_remove: "hm_retain P (hm_remove k m) = hm_retain (\<lambda>j v. j \<noteq> k \<and> P j v) m"
  by (auto simp: hm_retain_def hm_remove_def intro!: filter_cong)

lemma remove_streams_snd:
  "snd (remove_streams is subs) = hm_retain (\<lambda>i _. i \<notin> set is) subs"
proof (induction "is" subs rule: remove_streams.induct)
  case (1 subs)
  then show ?case by (simp add: hm_retain_def)
next
  case (2 i "is" subs)
  show ?case
  proof (cases "hm_get subs i")
    case None
    then have "i \<notin> fst ` set subs" by (simp add: hm_get_None_iff)
    then have "hm_retain (\<lambda>j _. j \<notin> set is) subs = hm_retain (\<lambda>j _. j \<notin> set (i # is)) subs"
      unfolding hm_retain_def by (intro filter_cong) (auto intro: rev_image_eqI)
    with None 2 show ?thesis by simp
  next
    case (Some s)
    with 2 show ?thesis by (simp add: hm_retain_remove case_prod_unfold)
  qed
qed

lemma remove_streams_fst:
  "distinct is \<Longrightarrow>
   set (fst (remove_streams is subs)) = {(i, s). i \<in> set is \<and> hm_get subs i = Some s}"
proof (induction "is" subs rule: remove_streams.induct)
  case (2 i "is" subs)
  then show ?case
    by (cases "hm_get subs i") (auto simp: table_simps split: prod.split if_splits)
qed simp

definition streams_of :: "agent_id \<Rightarrow> subscriber_table \<Rightarrow> string list" where
  "streams_of a subs = map fst (filter (\<lambda>(_, s). sub_agent_id s = a) subs)"

lemma take_agent_streams_of: "take_agent_subscribers a subs = remove_streams (streams_of a subs) subs"
  by (simp add: take_agent_subscribers_def streams_of_def)

lemma distinct_streams_of: "hm_ok subs \<Longrightarrow> distinct (streams_of a subs)"
  by (simp add: streams_of_def hm_ok_def distinct_map_filter)

lemma in_streams_of:
  assumes "hm_ok subs"
  shows "i \<in> set (streams_of a subs) \<longleftrightarrow> (\<exists>s. hm_get subs i = Some s \<and> sub_agent_id s = a)"
proof
  assume "i \<in> set (streams_of a subs)"
  then obtain s where "(i, s) \<in> set subs" "sub_agent_id s = a"
    by (auto simp: streams_of_def)
  then show "\<exists>s. hm_get subs i = Some s \<and> sub_agent_id s = a"
    using hm_in_get [OF assms] by blast
next
  assume "\<exists>s. hm_get subs i = Some s \<and> sub_agent_id s = a"
  then show "i \<in> set (streams_of a subs)"
    by (force simp: streams_of_def dest: hm_get_Some_in)
qed

lemma take_agent_rest:
  assumes "hm_ok subs"
  shows "snd (take_agent_subscribers a subs) = hm_retain (\<lambda>_ s. sub_agent_id s \<noteq> a) subs"
  unfolding take_agent_streams_of remove_streams_snd hm_retain_def
  using hm_in_get [OF assms] by (intro filter_cong) (auto simp: in_streams_of [OF assms])

lemma take_agent_taken:
  assumes "hm_ok subs"
  shows "set (fst (take_agent_subscribers a subs)) =
         {(i, s). hm_get subs i = Some s \<and> sub_agent_id s = a}"
  unfolding take_agent_streams_of remove_streams_fst [OF distinct_streams_of [OF assms]]
  by (auto simp: in_streams_of [OF assms])

lemma admit_subscriber_cases:
  "admit_subscriber is_closed sid s subs = fst (prune_closed_io_subscribers is_closed subs) \<or>
   admit_subscriber is_closed sid s subs = hm_insert sid s (fst (prune_closed_io_subscribers is_closed subs)) \<and>
   (hm_get (fst (prune_closed_io_subscribers is_closed subs)) sid = None \<longrightarrow>
      hm_len (fst (prune_closed_io_subscribers is_closed subs)) < MAX_ACTIVE_IO_STREAMS)"
  by (auto simp: admit_subscriber_def Let_def split: option.splits)

interpretation io_streams_cap: capped_table "\<lambda>(sid, s). admit_subscriber is_closed sid s" MAX_ACTIVE_IO_STREAMS
  for is_closed
proof
  fix x :: "string \<times> io_subscriber" and m
  show "\<exists>P k v. (case x of (sid, s) \<Rightarrow> admit_subscriber is_closed sid s) m = hm_retain P m \<or>
          (case x of (sid, s) \<Rightarrow> admit_subscriber is_closed sid s) m = hm_insert k v (hm_retain P m) \<and>
          (hm_get (hm_retain P m) k = None \<longrightarrow> hm_len (hm_retain P m) < MAX_ACTIVE_IO_STREAMS)"
    using admit_subscriber_cases [of is_closed "fst x" "snd x" m]
    by (intro exI [of _ "\<lambda>_ s. \<not> is_closed (sub_sender s)"] exI [of _ "fst x"] exI [of _ "snd x"])
       (simp add: prune_closed_io_subscribers_def case_prod_unfold)
qed

lemmas admit_subscriber_ok = io_streams_cap.admit_hm_ok [of _ _ "(sid, s)" for sid s, simplified]
  io_streams_cap.admit_within_cap [of _ _ "(sid, s)" for sid s, simplified]

lemma hm_get_admit:
  assumes "hm_ok subs" "hm_get (admit_subscriber is_closed sid s subs) j = Some t"
  shows "hm_get subs j = Some t \<or> j = sid \<and> t = s"
  using assms
  by (auto simp: admit_subscriber_def prune_closed_io_subscribers_def Let_def table_simps
           split: option.splits if_splits)

lemma io_inv_new: "io_inv io_registry_new"
  by (simp add: io_inv_def io_registry_new_def)

lemma io_inv_retain:
  assumes "io_inv r" "\<And>sid s. hm_get (stream_subscribers r) sid = Some s \<Longrightarrow> P sid s \<Longrightarrow>
      hm_get streams (sub_agent_id s) \<noteq> None" "hm_ok streams"
  shows "io_inv (r\<lparr>agent_streams := streams, stream_subscribers := hm_retain P (stream_subscribers r)\<rparr>)"
  using assms hm_len_retain_le [of P "stream_subscribers r"]
  by (auto simp: io_inv_def is_agent_online_def table_simps split: option.splits if_splits)

lemma io_inv_insert_stream:
  assumes "io_inv r"
  shows "io_inv (r\<lparr>agent_streams := hm_insert a v (agent_streams r)\<rparr>)"
  using assms by (auto simp: io_inv_def is_agent_online_def table_simps)

lemma io_inv_oks: "io_inv r \<Longrightarrow> hm_ok (agent_streams r)" "io_inv r \<Longrightarrow> hm_ok (stream_subscribers r)"
  by (simp_all add: io_inv_def)

lemma io_inv_online:
  "io_inv r \<Longrightarrow> hm_get (stream_subscribers r) sid = Some s \<Longrightarrow> is_agent_online r (sub_agent_id s)"
  by (simp add: io_inv_def)

lemma register_agent_inv:
  assumes "io_inv r" "register_agent uuid_show a c k r = (b, r', effs)"
  shows "io_inv r'"
proof (cases "a \<in> revoked_agents r \<or> hm_get (agent_streams r) a = None")
  case True
  with assms show ?thesis
    by (auto simp: register_agent_def Let_def io_inv_insert_stream split: if_splits)
next
  case False
  then have "r' = r\<lparr>agent_streams := hm_insert a (registered_sender_new c k) (agent_streams r),
      stream_subscribers := snd (take_agent_subscribers a (stream_subscribers r))\<rparr>"
    using assms(2) by (auto simp: register_agent_def Let_def split: prod.splits)
  then show ?thesis
    using assms(1) io_inv_online [OF assms(1)]
    by (auto simp: take_agent_rest io_inv_oks is_agent_online_def table_simps intro!: io_inv_retain)
qed

lemma drop_agent_inv:
  assumes "io_inv r"
  shows "io_inv (r\<lparr>agent_streams := hm_remove a (agent_streams r),
      stream_subscribers := snd (take_agent_subscribers a (stream_subscribers r))\<rparr>)"
  using assms io_inv_online [OF assms]
  by (auto simp: take_agent_rest io_inv_oks is_agent_online_def table_simps intro!: io_inv_retain)

lemma drop_agent_eqs:
  "unregister_agent uuid_show a c r = (b, r', effs) \<Longrightarrow>
     r' = (if is_current (agent_streams r) a c then r\<lparr>agent_streams := hm_remove a (agent_streams r),
             stream_subscribers := snd (take_agent_subscribers a (stream_subscribers r))\<rparr> else r)"
  "disconnect_agent_remove uuid_show a r = (r'', effs') \<Longrightarrow>
     r'' = r\<lparr>agent_streams := hm_remove a (agent_streams r),
             stream_subscribers := snd (take_agent_subscribers a (stream_subscribers r))\<rparr>"
  by (auto simp: unregister_agent_def disconnect_agent_remove_def split: prod.splits if_splits)

lemma subscribe_stream_inv:
  assumes "io_inv r" "subscribe_stream is_closed sid a tx k r = (r', effs)"
  shows "io_inv r'"
proof (cases "r' = r")
  case False
  let ?s = "\<lparr>sub_agent_id = a, sub_sender = tx, sub_changes = k\<rparr>"
  let ?subs = "admit_subscriber is_closed sid ?s (stream_subscribers r)"
  from False assms(2) have r': "r' = r\<lparr>stream_subscribers := ?subs\<rparr>"
    and ok: "valid_io_stream_id sid" "hm_get (agent_streams r) a \<noteq> None"
    by (auto simp: subscribe_stream_def split: if_splits)
  have "hm_ok ?subs" "hm_len ?subs \<le> MAX_ACTIVE_IO_STREAMS"
    using assms(1) by (auto simp: io_inv_def intro: admit_subscriber_ok)
  then show ?thesis
    using assms(1) ok hm_get_admit [OF io_inv_oks(2) [OF assms(1)], of is_closed sid ?s]
    by (fastforce simp: r' io_inv_def is_agent_online_def)
qed (use assms in simp)

lemma prune_region_inv: "io_inv r \<Longrightarrow> io_inv (fst (prune_region is_closed r))"
  using io_inv_retain [of r "\<lambda>_ s. \<not> is_closed (sub_sender s)" "agent_streams r"]
  by (simp add: prune_region_def prune_closed_io_subscribers_def io_inv_oks
        io_inv_online [unfolded is_agent_online_def] del: not_None_eq)

lemma unsubscribe_stream_eq:
  "fst (unsubscribe_stream is_closed sid r) =
   r\<lparr>stream_subscribers := hm_retain (\<lambda>j s. j \<noteq> sid \<and> \<not> is_closed (sub_sender s)) (stream_subscribers r)\<rparr>"
  by (simp add: unsubscribe_stream_def prune_closed_io_subscribers_def hm_remove_def hm_retain_def
        conj_commute case_prod_unfold)

lemma unsubscribe_stream_inv: "io_inv r \<Longrightarrow> io_inv (fst (unsubscribe_stream is_closed sid r))"
  using io_inv_retain [of r "\<lambda>j s. j \<noteq> sid \<and> \<not> is_closed (sub_sender s)" "agent_streams r"]
  by (simp add: unsubscribe_stream_eq io_inv_oks io_inv_online [unfolded is_agent_online_def]
        del: not_None_eq)

lemma io_step_inv: "io_step uuid_show r r' \<Longrightarrow> io_inv r \<Longrightarrow> io_inv r'"
proof (induction rule: io_step.induct)
  case (io_register a c k r b r' effs)
  then show ?case using register_agent_inv by blast
next
  case (io_unregister a c r b r' effs)
  then show ?case using drop_agent_eqs(1) drop_agent_inv by metis
next
  case (io_mark r a)
  then show ?case by (simp add: io_inv_def disconnect_agent_mark_def is_agent_online_def)
next
  case (io_remove a r r' effs)
  then show ?case using drop_agent_eqs(2) drop_agent_inv by metis
next
  case (io_subscribe is_closed sid a tx k r r' effs)
  then show ?case using subscribe_stream_inv by blast
next
  case (io_unsubscribe is_closed sid r r' effs)
  then show ?case using unsubscribe_stream_inv [of r is_closed sid] by simp
next
  case (io_prune is_closed r r' effs)
  then show ?case using prune_region_inv [of r is_closed] by simp
qed

lemma io_steps_inv: "(io_step uuid_show)\<^sup>*\<^sup>* r r' \<Longrightarrow> io_inv r \<Longrightarrow> io_inv r'"
  by (induction rule: rtranclp_induct) (auto intro: io_step_inv)

lemma io_step_keeps_ban:
  assumes "io_step uuid_show r r'" "a \<in> revoked_agents r" "\<not> is_agent_online r a"
  shows "a \<in> revoked_agents r' \<and> \<not> is_agent_online r' a"
  using assms
proof (induction rule: io_step.induct)
  case (io_unregister b c r x r' effs)
  then show ?case using drop_agent_eqs(1) [OF io_unregister.hyps]
    by (auto simp: is_agent_online_def table_simps)
next
  case (io_remove b r r' effs)
  then show ?case using drop_agent_eqs(2) [OF io_remove.hyps]
    by (auto simp: is_agent_online_def table_simps)
qed (auto simp: register_agent_def disconnect_agent_mark_def subscribe_stream_def
        unsubscribe_stream_def prune_region_def is_agent_online_def table_simps Let_def
      split: if_splits prod.splits option.splits)

lemma io_steps_keep_ban:
  "(io_step uuid_show)\<^sup>*\<^sup>* r r' \<Longrightarrow> a \<in> revoked_agents r \<Longrightarrow> \<not> is_agent_online r a \<Longrightarrow>
   a \<in> revoked_agents r' \<and> \<not> is_agent_online r' a"
  by (induction rule: rtranclp_induct) (auto dest: io_step_keeps_ban)

lemma disconnect_agent_bans:
  "a \<in> revoked_agents (fst (disconnect_agent uuid_show a r)) \<and>
   \<not> is_agent_online (fst (disconnect_agent uuid_show a r)) a"
  by (auto simp: disconnect_agent_def disconnect_agent_remove_def disconnect_agent_mark_def
        is_agent_online_def table_simps split: prod.splits)

lemma disconnected_agent_gone:
  assumes "io_inv r" "(io_step uuid_show)\<^sup>*\<^sup>* (fst (disconnect_agent uuid_show a r)) r'"
  shows "a \<in> revoked_agents r'" "\<not> is_agent_online r' a"
    and "hm_get (stream_subscribers r') sid = Some s \<Longrightarrow> sub_agent_id s \<noteq> a"
proof -
  let ?d = "fst (disconnect_agent uuid_show a r)"
  have "io_step uuid_show (disconnect_agent_mark a r) ?d"
    by (rule io_remove [of uuid_show a _ _ "snd (disconnect_agent uuid_show a r)"])
       (simp add: disconnect_agent_def)
  then have "io_inv r'"
    using assms io_step_inv io_mark io_steps_inv by blast
  moreover have "a \<in> revoked_agents r' \<and> \<not> is_agent_online r' a"
    using io_steps_keep_ban [OF assms(2)] disconnect_agent_bans by blast
  ultimately show "a \<in> revoked_agents r'" "\<not> is_agent_online r' a"
    and "hm_get (stream_subscribers r') sid = Some s \<Longrightarrow> sub_agent_id s \<noteq> a"
    using io_inv_online by auto
qed

text \<open>The IO registry keeps the contract of a revocable registry.\<close>

definition io_current :: "io_registry \<Rightarrow> agent_id \<Rightarrow> chan_id option" where
  "io_current r a = map_option rs_sender (hm_get (agent_streams r) a)"

definition io_enter ::
  "(agent_id \<Rightarrow> string) \<Rightarrow> agent_id \<Rightarrow> chan_id \<Rightarrow> watch_id \<Rightarrow> io_registry \<Rightarrow> bool \<times> io_registry" where
  "io_enter uuid_show a c k r = (case register_agent uuid_show a c k r of (b, r', _) \<Rightarrow> (b, r'))"

definition io_leave ::
  "(agent_id \<Rightarrow> string) \<Rightarrow> agent_id \<Rightarrow> chan_id \<Rightarrow> io_registry \<Rightarrow> bool \<times> io_registry" where
  "io_leave uuid_show a c r = (case unregister_agent uuid_show a c r of (b, r', _) \<Rightarrow> (b, r'))"

definition io_ban :: "(agent_id \<Rightarrow> string) \<Rightarrow> agent_id \<Rightarrow> io_registry \<Rightarrow> io_registry" where
  "io_ban uuid_show a r = fst (disconnect_agent uuid_show a r)"

lemmas io_contract_defs = io_current_def io_enter_def io_leave_def io_ban_def register_agent_def
  unregister_agent_def disconnect_agent_def disconnect_agent_remove_def disconnect_agent_mark_def
  is_current_def registered_sender_new_def Let_def

interpretation io_agents: revocable_registry "io_enter uuid_show" "io_leave uuid_show"
  "io_ban uuid_show" io_current "\<lambda>r a. a \<in> revoked_agents r" for uuid_show
  by unfold_locales
     (auto simp: io_contract_defs table_simps split: option.splits prod.splits)

lemma admit_live_other:
  assumes "hm_ok subs" "hm_get subs sid = Some t" "\<not> is_closed (sub_sender t)"
    "j = sid \<longrightarrow> sub_agent_id t \<noteq> sub_agent_id s"
  shows "hm_get (admit_subscriber is_closed j s subs) sid = Some t"
  using assms
  by (auto simp: admit_subscriber_def prune_closed_io_subscribers_def Let_def table_simps
           split: option.splits)

lemma admit_new:
  assumes "hm_ok subs" "hm_get subs sid = None" "hm_len subs < MAX_ACTIVE_IO_STREAMS"
  shows "hm_get (admit_subscriber is_closed sid s subs) sid = Some s"
proof -
  have "hm_len (hm_retain P subs) < MAX_ACTIVE_IO_STREAMS" for P
    using assms(3) hm_len_retain_le [of P subs] by linarith
  with assms(1,2) show ?thesis
    by (auto simp: admit_subscriber_def prune_closed_io_subscribers_def Let_def table_simps not_le)
qed

lemma pushed_append [simp]: "pushed (xs @ ys) = pushed xs @ pushed ys"
  by (induction xs rule: pushed.induct) simp_all

lemma pushed_prune [simp]: "pushed (snd (prune_closed_io_subscribers is_closed subs)) = []"
proof -
  have "pushed (concat (map (\<lambda>(_, s). if is_closed (sub_sender s) then notify_closed s else []) subs)) = []"
    by (induction subs) (auto simp: notify_closed_def)
  then show ?thesis by (simp add: prune_closed_io_subscribers_def)
qed

lemma deliver_lookup_Some:
  "deliver_lookup uuid_show is_closed r a frame = Some (s, f) \<longleftrightarrow>
     valid_io_frame_from_agent uuid_show a frame \<and>
     hm_get (stream_subscribers r) (if_stream_id frame) = Some s \<and> sub_agent_id s = a \<and>
     \<not> is_closed (sub_sender s) \<and> f = frame\<lparr>if_agent_id := uuid_show a\<rparr>"
  by (auto simp: deliver_lookup_def split: option.splits)

lemma deliver_pushed:
  assumes "deliver_from_agent uuid_show closed closed' changed sent a frame r = (b, r', effs)"
  shows "if b then \<exists>s f. deliver_lookup uuid_show closed r a frame = Some (s, f) \<and>
                      pushed effs = [(sub_sender s, f)] \<and> deliver_race changed sent
         else pushed effs = []"
proof -
  have *: "pushed (snd (prune_region c r)) = []" for c
    using pushed_prune [of c "stream_subscribers r"]
    by (simp add: prune_region_def case_prod_unfold)
  show ?thesis
    using assms * [of closed] * [of closed']
    by (auto simp: deliver_from_agent_def split: if_splits option.splits prod.splits)
qed

text \<open>A concrete registry: agents 7 and 9 online, agent 7 subscribed to the stream \<open>s\<close>.\<close>

definition io_demo :: io_registry where
  "io_demo =
     \<lparr>agent_streams = [(7, \<lparr>rs_sender = 1, rs_changes = 1\<rparr>), (9, \<lparr>rs_sender = 2, rs_changes = 2\<rparr>)],
      stream_subscribers = [(''s'', \<lparr>sub_agent_id = 7, sub_sender = 5, sub_changes = 5\<rparr>)],
      revoked_agents = {}\<rparr>"

definition demo_uuid :: "agent_id \<Rightarrow> string" where
  "demo_uuid a = show_nat (unat a)"

definition demo_frame :: "string \<Rightarrow> io_frame" where
  "demo_frame sid =
     \<lparr>if_stream_id = sid, if_sequence = 1, if_agent_id = [], if_payload = Some (IoData ''hi'')\<rparr>"

lemmas io_demo_eval = io_demo_def demo_frame_def io_inv_def is_agent_online_def hm_get_def hm_len_def
  hm_ok_def limit_simps valid_io_stream_id_def valid_io_frame_from_agent_def

lemma io_demo_inv: "io_inv io_demo"
  by (auto simp: io_demo_eval split: if_splits)

section \<open>Properties\<close>

text \<open>
  (C31) The IO registry keeps its invariant in every reachable state: the tables have one entry
  per key, at most 1024 streams are subscribed, every stream id is non-empty, at most 128
  bytes and free of control characters, and every subscribed stream belongs to an agent that
  is online.
\<close>

theorem io_registry_invariant:
  assumes "(io_step uuid_show)\<^sup>*\<^sup>* io_registry_new r"
  shows "hm_ok (stream_subscribers r) \<and> hm_len (stream_subscribers r) \<le> 1024 \<and>
         (\<forall>sid s. hm_get (stream_subscribers r) sid = Some s \<longrightarrow>
            sid \<noteq> [] \<and> length sid \<le> 128 \<and> \<not> has_control sid \<and> is_agent_online r (sub_agent_id s))"
  using io_steps_inv [OF assms io_inv_new]
  by (simp add: io_inv_def valid_io_stream_id_def limit_simps)

theorem io_registry_invariant_witness:
  "hm_len (stream_subscribers (fst (snd (register_agent demo_uuid 7 1 1 io_registry_new)))) \<le> 1024"
proof -
  have "(io_step demo_uuid)\<^sup>*\<^sup>* io_registry_new (fst (snd (register_agent demo_uuid 7 1 1 io_registry_new)))"
    using io_register [of demo_uuid 7 1 1 io_registry_new] by (metis prod.collapse r_into_rtranclp)
  then show ?thesis using io_registry_invariant by blast
qed

text \<open>
  (C15) A frame from an agent reaches at most one channel: the one subscribed to that stream by
  the same agent, still open, before its change notification; it arrives stamped with the
  agent's own id, and the call reports delivery exactly then.
\<close>

theorem deliver_only_to_own_subscriber:
  assumes "deliver_from_agent uuid_show closed closed' changed sent a frame r = (b, r', effs)"
  shows "if b then \<exists>s. hm_get (stream_subscribers r) (if_stream_id frame) = Some s \<and>
                     sub_agent_id s = a \<and> \<not> closed (sub_sender s) \<and> \<not> changed \<and> sent = Some True \<and>
                     pushed effs = [(sub_sender s, frame\<lparr>if_agent_id := uuid_show a\<rparr>)] \<and>
                     (if_agent_id frame = [] \<or> if_agent_id frame = uuid_show a)
         else pushed effs = []"
proof (cases b)
  case True
  with deliver_pushed [OF assms] show ?thesis
    by (auto simp: deliver_lookup_Some deliver_race_def valid_io_frame_from_agent_def
             split: if_splits option.splits)
next
  case False
  with deliver_pushed [OF assms] show ?thesis by simp
qed

theorem deliver_only_to_own_subscriber_witness:
  "\<exists>effs. deliver_from_agent demo_uuid (\<lambda>_. False) (\<lambda>_. False) False (Some True) 7 (demo_frame ''s'') io_demo
       = (True, io_demo, effs) \<and>
     pushed effs = [(5, demo_frame ''s''\<lparr>if_agent_id := demo_uuid 7\<rparr>)]"
proof -
  let ?effs = "[PermitSend 5 (demo_frame ''s''\<lparr>if_agent_id := demo_uuid 7\<rparr>)]"
  have run: "deliver_from_agent demo_uuid (\<lambda>_. False) (\<lambda>_. False) False (Some True) 7 (demo_frame ''s'') io_demo
       = (True, io_demo, ?effs)"
    by (simp add: deliver_from_agent_def deliver_lookup_def deliver_race_def io_demo_eval)
  from deliver_only_to_own_subscriber [OF run] show ?thesis using run by auto
qed

text \<open>
  Stream ownership: while an agent's subscription to a stream is live, another agent can
  neither take the stream over by subscribing to it, nor deliver a frame into it, nor be sent
  a frame of it.
\<close>

theorem stream_ownership:
  assumes "io_inv r" "hm_get (stream_subscribers r) sid = Some s" "\<not> is_closed (sub_sender s)"
    and "sub_agent_id s \<noteq> a" "if_stream_id frame = sid" "sid \<noteq> []"
  shows "hm_get (stream_subscribers (fst (subscribe_stream is_closed sid a tx k r))) sid = Some s \<and>
     \<not> fst (deliver_from_agent uuid_show is_closed is_closed' changed sent a frame r) \<and>
     (\<exists>e. send_to_agent_begin uuid_show is_closed r a frame = Returned (Inl e))"
proof (intro conjI impI)
  show "hm_get (stream_subscribers (fst (subscribe_stream is_closed sid a tx k r))) sid = Some s"
    using assms by (auto simp: subscribe_stream_def io_inv_oks admit_live_other)
  show "\<not> fst (deliver_from_agent uuid_show is_closed is_closed' changed sent a frame r)"
    using assms by (auto simp: deliver_from_agent_def deliver_lookup_def split: prod.split)
  show "\<exists>e. send_to_agent_begin uuid_show is_closed r a frame = Returned (Inl e)"
    using assms by (auto simp: send_to_agent_begin_def send_to_agent_checks_def)
qed

theorem stream_ownership_witness:
  "hm_get (stream_subscribers (fst (subscribe_stream (\<lambda>_. False) ''s'' 9 6 6 io_demo))) ''s'' =
     Some \<lparr>sub_agent_id = 7, sub_sender = 5, sub_changes = 5\<rparr> \<and>
   \<not> fst (deliver_from_agent demo_uuid (\<lambda>_. False) (\<lambda>_. False) False (Some True) 9 (demo_frame ''s'') io_demo)"
  using stream_ownership [OF io_demo_inv, of "''s''" "\<lparr>sub_agent_id = 7, sub_sender = 5, sub_changes = 5\<rparr>"
      "\<lambda>_. False" 9 "demo_frame ''s''"]
  by (simp add: io_demo_def demo_frame_def hm_get_def)

text \<open>
  A new subscription works: for an online, unrevoked agent, a valid unused stream id and
  room in the table, a valid frame of that stream that tokio accepts is delivered to the new
  channel.
\<close>

theorem subscribe_then_deliver:
  assumes "io_inv r" "is_agent_online r a" "a \<notin> revoked_agents r"
    and "hm_get (stream_subscribers r) (if_stream_id frame) = None"
    and "hm_len (stream_subscribers r) < MAX_ACTIVE_IO_STREAMS"
    and "valid_io_frame_from_agent uuid_show a frame" "\<not> closed tx"
  shows "deliver_from_agent uuid_show closed closed' False (Some True) a frame
           (fst (subscribe_stream closed (if_stream_id frame) a tx k r)) =
         (True, fst (subscribe_stream closed (if_stream_id frame) a tx k r),
          [PermitSend tx (frame\<lparr>if_agent_id := uuid_show a\<rparr>)])"
proof -
  have "valid_io_stream_id (if_stream_id frame)"
    using assms(6) by (simp add: valid_io_frame_from_agent_def split: if_splits)
  then show ?thesis
    using assms admit_new [OF io_inv_oks(2) [OF assms(1)] assms(4,5)]
    by (simp add: subscribe_stream_def deliver_from_agent_def deliver_lookup_def deliver_race_def
          is_agent_online_def)
qed

theorem subscribe_then_deliver_witness:
  "deliver_from_agent demo_uuid (\<lambda>_. False) (\<lambda>_. False) False (Some True) 9 (demo_frame ''t'')
     (fst (subscribe_stream (\<lambda>_. False) ''t'' 9 6 6 io_demo)) =
   (True, fst (subscribe_stream (\<lambda>_. False) ''t'' 9 6 6 io_demo),
    [PermitSend 6 (demo_frame ''t''\<lparr>if_agent_id := demo_uuid 9\<rparr>)])"
  using subscribe_then_deliver [OF io_demo_inv, of 9 "demo_frame ''t''" demo_uuid "\<lambda>_. False" 6]
  by (simp add: io_demo_eval)

text \<open>
  Revoking an agent is final for its IO: after \<open>disconnect_agent\<close>, in every later state the
  agent has no stream and no subscriber, and its registrations are refused.
\<close>

theorem disconnect_agent_final:
  assumes "io_inv r" "(io_step uuid_show)\<^sup>*\<^sup>* (fst (disconnect_agent uuid_show a r)) r'"
  shows "\<not> is_agent_online r' a \<and>
     (hm_get (stream_subscribers r') sid = Some s \<longrightarrow> sub_agent_id s \<noteq> a) \<and>
     register_agent uuid_show a c k r' = (False, r', [])"
  using disconnected_agent_gone [OF assms] by (auto simp: register_agent_def)

theorem disconnect_agent_final_witness:
  "\<not> is_agent_online (fst (disconnect_agent demo_uuid 7 io_demo)) 7 \<and>
   register_agent demo_uuid 7 8 8 (fst (disconnect_agent demo_uuid 7 io_demo)) =
     (False, fst (disconnect_agent demo_uuid 7 io_demo), [])"
  using disconnect_agent_final [OF io_demo_inv rtranclp.rtrancl_refl, of demo_uuid 7] by simp

text \<open>
  Revoking an agent closes exactly its own streams: each of its subscribers is notified and
  offered one frame with the code \<open>agent_io_stream_closed\<close>, and every other subscription stays.
\<close>

theorem disconnect_closes_own_streams:
  assumes "io_inv r" "disconnect_agent uuid_show a r = (r', effs)"
  shows "(TrySend c f \<in> set effs \<longleftrightarrow>
           (\<exists>sid s. hm_get (stream_subscribers r) sid = Some s \<and> sub_agent_id s = a \<and>
              c = sub_sender s \<and> f = closed_frame uuid_show a ''Agent was revoked'' sid)) \<and>
     (hm_get (stream_subscribers r') sid =
           (case hm_get (stream_subscribers r) sid of
              None \<Rightarrow> None | Some s \<Rightarrow> if sub_agent_id s = a then None else Some s))"
proof (intro conjI impI)
  let ?take = "take_agent_subscribers a (stream_subscribers r)"
  have r': "r' = r\<lparr>revoked_agents := insert a (revoked_agents r),
      agent_streams := hm_remove a (agent_streams r), stream_subscribers := snd ?take\<rparr>"
    and effs: "effs = replaced_effects (hm_get (agent_streams r) a)
      @ notify_closed_subscribers uuid_show a ''Agent was revoked'' (fst ?take)"
    using assms(2)
    by (auto simp: disconnect_agent_def disconnect_agent_remove_def disconnect_agent_mark_def
             split: prod.splits)
  have "TrySend c f \<in> set effs \<longleftrightarrow> (\<exists>(sid, s) \<in> set (fst ?take).
      c = sub_sender s \<and> f = closed_frame uuid_show a ''Agent was revoked'' sid)"
    unfolding effs
    by (auto simp: replaced_effects_def notify_changed_def notify_closed_subscribers_def
             notify_closed_def split: option.splits)
  then show "TrySend c f \<in> set effs \<longleftrightarrow>
           (\<exists>sid s. hm_get (stream_subscribers r) sid = Some s \<and> sub_agent_id s = a \<and>
              c = sub_sender s \<and> f = closed_frame uuid_show a ''Agent was revoked'' sid)"
    using take_agent_taken [OF io_inv_oks(2) [OF assms(1)], of a] by auto
  show "hm_get (stream_subscribers r') sid =
           (case hm_get (stream_subscribers r) sid of
              None \<Rightarrow> None | Some s \<Rightarrow> if sub_agent_id s = a then None else Some s)"
    unfolding r' using assms(1)
    by (simp add: take_agent_rest io_inv_oks table_simps split: option.split)
qed

theorem disconnect_closes_own_streams_witness:
  "TrySend 5 (closed_frame demo_uuid 7 ''Agent was revoked'' ''s'')
     \<in> set (snd (disconnect_agent demo_uuid 7 io_demo))"
  using disconnect_closes_own_streams [OF io_demo_inv, of demo_uuid 7
      "fst (disconnect_agent demo_uuid 7 io_demo)" "snd (disconnect_agent demo_uuid 7 io_demo)" 5
      "closed_frame demo_uuid 7 ''Agent was revoked'' ''s''"]
  by (auto simp: io_demo_def hm_get_def)

end
