(* ===== verification/Nat_Tunnel.thy ===== *)
theory Nat_Tunnel
  imports Nat_Limits Io_Streams
begin

text \<open>
  The NAT tunnel manager (\<open>server/src/nat/tunnel.rs\<close>): which listeners run after a reload of
  the mapping table, the decision on each accepted connection, the life of a tunnel from its
  reservation to its cleanup, the checks on frames an agent sends into a tunnel, and the loop
  that copies bytes between the public connection and the agent.

  Parameters stand for code outside the manager: the uuid crate (\<open>uuid_parse\<close>, \<open>uuid_show\<close>),
  the database answers (\<open>db_\<dots>\<close>), \<open>TcpListener::bind\<close> (\<open>bind_ok\<close>), the clock, and the JSON
  reader of control messages (\<open>parse_control\<close>). Inside the copy loop, the outcome of a send
  to the agent and of a write to the public connection are arguments of the step. Bandwidth
  shaping only sleeps and is left out.
\<close>

section \<open>State\<close>

record nat_tunnel_manager =
  listeners :: "(nat, watch_id) table"
  active_tunnels :: tunnel_table
  rate_limits :: "(string, source_table) table"

definition nat_tunnel_manager_new :: nat_tunnel_manager where
  "nat_tunnel_manager_new = \<lparr>listeners = [], active_tunnels = [], rate_limits = []\<rparr>"

section \<open>Reload\<close>

definition loadable_mapping ::
  "env \<Rightarrow> (string \<Rightarrow> 'u option) \<Rightarrow> ('u \<Rightarrow> string) \<Rightarrow> nat_mapping \<Rightarrow> nat_mapping option" where
  "loadable_mapping env uuid_parse uuid_show mapping =
     (case validate_nat_mapping_runtime_policy env uuid_parse uuid_show mapping of
        Inl _ \<Rightarrow> None
      | Inr valid \<Rightarrow>
          (case validate_nat_bind_port env (nm_public_port valid) of
             Inl _ \<Rightarrow> None
           | Inr _ \<Rightarrow> if nm_protocol valid = Tcp then Some valid else None))"

text \<open>\<open>start_listener\<close> validates again; \<open>handle\<close> is the shutdown channel tokio creates for it.\<close>

definition start_listener ::
  "env \<Rightarrow> (string \<Rightarrow> 'u option) \<Rightarrow> ('u \<Rightarrow> string) \<Rightarrow> (string \<Rightarrow> bool) \<Rightarrow> watch_id \<Rightarrow> nat_mapping
    \<Rightarrow> (nat, watch_id) table \<Rightarrow> bool \<times> (nat, watch_id) table" where
  "start_listener env uuid_parse uuid_show bind_ok handle m ls =
     (case validate_nat_mapping_runtime_policy env uuid_parse uuid_show m of
        Inl _ \<Rightarrow> (False, ls)
      | Inr mapping \<Rightarrow>
          (case validate_nat_bind_port env (nm_public_port mapping) of
             Inl _ \<Rightarrow> (False, ls)
           | Inr _ \<Rightarrow>
               if nm_protocol mapping \<noteq> Tcp then (True, ls)
               else if \<not> bind_ok (nat_bind_addr env (nm_public_port mapping)) then (False, ls)
               else (True, hm_insert (nm_public_port mapping) handle ls)))"

definition start_missing_listener ::
  "env \<Rightarrow> (string \<Rightarrow> 'u option) \<Rightarrow> ('u \<Rightarrow> string) \<Rightarrow> (string \<Rightarrow> bool) \<Rightarrow> (nat_mapping \<Rightarrow> watch_id)
    \<Rightarrow> nat_mapping \<Rightarrow> (nat, watch_id) table \<Rightarrow> (nat, watch_id) table" where
  "start_missing_listener env uuid_parse uuid_show bind_ok handle_for mapping ls =
     (if hm_get ls (nm_public_port mapping) \<noteq> None then ls
      else snd (start_listener env uuid_parse uuid_show bind_ok (handle_for mapping) mapping ls))"

text \<open>
  \<open>db_list\<close> is the answer of \<open>list_enabled_for_active_agents\<close>. The second result is the list of
  shutdown channels told to stop.
\<close>

definition nat_reload ::
  "env \<Rightarrow> (string \<Rightarrow> 'u option) \<Rightarrow> ('u \<Rightarrow> string) \<Rightarrow> (string \<Rightarrow> bool) \<Rightarrow> (nat_mapping \<Rightarrow> watch_id)
    \<Rightarrow> string + nat_mapping list \<Rightarrow> nat_tunnel_manager
    \<Rightarrow> (nat_error + unit) \<times> nat_tunnel_manager \<times> watch_id list" where
  "nat_reload env uuid_parse uuid_show bind_ok handle_for db_list mgr =
     (case db_list of
        Inl e \<Rightarrow> (Inl (DatabaseError e), mgr, [])
      | Inr mappings \<Rightarrow>
          let tcp_mappings = List.map_filter (loadable_mapping env uuid_parse uuid_show) mappings;
              desired_ports = map nm_public_port tcp_mappings;
              active_ids = map nm_id tcp_mappings;
              kept = hm_retain (\<lambda>port _. port \<in> set desired_ports) (listeners mgr);
              stale = map snd (filter (\<lambda>(port, _). port \<notin> set desired_ports) (listeners mgr))
          in (Inr (),
              mgr\<lparr>rate_limits := hm_retain (\<lambda>id _. id \<in> set active_ids) (rate_limits mgr),
                  listeners := fold (start_missing_listener env uuid_parse uuid_show bind_ok handle_for)
                                 tcp_mappings kept\<rparr>,
              stale))"

section \<open>Accepting a connection\<close>

record usage_window_key =
  uw_window_start :: datetime
  uw_source_ip :: string







section \<open>Ownership of tunnels\<close>

definition verify_agent_id_matches :: "(string \<Rightarrow> agent_id option) \<Rightarrow> agent_id \<Rightarrow> string \<Rightarrow> bool" where
  "verify_agent_id_matches uuid_parse expected candidate_agent_id =
     (let candidate = trim candidate_agent_id in
      if candidate = [] then False
      else case uuid_parse candidate of None \<Rightarrow> False | Some parsed \<Rightarrow> parsed = expected)"

definition verify_tunnel_ownership ::
  "(string \<Rightarrow> agent_id option) \<Rightarrow> tunnel_table \<Rightarrow> string \<Rightarrow> agent_id \<Rightarrow> nat_error + unit" where
  "verify_tunnel_ownership uuid_parse tunnels tunnel_id sender =
     (if tunnel_id = [] \<or> has_control tunnel_id then Inl InvalidTunnelId
      else case hm_get tunnels tunnel_id of
             None \<Rightarrow> Inl (UnknownTunnel tunnel_id)
           | Some tunnel \<Rightarrow>
               if \<not> verify_agent_id_matches uuid_parse sender (at_agent_id tunnel)
               then Inl (NotTunnelOwner tunnel_id) else Inr ())"

definition deliver_agent_frame ::
  "(string \<Rightarrow> agent_id option) \<Rightarrow> (agent_id \<Rightarrow> string) \<Rightarrow> (chan_id \<Rightarrow> bool) \<Rightarrow> (chan_id \<Rightarrow> bool) \<Rightarrow> bool
    \<Rightarrow> bool option \<Rightarrow> agent_id \<Rightarrow> io_frame \<Rightarrow> tunnel_table \<Rightarrow> io_registry
    \<Rightarrow> (nat_error + unit) \<times> io_registry \<times> io_frame effect list" where
  "deliver_agent_frame uuid_parse uuid_show closed closed' changed sent sender frame tunnels r =
     (case verify_tunnel_ownership uuid_parse tunnels (if_stream_id frame) sender of
        Inl e \<Rightarrow> (Inl e, r, [])
      | Inr _ \<Rightarrow>
          if if_agent_id frame \<noteq> [] \<and> \<not> verify_agent_id_matches uuid_parse sender (if_agent_id frame)
          then (Inl (FrameAgentMismatch (if_agent_id frame)), r, [])
          else if (case if_payload frame of
                     Some (IoData bytes) \<Rightarrow> length bytes > MAX_NAT_FRAME_BYTES | _ \<Rightarrow> False)
          then (Inl (FrameTooLarge MAX_NAT_FRAME_BYTES), r, [])
          else (case deliver_from_agent uuid_show closed closed' changed sent sender frame r of
                  (delivered, r', effs) \<Rightarrow>
                    (if delivered then Inr () else Inl DeliveryFailed, r', effs)))"

definition verify_inbound_tunnel_frame ::
  "(string \<Rightarrow> agent_id option) \<Rightarrow> string \<Rightarrow> agent_id \<Rightarrow> io_frame \<Rightarrow> nat_error + unit" where
  "verify_inbound_tunnel_frame uuid_parse expected_tunnel_id expected_agent_id frame =
     (if if_stream_id frame \<noteq> expected_tunnel_id then Inl (FrameStreamMismatch (if_stream_id frame))
      else if \<not> verify_agent_id_matches uuid_parse expected_agent_id (if_agent_id frame)
      then Inl (FrameAgentMismatch (if_agent_id frame))
      else Inr ())"

section \<open>The copy loop\<close>

datatype nat_control = ControlOpen string nat | ControlReady

record bridge_config =
  bc_agent_id :: agent_id
  bc_agent_id_str :: string
  bc_tunnel_id :: string
  bc_idle_timeout :: "nat option"
  bc_max_bytes :: "nat option"

record bridge_state =
  br_sequence :: nat
  br_sent :: nat
  br_received :: nat
  br_saw_ready :: bool

definition bridge_start :: bridge_state where
  "bridge_start = \<lparr>br_sequence = 2, br_sent = 0, br_received = 0, br_saw_ready = False\<rparr>"

text \<open>\<open>PublicRead\<close> carries the bytes read; an empty read is the end of the public stream.\<close>

datatype bridge_event = PublicRead "string + string" | AgentFrame "io_frame option" | IdleTimeout

datatype bridge_action = ToAgent io_frame | ToPublic string

datatype bridge_next = Continue bridge_state | Finished "nat_error + nat \<times> nat"

definition DEFAULT_NAT_HANDSHAKE_TIMEOUT_SECONDS :: nat where
  [limit_simps]: "DEFAULT_NAT_HANDSHAKE_TIMEOUT_SECONDS = 15"

definition effective_timeout :: "bridge_config \<Rightarrow> bridge_state \<Rightarrow> nat option" where
  "effective_timeout cfg st =
     (if \<not> br_saw_ready st
      then Some (case bc_idle_timeout cfg of Some t \<Rightarrow> t | None \<Rightarrow> DEFAULT_NAT_HANDSHAKE_TIMEOUT_SECONDS)
      else bc_idle_timeout cfg)"

definition tunnel_frame :: "bridge_config \<Rightarrow> nat \<Rightarrow> io_payload \<Rightarrow> io_frame" where
  "tunnel_frame cfg sequence payload =
     \<lparr>if_stream_id = bc_tunnel_id cfg, if_sequence = sequence, if_agent_id = bc_agent_id_str cfg,
      if_payload = Some payload\<rparr>"

text \<open>
  \<open>reply\<close> answers a send to the agent, \<open>written\<close> a write to the public connection (\<open>Inl None\<close>
  is its timeout).
\<close>

definition ensure_nat_byte_limit ::
  "bridge_config \<Rightarrow> (io_frame \<Rightarrow> string + unit) \<Rightarrow> bridge_state \<Rightarrow> (nat_error + unit) \<times> bridge_action list" where
  "ensure_nat_byte_limit cfg reply st =
     (case bc_max_bytes cfg of
        None \<Rightarrow> (Inr (), [])
      | Some limit \<Rightarrow>
          if sat_add64 (br_sent st) (br_received st) \<le> limit then (Inr (), [])
          else
            let frame = tunnel_frame cfg (br_sequence st) (IoClose ''NAT tunnel byte limit exceeded'')
            in (case reply frame of
                  Inl e \<Rightarrow> (Inl (SendFailed e), [])
                | Inr _ \<Rightarrow> (Inl ByteLimitExceeded, [ToAgent frame])))"

definition after_transfer ::
  "bridge_config \<Rightarrow> (io_frame \<Rightarrow> string + unit) \<Rightarrow> bridge_state \<Rightarrow> bridge_next \<times> bridge_action list" where
  "after_transfer cfg reply st =
     (case ensure_nat_byte_limit cfg reply st of
        (Inl e, acts) \<Rightarrow> (Finished (Inl e), acts)
      | (Inr _, acts) \<Rightarrow> (Continue st, acts))"

definition on_public_read ::
  "bridge_config \<Rightarrow> (io_frame \<Rightarrow> string + unit) \<Rightarrow> bridge_state \<Rightarrow> string + string
    \<Rightarrow> bridge_next \<times> bridge_action list" where
  "on_public_read cfg reply st result =
     (case result of
        Inl e \<Rightarrow> (Finished (Inl (PublicIoError e)), [])
      | Inr bytes \<Rightarrow>
          if bytes = [] then
            let frame = tunnel_frame cfg (br_sequence st) (IoClose ''public stream closed'')
            in (case reply frame of
                  Inl e \<Rightarrow> (Finished (Inl (SendFailed e)), [])
                | Inr _ \<Rightarrow> (Finished (Inr (br_sent st, br_received st)), [ToAgent frame]))
          else
            let frame = tunnel_frame cfg (br_sequence st) (IoData bytes)
            in (case reply frame of
                  Inl e \<Rightarrow> (Finished (Inl (SendFailed e)), [])
                | Inr _ \<Rightarrow>
                    (case after_transfer cfg reply
                            (st\<lparr>br_sent := br_sent st + length bytes,
                                br_sequence := sat_add64 (br_sequence st) 1\<rparr>) of
                       (next, acts) \<Rightarrow> (next, ToAgent frame # acts))))"

definition on_agent_data ::
  "bridge_config \<Rightarrow> (string \<Rightarrow> nat_control option) \<Rightarrow> (io_frame \<Rightarrow> string + unit)
    \<Rightarrow> (string \<Rightarrow> string option + unit) \<Rightarrow> bridge_state \<Rightarrow> string \<Rightarrow> bridge_next \<times> bridge_action list" where
  "on_agent_data cfg parse_control reply written st bytes =
     (if length bytes > MAX_NAT_FRAME_BYTES then
        let frame = tunnel_frame cfg (br_sequence st) (IoClose ''NAT tunnel frame size limit exceeded'')
        in (Finished (Inl (FrameTooLarge (length bytes))),
            case reply frame of Inl _ \<Rightarrow> [] | Inr _ \<Rightarrow> [ToAgent frame])
      else case (if br_saw_ready st then None else parse_control bytes) of
        Some ControlReady \<Rightarrow> (Continue (st\<lparr>br_saw_ready := True\<rparr>), [])
      | Some (ControlOpen _ _) \<Rightarrow> (Continue st, [])
      | None \<Rightarrow>
          (case written bytes of
             Inl None \<Rightarrow> (Finished (Inl PublicWriteTimeout), [])
           | Inl (Some e) \<Rightarrow> (Finished (Inl (PublicIoError e)), [])
           | Inr _ \<Rightarrow>
               (case after_transfer cfg reply
                       (st\<lparr>br_saw_ready := True, br_received := br_received st + length bytes\<rparr>) of
                  (next, acts) \<Rightarrow> (next, ToPublic bytes # acts))))"

definition on_agent_frame ::
  "bridge_config \<Rightarrow> (string \<Rightarrow> agent_id option) \<Rightarrow> (string \<Rightarrow> nat_control option)
    \<Rightarrow> (io_frame \<Rightarrow> string + unit) \<Rightarrow> (string \<Rightarrow> string option + unit) \<Rightarrow> tunnel_table
    \<Rightarrow> bridge_state \<Rightarrow> io_frame \<Rightarrow> bridge_next \<times> bridge_action list" where
  "on_agent_frame cfg uuid_parse parse_control reply written tunnels st frame =
     (case verify_inbound_tunnel_frame uuid_parse (bc_tunnel_id cfg) (bc_agent_id cfg) frame of
        Inl _ \<Rightarrow> (Continue st, [])
      | Inr _ \<Rightarrow>
          if \<not> (case hm_get tunnels (bc_tunnel_id cfg) of
                  None \<Rightarrow> False
                | Some tunnel \<Rightarrow> verify_agent_id_matches uuid_parse (bc_agent_id cfg) (at_agent_id tunnel))
          then (Finished (Inr (br_sent st, br_received st)), [])
          else case if_payload frame of
                 Some (IoData bytes) \<Rightarrow> on_agent_data cfg parse_control reply written st bytes
               | Some (IoClose _) \<Rightarrow> (Finished (Inr (br_sent st, br_received st)), [])
               | Some (IoError _ message) \<Rightarrow> (Finished (Inl (AgentTunnelError message)), [])
               | None \<Rightarrow> (Continue st, []))"

definition on_idle_timeout ::
  "bridge_config \<Rightarrow> (io_frame \<Rightarrow> string + unit) \<Rightarrow> bridge_state \<Rightarrow> bridge_next \<times> bridge_action list" where
  "on_idle_timeout cfg reply st =
     (let frame = tunnel_frame cfg (br_sequence st) (IoClose ''NAT tunnel idle timeout'')
      in case reply frame of
           Inl e \<Rightarrow> (Finished (Inl (SendFailed e)), [])
         | Inr _ \<Rightarrow> (Finished (Inl IdleTimeoutReached), [ToAgent frame]))"

definition bridge_step ::
  "bridge_config \<Rightarrow> (string \<Rightarrow> agent_id option) \<Rightarrow> (string \<Rightarrow> nat_control option)
    \<Rightarrow> (io_frame \<Rightarrow> string + unit) \<Rightarrow> (string \<Rightarrow> string option + unit) \<Rightarrow> tunnel_table
    \<Rightarrow> bridge_state \<Rightarrow> bridge_event \<Rightarrow> bridge_next \<times> bridge_action list" where
  "bridge_step cfg uuid_parse parse_control reply written tunnels st ev =
     (case ev of
        PublicRead result \<Rightarrow> on_public_read cfg reply st result
      | AgentFrame None \<Rightarrow> (Finished (Inr (br_sent st, br_received st)), [])
      | AgentFrame (Some frame) \<Rightarrow>
          on_agent_frame cfg uuid_parse parse_control reply written tunnels st frame
      | IdleTimeout \<Rightarrow>
          (case effective_timeout cfg st of
             None \<Rightarrow> (Continue st, [])
           | Some _ \<Rightarrow> on_idle_timeout cfg reply st))"

text \<open>
  The loop over the events it meets, each with the answers of that moment. \<open>None\<close> as a result
  says the loop still runs when the events end. \<open>IdleTimeout\<close> fires only while a timeout is
  armed. The byte counters of the active tunnel mirror \<open>br_sent\<close> and \<open>br_received\<close> and are kept
  there.
\<close>

record bridge_moment =
  bm_event :: bridge_event
  bm_reply :: "io_frame \<Rightarrow> string + unit"
  bm_written :: "string \<Rightarrow> string option + unit"
  bm_tunnels :: tunnel_table

fun bridge_over_iostream ::
  "bridge_config \<Rightarrow> (string \<Rightarrow> agent_id option) \<Rightarrow> (string \<Rightarrow> nat_control option)
    \<Rightarrow> bridge_state \<Rightarrow> bridge_moment list \<Rightarrow> (nat_error + nat \<times> nat) option \<times> bridge_action list" where
  "bridge_over_iostream cfg uuid_parse parse_control st [] = (None, [])"
| "bridge_over_iostream cfg uuid_parse parse_control st (m # ms) =
     (case bridge_step cfg uuid_parse parse_control (bm_reply m) (bm_written m) (bm_tunnels m) st (bm_event m) of
        (Finished r, acts) \<Rightarrow> (Some r, acts)
      | (Continue st', acts) \<Rightarrow>
          (case bridge_over_iostream cfg uuid_parse parse_control st' ms of
             (r, acts') \<Rightarrow> (r, acts @ acts')))"

section \<open>The life of a tunnel\<close>

text \<open>
  \<open>open_tunnel\<close> is \<open>handle_connection\<close> up to the subscription; \<open>tunnel_id\<close> is the fresh id,
  \<open>tx\<close> and \<open>k\<close> the channel and watch cell of the subscription.
\<close>

definition open_tunnel ::
  "env \<Rightarrow> (string \<Rightarrow> agent_id option) \<Rightarrow> (chan_id \<Rightarrow> bool) \<Rightarrow> string \<Rightarrow> datetime \<Rightarrow> chan_id \<Rightarrow> watch_id
    \<Rightarrow> nat_mapping \<Rightarrow> tunnel_table \<Rightarrow> io_registry
    \<Rightarrow> nat_error + (agent_id \<times> tunnel_table \<times> io_registry \<times> io_frame effect list)" where
  "open_tunnel env uuid_parse is_closed tunnel_id now tx k mapping tunnels r =
     and_then (validate_nat_bind_port env (nm_public_port mapping)) (\<lambda>_.
     and_then (ok_or (uuid_parse (nm_agent_id mapping)) (InvalidAgentId (nm_id mapping))) (\<lambda>agent.
     and_then (ensure (is_agent_online r agent) (AgentHasNoIoStream (nm_agent_id mapping))) (\<lambda>_.
       (case reserve_active_tunnel
               \<lparr>at_tunnel_id = tunnel_id, at_mapping_id = nm_id mapping, at_agent_id = nm_agent_id mapping,
                at_created_at = now, at_bytes_sent = 0, at_bytes_received = 0\<rparr>
               (nat_max_active_tunnels env) (nm_max_active_tunnels mapping) tunnels of
          (Inl e, _) \<Rightarrow> Inl e
        | (Inr _, tunnels') \<Rightarrow>
            (case subscribe_stream is_closed tunnel_id agent tx k r of
               (r', effs) \<Rightarrow> Inr (agent, tunnels', r', effs))))))"

definition close_tunnel ::
  "(chan_id \<Rightarrow> bool) \<Rightarrow> string \<Rightarrow> tunnel_table \<Rightarrow> io_registry
    \<Rightarrow> tunnel_table \<times> io_registry \<times> io_frame effect list" where
  "close_tunnel is_closed tunnel_id tunnels r =
     (case unsubscribe_stream is_closed tunnel_id r of
        (r', effs) \<Rightarrow> (hm_remove tunnel_id tunnels, r', effs))"

text \<open>
  The whole of \<open>handle_connection\<close>. \<open>serve\<close> is what happens between opening and cleanup: the open
  request, the copy loop, and whatever other tasks do to the two tables meanwhile; its first
  result is the loop's. The last result is the number of bytes to add to the usage window.
\<close>

definition handle_connection ::
  "env \<Rightarrow> (string \<Rightarrow> agent_id option) \<Rightarrow> (chan_id \<Rightarrow> bool) \<Rightarrow> (chan_id \<Rightarrow> bool) \<Rightarrow> string \<Rightarrow> datetime
    \<Rightarrow> chan_id \<Rightarrow> watch_id
    \<Rightarrow> (agent_id \<Rightarrow> tunnel_table \<Rightarrow> io_registry \<Rightarrow> (nat_error + nat \<times> nat) \<times> tunnel_table \<times> io_registry)
    \<Rightarrow> nat_mapping \<Rightarrow> usage_window_key option \<Rightarrow> tunnel_table \<Rightarrow> io_registry
    \<Rightarrow> (nat_error + unit) \<times> tunnel_table \<times> io_registry \<times> (usage_window_key \<times> nat) option" where
  "handle_connection env uuid_parse is_closed is_closed' tunnel_id now tx k serve mapping usage_window tunnels r =
     (case open_tunnel env uuid_parse is_closed tunnel_id now tx k mapping tunnels r of
        Inl e \<Rightarrow> (Inl e, tunnels, r, None)
      | Inr (agent, tunnels1, r1, _) \<Rightarrow>
          (case serve agent tunnels1 r1 of
             (result, tunnels2, r2) \<Rightarrow>
               (case close_tunnel is_closed' tunnel_id tunnels2 r2 of
                  (tunnels3, r3, _) \<Rightarrow>
                    (case result of
                       Inl e \<Rightarrow> (Inl e, tunnels3, r3, None)
                     | Inr (sent, received) \<Rightarrow>
                         (Inr (), tunnels3, r3,
                          map_option (\<lambda>w. (w, sent + received)) usage_window)))))"

text \<open>
  \<open>record_nat_window_bytes\<close>: nothing without a byte limit or without bytes; otherwise the table
  in memory and then the database, whose failure is the result.
\<close>

definition record_nat_window_bytes ::
  "datetime \<Rightarrow> (string \<Rightarrow> string \<Rightarrow> datetime \<Rightarrow> nat \<Rightarrow> string + int \<times> int) \<Rightarrow> nat_mapping
    \<Rightarrow> usage_window_key \<Rightarrow> nat \<Rightarrow> (string, source_table) table
    \<Rightarrow> (nat_error + unit) \<times> (string, source_table) table" where
  "record_nat_window_bytes now db_bytes mapping window bytes limits =
     (if nm_max_bytes_per_window mapping = None \<or> bytes = 0 then (Inr (), limits)
      else
        let limits' = (case hm_get limits (nm_id mapping) of
              None \<Rightarrow> limits
            | Some sources \<Rightarrow>
                hm_insert (nm_id mapping)
                  (snd (record_source_bytes_in_map (uw_source_ip window) (uw_window_start window) bytes now
                          MAX_TRACKED_SOURCE_IPS_PER_MAPPING sources)) limits)
        in (case db_bytes (nm_id mapping) (uw_source_ip window) (uw_window_start window) bytes of
              Inl e \<Rightarrow> (Inl (DatabaseError e), limits')
            | Inr _ \<Rightarrow> (Inr (), limits')))"

section \<open>Lemmas on reload\<close>

lemma loadable_again:
  assumes "loadable_mapping env up us m = Some v"
  shows "validate_nat_mapping_runtime_policy env up us v = Inr v \<and>
         validate_nat_bind_port env (nm_public_port v) = Inr () \<and> nm_protocol v = Tcp"
proof -
  from assms have "validate_nat_mapping_runtime_policy env up us m = Inr v"
    and rest: "validate_nat_bind_port env (nm_public_port v) = Inr ()" "nm_protocol v = Tcp"
    by (auto simp: loadable_mapping_def split: sum.splits if_splits)
  with nat_policy_idem show ?thesis by blast
qed

lemma start_missing_loadable:
  assumes "loadable_mapping env up us m = Some v"
  shows "start_missing_listener env up us bind_ok handle_for v ls =
     (if hm_get ls (nm_public_port v) = None \<and> bind_ok (nat_bind_addr env (nm_public_port v))
      then hm_insert (nm_public_port v) (handle_for v) ls else ls)"
  using loadable_again [OF assms] by (simp add: start_missing_listener_def start_listener_def)

lemma start_listeners:
  assumes "\<forall>v \<in> set vs. \<exists>m. loadable_mapping env up us m = Some v"
  shows "hm_get (fold (start_missing_listener env up us bind_ok handle_for) vs ls) port \<noteq> None \<longleftrightarrow>
           hm_get ls port \<noteq> None \<or> port \<in> nm_public_port ` set vs \<and> bind_ok (nat_bind_addr env port)"
    and "hm_get ls port = Some h \<Longrightarrow>
         hm_get (fold (start_missing_listener env up us bind_ok handle_for) vs ls) port = Some h"
  using assms
proof (induction vs arbitrary: ls)
  case (Cons v vs)
  {
    case 1
    then obtain m where "loadable_mapping env up us m = Some v" by auto
    with 1 Cons.IH(1) show ?case by (auto simp: start_missing_loadable table_simps)
  next
    case 2
    then obtain m where "loadable_mapping env up us m = Some v" by auto
    then have "hm_get (start_missing_listener env up us bind_ok handle_for v ls) port = Some h"
      using 2(1) by (auto simp: start_missing_loadable table_simps)
    from Cons.IH(2) [OF this] 2(2) show ?case by simp
  }
qed simp_all

lemma map_filter_loadable:
  "v \<in> set (List.map_filter (loadable_mapping env up us) ms) \<longleftrightarrow>
     (\<exists>m \<in> set ms. loadable_mapping env up us m = Some v)"
  by (auto simp: List.map_filter_def intro: rev_image_eqI)

section \<open>Lemmas on the copy loop\<close>

fun data_frames :: "bridge_action list \<Rightarrow> (nat \<times> string) list" where
  "data_frames [] = []"
| "data_frames (ToAgent f # as) =
     (case if_payload f of Some (IoData b) \<Rightarrow> (if_sequence f, b) # data_frames as | _ \<Rightarrow> data_frames as)"
| "data_frames (ToPublic b # as) = data_frames as"

fun public_writes :: "bridge_action list \<Rightarrow> string list" where
  "public_writes [] = []"
| "public_writes (ToPublic b # as) = b # public_writes as"
| "public_writes (ToAgent f # as) = public_writes as"

definition bytes_to_agent :: "bridge_action list \<Rightarrow> nat" where
  "bytes_to_agent acts = sum_list (map (\<lambda>(_, b). length b) (data_frames acts))"

definition bytes_to_public :: "bridge_action list \<Rightarrow> nat" where
  "bytes_to_public acts = sum_list (map length (public_writes acts))"

definition forwarded :: "bridge_action list \<Rightarrow> nat" where
  "forwarded acts = bytes_to_agent acts + bytes_to_public acts"

definition public_reads :: "bridge_moment list \<Rightarrow> string list" where
  "public_reads ms =
     List.map_filter (\<lambda>m. case bm_event m of PublicRead (Inr b) \<Rightarrow> if b = [] then None else Some b | _ \<Rightarrow> None) ms"

lemma data_frames_append [simp]: "data_frames (xs @ ys) = data_frames xs @ data_frames ys"
  by (induction xs rule: data_frames.induct) (auto split: option.splits io_payload.splits)

lemma public_writes_append [simp]: "public_writes (xs @ ys) = public_writes xs @ public_writes ys"
  by (induction xs rule: public_writes.induct) auto

lemma bytes_append [simp]:
  "bytes_to_agent (xs @ ys) = bytes_to_agent xs + bytes_to_agent ys"
  "bytes_to_public (xs @ ys) = bytes_to_public xs + bytes_to_public ys"
  by (simp_all add: bytes_to_agent_def bytes_to_public_def)

lemma forwarded_append [simp]: "forwarded (xs @ ys) = forwarded xs + forwarded ys"
  by (simp add: forwarded_def)

lemma public_writes_set: "b \<in> set (public_writes acts) \<longleftrightarrow> ToPublic b \<in> set acts"
  by (induction acts rule: public_writes.induct) auto

lemma tunnel_frame_payload [simp]:
  "if_payload (tunnel_frame cfg q p) = Some p" "if_sequence (tunnel_frame cfg q p) = q"
  by (simp_all add: tunnel_frame_def)

definition within_byte_limit :: "bridge_config \<Rightarrow> bridge_state \<Rightarrow> bool" where
  "within_byte_limit cfg st \<longleftrightarrow>
     (case bc_max_bytes cfg of None \<Rightarrow> True | Some l \<Rightarrow> sat_add64 (br_sent st) (br_received st) \<le> l)"

lemma after_transfer_cases:
  assumes "after_transfer cfg reply st = (next, acts)"
  shows "next = Continue st \<and> acts = [] \<and> within_byte_limit cfg st \<or>
         (\<exists>e. next = Finished (Inl e) \<and> data_frames acts = [] \<and> public_writes acts = [])"
  using assms
  by (auto simp: after_transfer_def ensure_nat_byte_limit_def within_byte_limit_def Let_def
           split: option.splits if_splits sum.splits)

text \<open>A frame the loop accepts from the agent, and the bytes of it.\<close>

definition accepted_data ::
  "bridge_config \<Rightarrow> (string \<Rightarrow> agent_id option) \<Rightarrow> tunnel_table \<Rightarrow> io_frame \<Rightarrow> string \<Rightarrow> bool" where
  "accepted_data cfg up tunnels f b \<longleftrightarrow>
     if_payload f = Some (IoData b) \<and> length b \<le> MAX_NAT_FRAME_BYTES \<and> if_stream_id f = bc_tunnel_id cfg \<and>
     verify_agent_id_matches up (bc_agent_id cfg) (if_agent_id f) \<and>
     (\<exists>t. hm_get tunnels (bc_tunnel_id cfg) = Some t \<and>
        verify_agent_id_matches up (bc_agent_id cfg) (at_agent_id t))"

text \<open>
  What one turn of the loop does: nothing to the totals; a public read sent on as a data frame
  under the current sequence number; or an accepted agent frame written to the public side.
  A turn that continues has checked the byte limit when it moved bytes.
\<close>

lemma bridge_step_cases:
  assumes "bridge_step cfg up pc reply written tunnels st ev = (next, acts)"
  obtains (idle) "data_frames acts = []" "public_writes acts = []"
      "\<And>st'. next = Continue st' \<Longrightarrow> br_sent st' = br_sent st \<and> br_received st' = br_received st
         \<and> br_sequence st' = br_sequence st"
      "\<And>a b. next = Finished (Inr (a, b)) \<Longrightarrow> a = br_sent st \<and> b = br_received st"
  | (sent) b where "ev = PublicRead (Inr b)" "b \<noteq> []" "data_frames acts = [(br_sequence st, b)]"
      "public_writes acts = []"
      "\<And>st'. next = Continue st' \<Longrightarrow> br_sent st' = br_sent st + length b \<and> br_received st' = br_received st
         \<and> br_sequence st' = sat_add64 (br_sequence st) 1 \<and> within_byte_limit cfg st'"
      "\<And>a b. next \<noteq> Finished (Inr (a, b))"
  | (written) f b where "ev = AgentFrame (Some f)" "accepted_data cfg up tunnels f b"
      "data_frames acts = []" "public_writes acts = [b]"
      "\<And>st'. next = Continue st' \<Longrightarrow> br_sent st' = br_sent st \<and> br_received st' = br_received st + length b
         \<and> br_sequence st' = br_sequence st \<and> within_byte_limit cfg st'"
      "\<And>a b. next \<noteq> Finished (Inr (a, b))"
proof (cases ev)
  case (PublicRead result)
  show ?thesis
  proof (cases "\<exists>b. result = Inr b \<and> b \<noteq> [] \<and> is_ok (reply (tunnel_frame cfg (br_sequence st) (IoData b)))")
    case True
    then obtain b where b: "result = Inr b" "b \<noteq> []"
      "is_ok (reply (tunnel_frame cfg (br_sequence st) (IoData b)))" by blast
    let ?st = "st\<lparr>br_sent := br_sent st + length b, br_sequence := sat_add64 (br_sequence st) 1\<rparr>"
    obtain acts' where "after_transfer cfg reply ?st = (next, acts')"
      and acts: "acts = ToAgent (tunnel_frame cfg (br_sequence st) (IoData b)) # acts'"
      using assms PublicRead b
      by (auto simp: bridge_step_def on_public_read_def Let_def result_simps split: prod.splits sum.splits)
    from after_transfer_cases [OF this(1)] show ?thesis
      using sent [of b] PublicRead b acts by auto
  next
    case False
    then show ?thesis
      using assms PublicRead
      by (intro idle) (auto simp: bridge_step_def on_public_read_def Let_def result_simps
            split: sum.splits if_splits prod.splits)
  qed
next
  case (AgentFrame fo)
  show ?thesis
  proof (cases "\<exists>f b. fo = Some f \<and> accepted_data cfg up tunnels f b \<and>
      (br_saw_ready st \<or> pc b = None) \<and> is_ok (written b)")
    case True
    then obtain f b where f: "fo = Some f" "accepted_data cfg up tunnels f b"
      "br_saw_ready st \<or> pc b = None" "is_ok (written b)" by blast
    let ?st = "st\<lparr>br_saw_ready := True, br_received := br_received st + length b\<rparr>"
    have "(if br_saw_ready st then None else pc b) = None" using f(3) by auto
    with assms AgentFrame f
    obtain acts' where "after_transfer cfg reply ?st = (next, acts')" and acts: "acts = ToPublic b # acts'"
      by (auto simp: bridge_step_def on_agent_frame_def accepted_data_def verify_inbound_tunnel_frame_def
            on_agent_data_def Let_def result_simps split: prod.splits sum.splits)
    from after_transfer_cases [OF this(1)] show ?thesis
      using written [of f b] AgentFrame f acts by auto
  next
    case False
    then show ?thesis
      using assms AgentFrame
      by (intro idle) (auto simp: bridge_step_def on_agent_frame_def verify_inbound_tunnel_frame_def
            accepted_data_def on_agent_data_def Let_def result_simps
            split: sum.splits if_splits prod.splits option.splits io_payload.splits nat_control.splits)
  qed
next
  case IdleTimeout
  then show ?thesis
    using assms by (intro idle) (auto simp: bridge_step_def on_idle_timeout_def Let_def split: sum.splits option.splits)
qed

lemma bridge_run_Cons:
  assumes "bridge_over_iostream cfg up pc st (m # ms) = (r, acts)"
  obtains (stop) r' where "bridge_step cfg up pc (bm_reply m) (bm_written m) (bm_tunnels m) st (bm_event m)
      = (Finished r', acts)" "r = Some r'"
  | (go) st' a1 a2 where "bridge_step cfg up pc (bm_reply m) (bm_written m) (bm_tunnels m) st (bm_event m)
      = (Continue st', a1)" "bridge_over_iostream cfg up pc st' ms = (r, a2)" "acts = a1 @ a2"
  using assms by (auto split: prod.splits bridge_next.splits)

lemma step_continue_totals:
  assumes "bridge_step cfg up pc reply written tunnels st ev = (Continue st', acts)"
  shows "br_sent st' = br_sent st + bytes_to_agent acts \<and>
     br_received st' = br_received st + bytes_to_public acts \<and>
     (forwarded acts = 0 \<or> within_byte_limit cfg st')"
  using assms
proof (cases rule: bridge_step_cases)
  case idle
  show ?thesis using idle(1,2) idle(3) [OF refl] by (simp add: forwarded_def bytes_to_agent_def bytes_to_public_def)
next
  case (sent b)
  show ?thesis using sent(3,4) sent(5) [OF refl] by (simp add: bytes_to_agent_def bytes_to_public_def)
next
  case (written f b)
  show ?thesis using written(3,4) written(5) [OF refl] by (simp add: bytes_to_agent_def bytes_to_public_def)
qed

lemma step_finish_totals:
  assumes "bridge_step cfg up pc reply written tunnels st ev = (Finished (Inr (a, b)), acts)"
  shows "a = br_sent st \<and> b = br_received st \<and> data_frames acts = [] \<and> public_writes acts = []"
  using assms
proof (cases rule: bridge_step_cases)
  case idle
  show ?thesis using idle(1,2) idle(4) [OF refl] by simp
qed blast+

lemma bridge_run_totals:
  "bridge_over_iostream cfg up pc st ms = (Some (Inr (a, b)), acts) \<Longrightarrow>
   a = br_sent st + bytes_to_agent acts \<and>
   b = br_received st + bytes_to_public acts"
proof (induction ms arbitrary: st acts)
  case (Cons m ms)
  from Cons.prems show ?case
  proof (cases rule: bridge_run_Cons)
    case (stop r')
    then show ?thesis
      using step_finish_totals [of cfg up pc _ _ _ st _ a b acts]
      by (auto simp: bytes_to_agent_def bytes_to_public_def)
  next
    case (go st' a1 a2)
    then show ?thesis using Cons.IH [OF go(2)] step_continue_totals [OF go(1)] by simp
  qed
qed simp

lemma forwarded_simps:
  "data_frames acts = [] \<Longrightarrow> public_writes acts = [] \<Longrightarrow> forwarded acts = 0"
  "data_frames acts = [(q, b)] \<Longrightarrow> public_writes acts = [] \<Longrightarrow> forwarded acts = length b"
  "data_frames acts = [] \<Longrightarrow> public_writes acts = [b] \<Longrightarrow> forwarded acts = length b"
  by (simp_all add: forwarded_def bytes_to_agent_def bytes_to_public_def)

lemma public_read_continue:
  assumes "on_public_read cfg reply st (Inr b) = (Continue st', acts)" "b \<noteq> []"
  shows "data_frames acts = [(br_sequence st, b)] \<and> br_sequence st' = sat_add64 (br_sequence st) 1"
proof -
  let ?f = "tunnel_frame cfg (br_sequence st) (IoData b)"
  let ?st = "st\<lparr>br_sent := br_sent st + length b, br_sequence := sat_add64 (br_sequence st) 1\<rparr>"
  obtain nx as where t: "after_transfer cfg reply ?st = (nx, as)" by fastforce
  with assms have "nx = Continue st'" "acts = ToAgent ?f # as"
    by (auto simp: on_public_read_def Let_def split: sum.splits)
  with after_transfer_cases [OF t] show ?thesis by auto
qed

lemma within_byte_limit_exact:
  "within_byte_limit cfg st \<Longrightarrow> bc_max_bytes cfg = Some l \<Longrightarrow> l < u64_max \<Longrightarrow> br_sent st + br_received st \<le> l"
  by (simp add: within_byte_limit_def sat_add64_def split: if_splits)

lemma public_reads_simps:
  "public_reads [] = []"
  "bm_event m = PublicRead (Inr b) \<Longrightarrow> b \<noteq> [] \<Longrightarrow> public_reads (m # ms) = b # public_reads ms"
  "set (public_reads ms) \<subseteq> set (public_reads (m # ms))"
  by (auto simp: public_reads_def List.map_filter_def split: bridge_event.splits sum.splits)

lemma step_forwarded_bound:
  assumes "bridge_step cfg up pc (bm_reply m) (bm_written m) (bm_tunnels m) st (bm_event m) = (next, acts)"
    and "\<forall>b \<in> set (public_reads (m # ms)). length b \<le> 8192"
  shows "forwarded acts \<le> 65536"
  using assms(1)
proof (cases rule: bridge_step_cases)
  case (sent b)
  then show ?thesis using assms(2) public_reads_simps(2) [OF sent(1,2), of ms] by (simp add: forwarded_simps)
next
  case (written f b)
  then show ?thesis by (simp add: forwarded_simps accepted_data_def limit_simps)
qed (simp add: forwarded_simps)

lemma bridge_run_limit:
  assumes "bc_max_bytes cfg = Some l" "l < u64_max"
  shows "bridge_over_iostream cfg up pc st ms = (r, acts) \<Longrightarrow> br_sent st + br_received st \<le> l \<Longrightarrow>
   \<forall>b \<in> set (public_reads ms). length b \<le> 8192 \<Longrightarrow>
   br_sent st + br_received st + forwarded acts \<le> l + 65536"
proof (induction ms arbitrary: st acts)
  case Nil
  then show ?case by (auto simp: forwarded_simps)
next
  case (Cons m ms)
  from Cons.prems(1) show ?case
  proof (cases rule: bridge_run_Cons)
    case (stop r')
    then show ?thesis using step_forwarded_bound [OF stop(1) Cons.prems(3)] Cons.prems(2) by simp
  next
    case (go st' a1 a2)
    have st': "br_sent st' + br_received st' = br_sent st + br_received st + forwarded a1"
      using step_continue_totals [OF go(1)] by (simp add: forwarded_def)
    moreover have "br_sent st' + br_received st' \<le> l"
      using step_continue_totals [OF go(1)] st' Cons.prems(2) within_byte_limit_exact [OF _ assms, of st']
      by linarith
    moreover have "\<forall>b \<in> set (public_reads ms). length b \<le> 8192"
      using Cons.prems(3) public_reads_simps(3) [of ms m] by blast
    ultimately show ?thesis
      using Cons.IH [OF go(2)] go(3) by simp
  qed
qed

lemma bridge_run_sequence:
  "bridge_over_iostream cfg up pc st ms = (r, acts) \<Longrightarrow> br_sequence st + length ms \<le> u64_max \<Longrightarrow>
   \<exists>n. map snd (data_frames acts) = take n (public_reads ms) \<and>
       map fst (data_frames acts) = [br_sequence st ..< br_sequence st + length (data_frames acts)]"
proof (induction ms arbitrary: st acts)
  case Nil
  then show ?case by (auto simp: public_reads_simps)
next
  case (Cons m ms)
  have seq: "sat_add64 (br_sequence st) 1 = Suc (br_sequence st)"
    using Cons.prems(2) by (simp add: sat_add64_def)
  from Cons.prems(1) show ?case
  proof (cases rule: bridge_run_Cons)
    case (stop r')
    from stop(1) show ?thesis
    proof (cases rule: bridge_step_cases)
      case (sent b)
      then show ?thesis using public_reads_simps(2) [OF sent(1,2)] by (intro exI [of _ 1]) simp
    qed (auto intro: exI [of _ 0])
  next
    case (go st' a1 a2)
    show ?thesis
    proof (cases "\<exists>b. bm_event m = PublicRead (Inr b) \<and> b \<noteq> []")
      case True
      then obtain b where b: "bm_event m = PublicRead (Inr b)" "b \<noteq> []" by blast
      have step: "data_frames a1 = [(br_sequence st, b)]" "br_sequence st' = Suc (br_sequence st)"
        using public_read_continue [of cfg "bm_reply m" st b st' a1] go(1) b seq
        by (simp_all add: bridge_step_def)
      from Cons.IH [OF go(2)] step(2) Cons.prems(2) obtain n
        where "map snd (data_frames a2) = take n (public_reads ms)"
          "map fst (data_frames a2) = [Suc (br_sequence st) ..< Suc (br_sequence st) + length (data_frames a2)]"
        by auto
      moreover have "[br_sequence st ..< br_sequence st + Suc k] =
          br_sequence st # [Suc (br_sequence st) ..< Suc (br_sequence st) + k]" for k
        using upt_conv_Cons [of "br_sequence st" "br_sequence st + Suc k"] by simp
      ultimately show ?thesis
        using step public_reads_simps(2) [OF b, of ms] go(3)
        by (intro exI [of _ "Suc n"]) (simp del: upt_Suc)
    next
      case False
      then have same: "public_reads (m # ms) = public_reads ms"
        by (auto simp: public_reads_def List.map_filter_def split: bridge_event.splits sum.splits)
      have "data_frames a1 = [] \<and> br_sequence st' = br_sequence st"
        using go(1)
      proof (cases rule: bridge_step_cases)
        case idle
        then show ?thesis by simp
      next
        case (sent b)
        then show ?thesis using False by blast
      next
        case (written f b)
        then show ?thesis by simp
      qed
      then show ?thesis using Cons.IH [OF go(2)] Cons.prems(2) same go(3) by simp
    qed
  qed
qed

lemma bridge_run_writes:
  "bridge_over_iostream cfg up pc st ms = (r, acts) \<Longrightarrow> b \<in> set (public_writes acts) \<Longrightarrow>
   \<exists>m \<in> set ms. \<exists>f. bm_event m = AgentFrame (Some f) \<and> accepted_data cfg up (bm_tunnels m) f b"
proof (induction ms arbitrary: st acts)
  case (Cons m ms)
  have step: "\<exists>f. bm_event m = AgentFrame (Some f) \<and> accepted_data cfg up (bm_tunnels m) f b"
    if "bridge_step cfg up pc (bm_reply m) (bm_written m) (bm_tunnels m) st (bm_event m) = (nx, as)"
      "b \<in> set (public_writes as)" for nx as
    using that(1) by (cases rule: bridge_step_cases) (use that(2) in auto)
  from Cons.prems(1) show ?case
  proof (cases rule: bridge_run_Cons)
    case (stop r')
    then show ?thesis using step Cons.prems(2) by auto
  next
    case (go st' a1 a2)
    then show ?thesis using step [OF go(1)] Cons.IH [OF go(2)] Cons.prems(2) by auto
  qed
qed simp

lemma verify_agent_id_iff:
  "verify_agent_id_matches up a t \<longleftrightarrow> trim t \<noteq> [] \<and> up (trim t) = Some a"
  by (auto simp: verify_agent_id_matches_def Let_def split: option.splits)

lemma verify_tunnel_ownership_ok:
  "verify_tunnel_ownership up tunnels tid a = Inr () \<longleftrightarrow>
     tid \<noteq> [] \<and> \<not> has_control tid \<and>
     (\<exists>t. hm_get tunnels tid = Some t \<and> up (trim (at_agent_id t)) = Some a \<and> trim (at_agent_id t) \<noteq> [])"
  by (auto simp: verify_tunnel_ownership_def verify_agent_id_iff split: option.splits)

lemma open_tunnel_ok:
  assumes "open_tunnel env up closed tid now tx k mapping tunnels r = Inr (a, tunnels', r', effs)"
  shows "up (nm_agent_id mapping) = Some a" "is_agent_online r a"
    "validate_nat_bind_port env (nm_public_port mapping) = Inr ()"
    "reserve_active_tunnel
       \<lparr>at_tunnel_id = tid, at_mapping_id = nm_id mapping, at_agent_id = nm_agent_id mapping,
        at_created_at = now, at_bytes_sent = 0, at_bytes_received = 0\<rparr>
       (nat_max_active_tunnels env) (nm_max_active_tunnels mapping) tunnels = (Inr (), tunnels')"
    "r' = fst (subscribe_stream closed tid a tx k r)"
proof -
  obtain v ts where "reserve_active_tunnel
       \<lparr>at_tunnel_id = tid, at_mapping_id = nm_id mapping, at_agent_id = nm_agent_id mapping,
        at_created_at = now, at_bytes_sent = 0, at_bytes_received = 0\<rparr>
       (nat_max_active_tunnels env) (nm_max_active_tunnels mapping) tunnels = (v, ts)" by fastforce
  with assms show "up (nm_agent_id mapping) = Some a" "is_agent_online r a"
    "validate_nat_bind_port env (nm_public_port mapping) = Inr ()"
    "reserve_active_tunnel
       \<lparr>at_tunnel_id = tid, at_mapping_id = nm_id mapping, at_agent_id = nm_agent_id mapping,
        at_created_at = now, at_bytes_sent = 0, at_bytes_received = 0\<rparr>
       (nat_max_active_tunnels env) (nm_max_active_tunnels mapping) tunnels = (Inr (), tunnels')"
    "r' = fst (subscribe_stream closed tid a tx k r)"
    by (cases v; auto simp: open_tunnel_def result_simps case_prod_unfold)+
qed

section \<open>Lemmas on accepted connections\<close>

























section \<open>A tunnel's channel\<close>

text \<open>
  What may happen to the registry beside an open tunnel: any step, except that no later
  subscription is given the tunnel's channel \<open>tx\<close> (tokio makes a new channel for each).
\<close>

inductive io_step_beside :: "(agent_id \<Rightarrow> string) \<Rightarrow> chan_id \<Rightarrow> io_registry \<Rightarrow> io_registry \<Rightarrow> bool" for us tx where
  beside_register: "register_agent us a c k r = (b, r', effs) \<Longrightarrow> io_step_beside us tx r r'"
| beside_unregister: "unregister_agent us a c r = (b, r', effs) \<Longrightarrow> io_step_beside us tx r r'"
| beside_mark: "io_step_beside us tx r (disconnect_agent_mark a r)"
| beside_remove: "disconnect_agent_remove us a r = (r', effs) \<Longrightarrow> io_step_beside us tx r r'"
| beside_subscribe: "subscribe_stream is_closed sid a tx' k r = (r', effs) \<Longrightarrow> tx' \<noteq> tx \<Longrightarrow> io_step_beside us tx r r'"
| beside_unsubscribe: "unsubscribe_stream is_closed sid r = (r', effs) \<Longrightarrow> io_step_beside us tx r r'"
| beside_prune: "prune_region is_closed r = (r', effs) \<Longrightarrow> io_step_beside us tx r r'"

lemma beside_io_step: "io_step_beside us tx r r' \<Longrightarrow> io_step us r r'"
  by (induction rule: io_step_beside.induct) (auto intro: io_step.intros)

lemma subscribe_stream_get:
  assumes "hm_ok (stream_subscribers r)" "subscribe_stream is_closed sid a tx k r = (r', effs)"
    and "hm_get (stream_subscribers r') j = Some s"
  shows "hm_get (stream_subscribers r) j = Some s \<or>
    j = sid \<and> s = \<lparr>sub_agent_id = a, sub_sender = tx, sub_changes = k\<rparr>"
  using assms hm_get_admit [OF assms(1), of is_closed sid "\<lparr>sub_agent_id = a, sub_sender = tx, sub_changes = k\<rparr>" j s]
  by (auto simp: subscribe_stream_def split: if_splits)

lemma beside_step_keeps:
  assumes "io_step_beside us tx r r'" "hm_ok (stream_subscribers r)"
    and "hm_get (stream_subscribers r') sid = Some s" "sub_sender s = tx"
  shows "hm_get (stream_subscribers r) sid = Some s"
  using assms
proof (induction rule: io_step_beside.induct)
  case (beside_register a c k r b r' effs)
  then have "stream_subscribers r' = stream_subscribers r \<or>
      stream_subscribers r' = snd (take_agent_subscribers a (stream_subscribers r))"
    by (auto simp: register_agent_def Let_def split: if_splits option.splits prod.splits)
  with beside_register.prems show ?case by (auto simp: take_agent_rest table_simps split: option.splits if_splits)
next
  case (beside_unregister a c r b r' effs)
  with drop_agent_eqs(1) [OF beside_unregister.hyps] show ?case
    by (auto simp: take_agent_rest table_simps split: option.splits if_splits)
next
  case (beside_remove a r r' effs)
  with drop_agent_eqs(2) [OF beside_remove.hyps] show ?case
    by (auto simp: take_agent_rest table_simps split: option.splits if_splits)
next
  case (beside_subscribe is_closed sid' a tx' k r r' effs)
  with subscribe_stream_get show ?case by fastforce
next
  case (beside_unsubscribe is_closed sid' r r' effs)
  with unsubscribe_stream_eq [of is_closed sid' r] show ?case
    by (auto simp: table_simps split: option.splits if_splits)
qed (auto simp: disconnect_agent_mark_def prune_region_def prune_closed_io_subscribers_def table_simps
      split: option.splits if_splits)

lemma beside_steps_keep:
  "(io_step_beside us tx)\<^sup>*\<^sup>* r r' \<Longrightarrow> io_inv r \<Longrightarrow> hm_get (stream_subscribers r') sid = Some s \<Longrightarrow>
   sub_sender s = tx \<Longrightarrow> hm_get (stream_subscribers r) sid = Some s"
proof (induction rule: converse_rtranclp_induct)
  case (step y z)
  then have "io_inv z" using beside_io_step io_step_inv by blast
  with step show ?case using beside_step_keeps io_inv_oks(2) by blast
qed simp

lemma opened_channel:
  assumes "io_inv r" "\<forall>sid s. hm_get (stream_subscribers r) sid = Some s \<longrightarrow> sub_sender s \<noteq> tx"
    and "open_tunnel env up closed tid now tx k mapping tunnels r = Inr (agent, tunnels1, r1, effs1)"
  shows "io_inv r1"
    and "hm_get (stream_subscribers r1) sid = Some s \<Longrightarrow> sub_sender s = tx \<Longrightarrow> sid = tid \<and> sub_agent_id s = agent"
proof -
  obtain effs where sub: "subscribe_stream closed tid agent tx k r = (r1, effs)"
    using open_tunnel_ok(5) [OF assms(3)] by (metis prod.collapse)
  show "io_inv r1" using subscribe_stream_inv [OF assms(1) sub] .
  show "sid = tid \<and> sub_agent_id s = agent"
    if "hm_get (stream_subscribers r1) sid = Some s" "sub_sender s = tx"
    using subscribe_stream_get [OF io_inv_oks(2) [OF assms(1)] sub that(1)] that(2) assms(2)
    by (metis io_subscriber.select_convs(1))
qed

lemma oversized_not_written:
  assumes "if_payload f = Some (IoData bytes)" "65536 < length bytes"
  shows "public_writes (snd (bridge_step cfg up pc reply written ts st (AgentFrame (Some f)))) = []"
proof -
  obtain nx acts where step: "bridge_step cfg up pc reply written ts st (AgentFrame (Some f)) = (nx, acts)" by fastforce
  then show ?thesis
    by (cases rule: bridge_step_cases) (use assms step in \<open>auto simp: accepted_data_def limit_simps\<close>)
qed

section \<open>Properties\<close>

text \<open>
  (C23) After a reload the server listens on exactly the ports it should: those of an enabled TCP
  mapping that passes the runtime policy and the port check, provided a listener was already
  running there or binding succeeds. A listener that stays keeps its task, and rate tables
  remain only for loaded mappings.
\<close>

theorem reload_listens_exactly:
  assumes "hm_ok (listeners mgr)" "hm_ok (rate_limits mgr)"
    and "nat_reload env up us bind_ok handle_for (Inr mappings) mgr = (res, mgr', stale)"
    and "wanted = {v. \<exists>m \<in> set mappings. loadable_mapping env up us m = Some v}"
  shows "(hm_get (listeners mgr') port \<noteq> None \<longleftrightarrow>
           port \<in> nm_public_port ` wanted \<and>
           (hm_get (listeners mgr) port \<noteq> None \<or> bind_ok (nat_bind_addr env port))) \<and>
     (hm_get (listeners mgr) port = Some h \<longrightarrow> port \<in> nm_public_port ` wanted \<longrightarrow>
         hm_get (listeners mgr') port = Some h) \<and>
     (hm_get (rate_limits mgr') mid = (if mid \<in> nm_id ` wanted then hm_get (rate_limits mgr) mid else None))"
proof (intro conjI impI)
  let ?vs = "List.map_filter (loadable_mapping env up us) mappings"
  let ?kept = "hm_retain (\<lambda>port _. port \<in> set (map nm_public_port ?vs)) (listeners mgr)"
  have set_vs: "set ?vs = wanted"
    unfolding assms(4) using map_filter_loadable by blast
  have kept: "hm_get ?kept p = (if p \<in> nm_public_port ` wanted then hm_get (listeners mgr) p else None)" for p
    using assms(1) by (simp add: table_simps set_vs split: option.split)
  have new: "listeners mgr' = fold (start_missing_listener env up us bind_ok handle_for) ?vs ?kept"
    "rate_limits mgr' = hm_retain (\<lambda>id _. id \<in> set (map nm_id ?vs)) (rate_limits mgr)"
    using assms(3) by (auto simp: nat_reload_def Let_def)
  have all: "\<forall>v \<in> set ?vs. \<exists>m. loadable_mapping env up us m = Some v"
    unfolding set_vs assms(4) by blast
  show "hm_get (listeners mgr') port \<noteq> None \<longleftrightarrow> port \<in> nm_public_port ` wanted \<and>
           (hm_get (listeners mgr) port \<noteq> None \<or> bind_ok (nat_bind_addr env port))"
    unfolding new start_listeners(1) [OF all] kept set_vs by auto
  show "hm_get (listeners mgr) port = Some h \<Longrightarrow> port \<in> nm_public_port ` wanted \<Longrightarrow>
         hm_get (listeners mgr') port = Some h"
    unfolding new by (rule start_listeners(2) [OF all]) (simp add: table_simps set_vs assms(1))
  show "hm_get (rate_limits mgr') mid = (if mid \<in> nm_id ` wanted then hm_get (rate_limits mgr) mid else None)"
    unfolding new(2) using assms(2) by (simp add: table_simps set_vs split: option.split)
qed


text \<open>
  The guard \<open>deliver_agent_frame\<close>, which no caller outside the tests uses: it succeeds only for an
  active tunnel whose recorded agent is the authenticated sender, with at most 64 KiB of data,
  and then hands the frame, stamped with the sender's id, to that agent's subscription; when it
  fails nothing is handed over.
\<close>

theorem deliver_agent_frame_guards:
  assumes "deliver_agent_frame up us closed closed' changed sent a frame tunnels r = (res, r', effs)"
  shows "if res = Inr ()
         then (\<exists>t. hm_get tunnels (if_stream_id frame) = Some t \<and> up (trim (at_agent_id t)) = Some a) \<and>
              (\<forall>b. if_payload frame = Some (IoData b) \<longrightarrow> length b \<le> 65536) \<and>
              (\<exists>s. hm_get (stream_subscribers r) (if_stream_id frame) = Some s \<and> sub_agent_id s = a \<and>
                 pushed effs = [(sub_sender s, frame\<lparr>if_agent_id := us a\<rparr>)])
         else pushed effs = []"
proof (cases "\<exists>b. deliver_from_agent us closed closed' changed sent a frame r = (b, r', effs) \<and>
    (if b then res = Inr () else res = Inl DeliveryFailed)")
  case True
  then obtain b where b: "deliver_from_agent us closed closed' changed sent a frame r = (b, r', effs)"
    "if b then res = Inr () else res = Inl DeliveryFailed" by blast
  note pushes = deliver_pushed [OF b(1)]
  show ?thesis
  proof (cases b)
    case True
    with b(2) have "res = Inr ()" by simp
    with assms have "verify_tunnel_ownership up tunnels (if_stream_id frame) a = Inr ()"
      "\<forall>b. if_payload frame = Some (IoData b) \<longrightarrow> length b \<le> 65536"
      by (auto simp: deliver_agent_frame_def limit_simps split: sum.splits if_splits prod.splits)
    with True pushes \<open>res = Inr ()\<close> show ?thesis
      by (auto simp: verify_tunnel_ownership_ok deliver_lookup_Some)
  next
    case False
    with b(2) pushes show ?thesis by simp
  qed
next
  case False
  with assms have "res \<noteq> Inr ()" "effs = []"
    by (auto simp: deliver_agent_frame_def split: sum.splits if_splits prod.splits)
  then show ?thesis by simp
qed

text \<open>
  (C16) On the path the gRPC stream uses, a frame enters a tunnel's channel only from the agent the
  mapping names: once a tunnel has been opened, and after any later registrations, revocations and
  subscriptions, a frame that \<open>deliver_from_agent\<close> pushes into the tunnel's channel was sent by
  that agent, is addressed to the tunnel, is stamped with the agent's own id and carries at most
  1 MiB. A frame above the tunnel's own limit of 64 KiB does get there, but the copy loop writes
  none of it to the public connection.
\<close>

theorem tunnel_frame_only_from_owner:
  assumes "io_inv r" "\<forall>sid s. hm_get (stream_subscribers r) sid = Some s \<longrightarrow> sub_sender s \<noteq> tx"
    and "open_tunnel env up closed tid now tx k mapping tunnels r = Inr (agent, tunnels1, r1, effs1)"
    and "(io_step_beside us tx)\<^sup>*\<^sup>* r1 r2"
    and "deliver_from_agent us closed2 closed3 changed sent sender frame r2 = (b, r3, effs)"
    and "(tx, f) \<in> set (pushed effs)"
  shows "up (nm_agent_id mapping) = Some sender \<and> if_stream_id frame = tid \<and>
     f = frame\<lparr>if_agent_id := us sender\<rparr> \<and> (if_agent_id frame = [] \<or> if_agent_id frame = us sender) \<and>
     (\<forall>bytes. if_payload f = Some (IoData bytes) \<longrightarrow>
        length bytes \<le> 1048576 \<and>
        (65536 < length bytes \<longrightarrow>
           public_writes (snd (bridge_step cfg up pc reply written ts st (AgentFrame (Some f)))) = []))"
proof -
  from deliver_pushed [OF assms(5)] assms(6) obtain s where
      lookup: "deliver_lookup us closed2 r2 sender frame = Some (s, f)" and "sub_sender s = tx"
    by (auto split: if_splits)
  then have found: "hm_get (stream_subscribers r2) (if_stream_id frame) = Some s" "sub_agent_id s = sender"
      "valid_io_frame_from_agent us sender frame" "f = frame\<lparr>if_agent_id := us sender\<rparr>"
    by (auto simp: deliver_lookup_Some)
  from opened_channel(1) [OF assms(1-3)] beside_steps_keep [OF assms(4)] found(1) \<open>sub_sender s = tx\<close>
  have "hm_get (stream_subscribers r1) (if_stream_id frame) = Some s" by blast
  with opened_channel(2) [OF assms(1-3)] \<open>sub_sender s = tx\<close> found(2)
  have "if_stream_id frame = tid" "sender = agent" by auto
  moreover have "public_writes (snd (bridge_step cfg up pc reply written ts st (AgentFrame (Some f)))) = []"
    if "if_payload f = Some (IoData bytes)" "65536 < length bytes" for bytes
    using oversized_not_written that by blast
  ultimately show ?thesis
    using found open_tunnel_ok(1) [OF assms(3)]
    by (auto simp: valid_io_frame_from_agent_def limit_simps split: if_splits)
qed

text \<open>
  (C24) The copy loop forwards the public stream faithfully: the data frames sent to the agent
  carry the bytes read from the public connection, in order and without gaps, under
  consecutive sequence numbers from 2.
\<close>

theorem bridge_forwards_in_order:
  assumes "bridge_over_iostream cfg up pc bridge_start ms = (r, acts)" "length ms + 2 \<le> u64_max"
  shows "\<exists>n. map snd (data_frames acts) = take n (public_reads ms) \<and>
             map fst (data_frames acts) = [2 ..< 2 + length (data_frames acts)]"
  using bridge_run_sequence [OF assms(1)] assms(2) by (simp add: bridge_start_def)

text \<open>
  (C17) Only authorised bytes reach the public connection: whatever the copy loop writes there came
  in one data frame of at most 64 KiB, addressed to this tunnel, labelled with the tunnel's
  agent, at a moment when the tunnel was active and owned by that agent.
\<close>

theorem bridge_writes_authorised:
  assumes "bridge_over_iostream cfg up pc bridge_start ms = (r, acts)" "ToPublic b \<in> set acts"
  shows "\<exists>m \<in> set ms. \<exists>f t. bm_event m = AgentFrame (Some f) \<and> if_payload f = Some (IoData b) \<and>
           length b \<le> 65536 \<and> if_stream_id f = bc_tunnel_id cfg \<and>
           up (trim (if_agent_id f)) = Some (bc_agent_id cfg) \<and>
           hm_get (bm_tunnels m) (bc_tunnel_id cfg) = Some t \<and>
           up (trim (at_agent_id t)) = Some (bc_agent_id cfg)"
  using bridge_run_writes [OF assms(1), of b] assms(2)
  by (fastforce simp: public_writes_set accepted_data_def verify_agent_id_iff limit_simps)

text \<open>
  (C25) The byte limit of a tunnel holds up to one frame: with a limit configured and reads of at
  most the buffer size, the bytes forwarded in both directions never exceed the limit by more
  than 64 KiB, and a tunnel that ends normally reports exactly the bytes it forwarded.
\<close>

theorem bridge_byte_limit:
  assumes "bridge_over_iostream cfg up pc bridge_start ms = (r, acts)"
    and "bc_max_bytes cfg = Some l" "l < u64_max" "\<forall>b \<in> set (public_reads ms). length b \<le> 8192"
  shows "forwarded acts \<le> l + 65536 \<and>
     (r = Some (Inr (sent, received)) \<longrightarrow> sent = bytes_to_agent acts \<and> received = bytes_to_public acts)"
  using bridge_run_limit [OF assms(2,3,1) _ assms(4)] bridge_run_totals [of cfg up pc bridge_start ms] assms(1)
  by (auto simp: bridge_start_def)

text \<open>
  A handled connection leaves nothing behind: when the tunnel could not be opened both tables
  are untouched, and in every other case, whatever happened in between, the tunnel is no longer
  active and its stream has no subscriber.
\<close>

theorem handle_connection_cleans_up:
  assumes "handle_connection env up closed closed' tid now tx k serve mapping window tunnels r = (res, tunnels', r', used)"
  shows "(\<exists>e. open_tunnel env up closed tid now tx k mapping tunnels r = Inl e \<and> res = Inl e \<and>
            tunnels' = tunnels \<and> r' = r \<and> used = None) \<or>
         hm_get tunnels' tid = None \<and> tid \<notin> fst ` set (stream_subscribers r')"
  using assms
  by (auto simp: handle_connection_def close_tunnel_def unsubscribe_stream_def table_simps
           split: sum.splits prod.splits)

text \<open>
  Opening a tunnel respects the limits: it succeeds only for a bindable port and an agent that
  is online, and keeps the number of tunnels within the global limit and each mapping's limit.
\<close>

theorem open_tunnel_within_limits:
  assumes "open_tunnel env up closed tid now tx k mapping tunnels r = Inr (a, tunnels', r', effs)"
    and "tunnels_within (nat_max_active_tunnels env) lim tunnels" "lim (nm_id mapping) = nm_max_active_tunnels mapping"
  shows "is_agent_online r a" "validate_nat_bind_port env (nm_public_port mapping) = Inr ()"
    and "tunnels_within (nat_max_active_tunnels env) lim tunnels'"
    and "\<exists>t. hm_get tunnels' tid = Some t \<and> at_agent_id t = nm_agent_id mapping \<and> hm_get tunnels tid = None"
proof -
  let ?t = "\<lparr>at_tunnel_id = tid, at_mapping_id = nm_id mapping, at_agent_id = nm_agent_id mapping,
        at_created_at = now, at_bytes_sent = 0, at_bytes_received = 0\<rparr>"
  note ok = open_tunnel_ok [OF assms(1)]
  show "is_agent_online r a" "validate_nat_bind_port env (nm_public_port mapping) = Inr ()"
    by (rule ok)+
  show "tunnels_within (nat_max_active_tunnels env) lim tunnels'"
    using reserve_within [OF assms(2), of ?t] ok(4) assms(3) by simp
  show "\<exists>t. hm_get tunnels' tid = Some t \<and> at_agent_id t = nm_agent_id mapping \<and> hm_get tunnels tid = None"
    using ok(4) by (auto simp: reserve_active_tunnel_def table_simps split: if_splits option.splits)
qed

section \<open>Properties at concrete inputs\<close>

lemma bindable_9090: "validate_nat_bind_port (\<lambda>_. None) 9090 = Inr ()"
  by (simp add: validate_nat_bind_port_ok nat_public_port_min_def DEFAULT_NAT_MIN_PUBLIC_PORT_def
      is_reserved_control_plane_port_def bind_port_reserved_def limit_simps)

lemma loadable_example: "loadable_mapping (\<lambda>_. None) Some id example_mapping = Some example_mapping"
  using bindable_9090 example_mapping_valid
  by (simp add: loadable_mapping_def) (simp add: example_mapping_def)

theorem reload_listens_exactly_witness:
  "hm_get (listeners (fst (snd (nat_reload (\<lambda>_. None) Some id (\<lambda>_. True) (\<lambda>_. 1) (Inr [example_mapping])
      nat_tunnel_manager_new)))) 9090 \<noteq> None"
proof -
  let ?reload = "nat_reload (\<lambda>_. None) Some id (\<lambda>_. True) (\<lambda>_. 1) (Inr [example_mapping]) nat_tunnel_manager_new"
  have run: "?reload = (fst ?reload, fst (snd ?reload), snd (snd ?reload))" by simp
  have "nm_public_port example_mapping = 9090" by (simp add: example_mapping_def)
  then show ?thesis
    using reload_listens_exactly [OF _ _ run refl, of 9090] loadable_example
    by (auto simp: nat_tunnel_manager_new_def)
qed




definition demo_owned :: tunnel_table where
  "demo_owned = [(''s'', demo_tunnel\<lparr>at_tunnel_id := ''s''\<rparr>)]"

lemma demo_trim: "trim ''a'' = ''a''" by (simp add: text_eval)

lemma demo_owner: "verify_agent_id_matches (\<lambda>_. Some 7) 7 ''a''"
  by (simp add: verify_agent_id_matches_def demo_trim)

theorem deliver_agent_frame_guards_witness:
  "\<exists>effs. deliver_agent_frame (\<lambda>_. Some 7) demo_uuid (\<lambda>_. False) (\<lambda>_. False) False (Some True) 7
      (demo_frame ''s'') demo_owned io_demo = (Inr (), io_demo, effs) \<and>
     pushed effs = [(5, demo_frame ''s''\<lparr>if_agent_id := demo_uuid 7\<rparr>)]"
proof -
  let ?effs = "[PermitSend 5 (demo_frame ''s''\<lparr>if_agent_id := demo_uuid 7\<rparr>)]"
  have "verify_tunnel_ownership (\<lambda>_. Some 7) demo_owned ''s'' 7 = Inr ()"
    using demo_owner by (simp add: verify_tunnel_ownership_def demo_owned_def demo_tunnel_def hm_get_def)
  then have run: "deliver_agent_frame (\<lambda>_. Some 7) demo_uuid (\<lambda>_. False) (\<lambda>_. False) False (Some True) 7
      (demo_frame ''s'') demo_owned io_demo = (Inr (), io_demo, ?effs)"
    by (simp add: deliver_agent_frame_def deliver_from_agent_def deliver_lookup_def deliver_race_def io_demo_eval limit_simps)
  from deliver_agent_frame_guards [OF run] run show ?thesis by auto
qed

definition demo_bridge :: bridge_config where
  "demo_bridge = \<lparr>bc_agent_id = 7, bc_agent_id_str = ''a'', bc_tunnel_id = ''s'', bc_idle_timeout = None,
     bc_max_bytes = Some 100\<rparr>"

definition demo_moment :: "bridge_event \<Rightarrow> bridge_moment" where
  "demo_moment ev = \<lparr>bm_event = ev, bm_reply = (\<lambda>_. Inr ()), bm_written = (\<lambda>_. Inr ()), bm_tunnels = demo_owned\<rparr>"

definition demo_moments :: "bridge_moment list" where
  "demo_moments = map demo_moment
     [PublicRead (Inr ''hi''), AgentFrame (Some (demo_frame ''s''\<lparr>if_agent_id := ''a''\<rparr>)), PublicRead (Inr [])]"

lemma demo_bridge_run:
  "bridge_over_iostream demo_bridge (\<lambda>_. Some 7) (\<lambda>_. None) bridge_start demo_moments =
     (Some (Inr (2, 2)),
      [ToAgent (tunnel_frame demo_bridge 2 (IoData ''hi'')), ToPublic ''hi'',
       ToAgent (tunnel_frame demo_bridge 3 (IoClose ''public stream closed''))])"
  using demo_owner
  by (simp add: demo_moments_def demo_moment_def bridge_step_def on_public_read_def on_agent_frame_def
      on_agent_data_def after_transfer_def ensure_nat_byte_limit_def verify_inbound_tunnel_frame_def
      demo_bridge_def bridge_start_def demo_frame_def demo_owned_def demo_tunnel_def hm_get_def limit_simps
      sat_add64_def u64_max_def Let_def)

theorem bridge_forwards_in_order_witness:
  "\<exists>n. [''hi''] = take n (public_reads demo_moments)"
  using bridge_forwards_in_order [OF demo_bridge_run] by (simp add: demo_moments_def u64_max_def)

theorem bridge_writes_authorised_witness:
  "\<exists>m \<in> set demo_moments. \<exists>f. bm_event m = AgentFrame (Some f) \<and> if_payload f = Some (IoData ''hi'')"
  using bridge_writes_authorised [OF demo_bridge_run, of "''hi''"] by auto

theorem bridge_byte_limit_witness:
  "forwarded [ToAgent (tunnel_frame demo_bridge 2 (IoData ''hi'')), ToPublic ''hi'',
       ToAgent (tunnel_frame demo_bridge 3 (IoClose ''public stream closed''))] \<le> 100 + 65536"
  by (rule bridge_byte_limit [OF demo_bridge_run, THEN conjunct1])
     (simp_all add: demo_bridge_def u64_max_def demo_moments_def demo_moment_def public_reads_def List.map_filter_def)

lemma demo_open:
  "\<exists>ts r effs. open_tunnel (\<lambda>_. None) (\<lambda>_. Some 7) (\<lambda>_. False) ''t'' 0 6 6 example_mapping [] io_demo = Inr (7, ts, r, effs)"
proof -
  have "nm_public_port example_mapping = 9090" "nm_max_active_tunnels example_mapping = Some 2"
    by (simp_all add: example_mapping_def)
  moreover have "is_agent_online io_demo 7" by (simp add: io_demo_eval)
  ultimately show ?thesis
    using bindable_9090
    by (auto simp: open_tunnel_def ok_or_def ensure_def reserve_active_tunnel_def nat_max_active_tunnels_def limit_simps
       active_tunnel_count_for_mapping_def case_prod_unfold)
qed

theorem tunnel_frame_only_from_owner_witness:
  "\<exists>ts r effs. open_tunnel (\<lambda>_. None) (\<lambda>_. Some 7) (\<lambda>_. False) ''t'' 0 6 6 example_mapping [] io_demo = Inr (7, ts, r, effs) \<and>
     fst (deliver_from_agent demo_uuid (\<lambda>_. False) (\<lambda>_. False) False (Some True) 7 (demo_frame ''t'') r) \<and>
     if_stream_id (demo_frame ''t'') = ''t''"
proof -
  obtain ts r effs where run: "open_tunnel (\<lambda>_. None) (\<lambda>_. Some 7) (\<lambda>_. False) ''t'' 0 6 6 example_mapping [] io_demo = Inr (7, ts, r, effs)"
    using demo_open by blast
  have fresh: "\<forall>sid s. hm_get (stream_subscribers io_demo) sid = Some s \<longrightarrow> sub_sender s \<noteq> 6"
    by (auto simp: io_demo_def hm_get_def)
  have r: "r = fst (subscribe_stream (\<lambda>_. False) ''t'' 7 6 6 io_demo)" using open_tunnel_ok(5) [OF run] .
  have deliver: "deliver_from_agent demo_uuid (\<lambda>_. False) (\<lambda>_. False) False (Some True) 7 (demo_frame ''t'') r =
      (True, r, [PermitSend 6 (demo_frame ''t''\<lparr>if_agent_id := demo_uuid 7\<rparr>)])"
    using subscribe_then_deliver [OF io_demo_inv, of 7 "demo_frame ''t''" demo_uuid "\<lambda>_. False" 6]
    unfolding r by (simp add: io_demo_eval)
  have "if_stream_id (demo_frame ''t'') = ''t''"
    using tunnel_frame_only_from_owner [OF io_demo_inv fresh run rtranclp.rtrancl_refl deliver] by simp
  with run deliver show ?thesis by auto
qed

theorem handle_connection_cleans_up_witness:
  "\<exists>res ts r used. handle_connection (\<lambda>_. None) (\<lambda>_. Some 7) (\<lambda>_. False) (\<lambda>_. False) ''t'' 0 6 6
      (\<lambda>a ts r. (Inr (1, 2), ts, r)) example_mapping None [] io_demo = (res, ts, r, used) \<and>
     hm_get ts ''t'' = None \<and> ''t'' \<notin> fst ` set (stream_subscribers r)"
proof -
  obtain res ts r used where run: "handle_connection (\<lambda>_. None) (\<lambda>_. Some 7) (\<lambda>_. False) (\<lambda>_. False) ''t'' 0 6 6
      (\<lambda>a ts r. (Inr (1, 2), ts, r)) example_mapping None [] io_demo = (res, ts, r, used)"
    by (metis prod_cases4)
  from handle_connection_cleans_up [OF run] demo_open run show ?thesis by auto
qed

theorem open_tunnel_within_limits_witness:
  "\<exists>ts r effs. open_tunnel (\<lambda>_. None) (\<lambda>_. Some 7) (\<lambda>_. False) ''t'' 0 6 6 example_mapping [] io_demo = Inr (7, ts, r, effs) \<and>
     tunnels_within 128 (\<lambda>_. Some 2) ts"
proof -
  obtain ts r effs where run: "open_tunnel (\<lambda>_. None) (\<lambda>_. Some 7) (\<lambda>_. False) ''t'' 0 6 6 example_mapping [] io_demo = Inr (7, ts, r, effs)"
    using demo_open by blast
  have lim: "nat_max_active_tunnels (\<lambda>_. None) = 128" by (simp add: nat_max_active_tunnels_def limit_simps)
  have base: "tunnels_within 128 (\<lambda>_. Some 2) []"
    by (simp add: tunnels_within_def active_tunnel_count_for_mapping_def)
  have "Some 2 = nm_max_active_tunnels example_mapping" by (simp add: example_mapping_def)
  from open_tunnel_within_limits(3) [OF run, unfolded lim, OF base this] run show ?thesis by blast
qed

end
