(* ===== verification/Task_Waiters.thy ===== *)
theory Task_Waiters
  imports Agent_Sessions
begin

text \<open>
  Replies to dispatched tasks (\<open>grpc/session.rs\<close>): \<open>TaskResponseRegistry\<close>, which matches a
  \<open>TaskResult\<close> from an agent with the waiter registered for its task id, and the size limits
  on the text of a result.

  A oneshot channel and an \<open>Arc\<close> registration token are handles given when they are created.
  \<open>is_closed\<close> is tokio's answer whether a waiter's receiving end is gone, \<open>send_ok\<close> whether
  its oneshot send succeeds, \<open>uuid_show\<close> the uuid crate's text form of an agent id.
\<close>

section \<open>Results and waiters\<close>

record task_result =
  res_task_id :: string
  res_status :: int
  res_exit_code :: int
  res_stdout :: string
  res_stderr :: string
  res_error :: string
  res_started_at :: int
  res_finished_at :: int
  res_agent_id :: string

type_synonym oneshot_id = nat
type_synonym registration_id = nat

record pending_task_response =
  pt_agent_id :: agent_id
  pt_registration :: registration_id
  pt_sender :: oneshot_id

type_synonym pending_table = "(string, pending_task_response) table"

record task_response_receiver =
  tr_task_id :: string
  tr_registration :: registration_id
  tr_receiver :: oneshot_id

definition MAX_TASK_ID_BYTES :: nat where [limit_simps]: "MAX_TASK_ID_BYTES = 128"
definition MAX_PENDING_TASK_WAITERS :: nat where [limit_simps]: "MAX_PENDING_TASK_WAITERS = 4096"

definition valid_task_id :: "string \<Rightarrow> bool" where
  "valid_task_id task_id \<longleftrightarrow>
     task_id \<noteq> [] \<and> length task_id \<le> MAX_TASK_ID_BYTES \<and> \<not> has_control task_id"

definition valid_task_result_from_agent ::
  "(agent_id \<Rightarrow> string) \<Rightarrow> agent_id \<Rightarrow> string \<Rightarrow> task_result \<Rightarrow> bool" where
  "valid_task_result_from_agent uuid_show a task_id result =
     (if \<not> valid_task_id task_id then False
      else if res_task_id result \<noteq> [] \<and> res_task_id result \<noteq> task_id then False
      else if res_agent_id result \<noteq> [] \<and> res_agent_id result \<noteq> uuid_show a then False
      else True)"

section \<open>TaskResponseRegistry\<close>

definition prune_closed_task_waiters :: "(oneshot_id \<Rightarrow> bool) \<Rightarrow> pending_table \<Rightarrow> pending_table" where
  "prune_closed_task_waiters is_closed pending = hm_retain (\<lambda>_ e. \<not> is_closed (pt_sender e)) pending"

definition admit_waiter ::
  "(oneshot_id \<Rightarrow> bool) \<Rightarrow> string \<Rightarrow> pending_task_response \<Rightarrow> pending_table \<Rightarrow> pending_table" where
  "admit_waiter is_closed task_id entry pending =
     (let pruned = prune_closed_task_waiters is_closed pending;
          can_insert = (case hm_get pruned task_id of
                          Some existing \<Rightarrow> pt_agent_id existing = pt_agent_id entry
                        | None \<Rightarrow> hm_len pruned < MAX_PENDING_TASK_WAITERS)
      in if can_insert then hm_insert task_id entry pruned else pruned)"

definition waiter_register ::
  "(oneshot_id \<Rightarrow> bool) \<Rightarrow> string \<Rightarrow> agent_id \<Rightarrow> oneshot_id \<Rightarrow> registration_id \<Rightarrow> pending_table
    \<Rightarrow> task_response_receiver \<times> pending_table" where
  "waiter_register is_closed task_id a tx registration pending =
     (\<lparr>tr_task_id = task_id, tr_registration = registration, tr_receiver = tx\<rparr>,
      if valid_task_id task_id
      then admit_waiter is_closed task_id
             \<lparr>pt_agent_id = a, pt_registration = registration, pt_sender = tx\<rparr> pending
      else pending)"

text \<open>
  The third component is the value handed to a oneshot channel. The waiter leaves the table
  before the send, whether or not the send succeeds.
\<close>

definition waiter_deliver ::
  "(agent_id \<Rightarrow> string) \<Rightarrow> (oneshot_id \<Rightarrow> bool) \<Rightarrow> (oneshot_id \<Rightarrow> bool) \<Rightarrow> agent_id \<Rightarrow> string
    \<Rightarrow> task_result \<Rightarrow> pending_table \<Rightarrow> bool \<times> pending_table \<times> (oneshot_id \<times> task_result) option" where
  "waiter_deliver uuid_show is_closed send_ok a task_id result pending =
     (if \<not> valid_task_result_from_agent uuid_show a task_id result then (False, pending, None)
      else
        let stamped = result\<lparr>res_agent_id := uuid_show a\<rparr>;
            pruned = prune_closed_task_waiters is_closed pending
        in case hm_get pruned task_id of
             None \<Rightarrow> (False, pruned, None)
           | Some waiter \<Rightarrow>
               if pt_agent_id waiter \<noteq> a then (False, pruned, None)
               else (send_ok (pt_sender waiter), hm_remove task_id pruned,
                     if send_ok (pt_sender waiter) then Some (pt_sender waiter, stamped) else None))"

definition waiter_cancel :: "(oneshot_id \<Rightarrow> bool) \<Rightarrow> string \<Rightarrow> pending_table \<Rightarrow> pending_table" where
  "waiter_cancel is_closed task_id pending =
     hm_remove task_id (prune_closed_task_waiters is_closed pending)"

definition waiter_drop :: "task_response_receiver \<Rightarrow> pending_table \<Rightarrow> pending_table" where
  "waiter_drop h pending =
     (let owns_registration = (case hm_get pending (tr_task_id h) of
                                 None \<Rightarrow> False
                               | Some e \<Rightarrow> pt_registration e = tr_registration h)
      in if owns_registration then hm_remove (tr_task_id h) pending else pending)"

definition waiter_pending_count :: "(oneshot_id \<Rightarrow> bool) \<Rightarrow> pending_table \<Rightarrow> nat" where
  "waiter_pending_count is_closed pending = hm_len (prune_closed_task_waiters is_closed pending)"

text \<open>The registry operations in any order, each with tokio's answers at that moment.\<close>

inductive waiter_step :: "(agent_id \<Rightarrow> string) \<Rightarrow> pending_table \<Rightarrow> pending_table \<Rightarrow> bool"
  for uuid_show where
  step_register: "waiter_register is_closed t a tx reg p = (h, q) \<Longrightarrow> waiter_step uuid_show p q"
| step_deliver:
    "waiter_deliver uuid_show is_closed send_ok a t res p = (b, q, out) \<Longrightarrow> waiter_step uuid_show p q"
| step_cancel: "waiter_step uuid_show p (waiter_cancel is_closed t p)"
| step_drop: "waiter_step uuid_show p (waiter_drop h p)"

section \<open>Limits on result text\<close>

record task_result_text_truncation =
  trunc_stdout :: bool
  trunc_stderr :: bool
  trunc_error :: bool

definition truncation_any :: "task_result_text_truncation \<Rightarrow> bool" where
  "truncation_any t \<longleftrightarrow> trunc_stdout t \<or> trunc_stderr t \<or> trunc_error t"

text \<open>\<open>usize\<close> is 64 bits wide; the products and sums saturate.\<close>

definition base64_encoded_len :: "nat \<Rightarrow> nat" where
  "base64_encoded_len decoded_len =
     (let full = decoded_len div 3; rem = decoded_len mod 3
      in sat_add64 (min (full * 4) u64_max) (if rem = 0 then 0 else 4))"

definition ensure_task_result_text_within ::
  "task_result \<Rightarrow> nat \<Rightarrow> nat \<Rightarrow> nat \<Rightarrow> string \<Rightarrow> string + unit" where
  "ensure_task_result_text_within result stdout_max stderr_max error_max ctxt =
     (if length (res_stdout result) > stdout_max
      then Inl (ctxt @ '' stdout exceeds '' @ show_nat stdout_max @ '' bytes'')
      else if length (res_stderr result) > stderr_max
      then Inl (ctxt @ '' stderr exceeds '' @ show_nat stderr_max @ '' bytes'')
      else if length (res_error result) > error_max
      then Inl (ctxt @ '' error exceeds '' @ show_nat error_max @ '' bytes'')
      else Inr ())"

definition truncate_utf8_to_bytes :: "string \<Rightarrow> nat \<Rightarrow> string \<times> bool" where
  "truncate_utf8_to_bytes s max_bytes =
     (if length s \<le> max_bytes then (s, False)
      else if max_bytes = 0 then ([], True)
      else (take (boundary_at_or_before s max_bytes) s, True))"

definition truncate_task_result_text ::
  "task_result \<Rightarrow> nat \<Rightarrow> nat \<Rightarrow> nat \<Rightarrow> task_result_text_truncation \<times> task_result" where
  "truncate_task_result_text result stdout_max stderr_max error_max =
     (case truncate_utf8_to_bytes (res_stdout result) stdout_max of (out, out_t) \<Rightarrow>
      case truncate_utf8_to_bytes (res_stderr result) stderr_max of (err, err_t) \<Rightarrow>
      case truncate_utf8_to_bytes (res_error result) error_max of (msg, msg_t) \<Rightarrow>
        (\<lparr>trunc_stdout = out_t, trunc_stderr = err_t, trunc_error = msg_t\<rparr>,
         result\<lparr>res_stdout := out, res_stderr := err, res_error := msg\<rparr>))"

section \<open>Lemmas\<close>

definition waiters_ok :: "pending_table \<Rightarrow> bool" where
  "waiters_ok p \<longleftrightarrow> hm_ok p \<and> hm_len p \<le> MAX_PENDING_TASK_WAITERS \<and>
     (\<forall>t e. hm_get p t = Some e \<longrightarrow> valid_task_id t)"

lemma admit_waiter_cases:
  "admit_waiter is_closed t e p = prune_closed_task_waiters is_closed p \<or>
   admit_waiter is_closed t e p = hm_insert t e (prune_closed_task_waiters is_closed p) \<and>
   (hm_get (prune_closed_task_waiters is_closed p) t = None \<longrightarrow>
      hm_len (prune_closed_task_waiters is_closed p) < MAX_PENDING_TASK_WAITERS)"
  by (auto simp: admit_waiter_def Let_def split: option.splits)

interpretation waiters_cap: capped_table "\<lambda>(t, e). admit_waiter is_closed t e" MAX_PENDING_TASK_WAITERS
  for is_closed
proof
  fix x :: "string \<times> pending_task_response" and m
  show "\<exists>P k v. (case x of (t, e) \<Rightarrow> admit_waiter is_closed t e) m = hm_retain P m \<or>
          (case x of (t, e) \<Rightarrow> admit_waiter is_closed t e) m = hm_insert k v (hm_retain P m) \<and>
          (hm_get (hm_retain P m) k = None \<longrightarrow> hm_len (hm_retain P m) < MAX_PENDING_TASK_WAITERS)"
    using admit_waiter_cases [of is_closed "fst x" "snd x" m]
    by (intro exI [of _ "\<lambda>_ e. \<not> is_closed (pt_sender e)"] exI [of _ "fst x"] exI [of _ "snd x"])
       (simp add: prune_closed_task_waiters_def case_prod_unfold)
qed

lemmas admit_waiter_ok = waiters_cap.admit_hm_ok [of _ _ "(t, e)" for t e, simplified]
  waiters_cap.admit_within_cap [of _ _ "(t, e)" for t e, simplified]

lemma waiters_ok_smaller:
  assumes "waiters_ok p"
  shows "waiters_ok (prune_closed_task_waiters is_closed p)" "waiters_ok (hm_remove t p)"
  using assms hm_len_retain_le [of "\<lambda>_ e. \<not> is_closed (pt_sender e)" p] hm_len_remove_le [of t p]
  by (auto simp: waiters_ok_def prune_closed_task_waiters_def table_simps split: option.splits if_splits)

lemma hm_get_prune_waiters:
  "hm_ok p \<Longrightarrow> hm_get (prune_closed_task_waiters is_closed p) t = Some e \<longleftrightarrow>
     hm_get p t = Some e \<and> \<not> is_closed (pt_sender e)"
  by (auto simp: prune_closed_task_waiters_def table_simps split: option.splits)

lemma hm_get_prune_waiters_case:
  "hm_ok p \<Longrightarrow> hm_get (prune_closed_task_waiters is_closed p) t =
     (case hm_get p t of None \<Rightarrow> None | Some e \<Rightarrow> if is_closed (pt_sender e) then None else Some e)"
  by (simp add: prune_closed_task_waiters_def table_simps split: option.split)

lemma waiters_ok_admit:
  assumes "waiters_ok p" "valid_task_id t"
  shows "waiters_ok (admit_waiter is_closed t e p)"
  using assms admit_waiter_cases [of is_closed t e p] waiters_ok_smaller(1) [OF assms(1), of is_closed]
    admit_waiter_ok [of p is_closed t e]
  by (auto simp: waiters_ok_def table_simps split: if_splits)

lemma waiter_step_ok: "waiter_step uuid_show p q \<Longrightarrow> waiters_ok p \<Longrightarrow> waiters_ok q"
  by (induction rule: waiter_step.induct)
     (auto simp: waiter_register_def waiter_deliver_def waiter_cancel_def waiter_drop_def Let_def
        waiters_ok_smaller waiters_ok_admit split: if_splits option.splits)

lemma waiter_steps_ok: "(waiter_step uuid_show)\<^sup>*\<^sup>* p q \<Longrightarrow> waiters_ok p \<Longrightarrow> waiters_ok q"
  by (induction rule: rtranclp_induct) (auto intro: waiter_step_ok)

lemma waiters_ok_empty: "waiters_ok []"
  by (simp add: waiters_ok_def)

lemma waiter_deliver_out:
  assumes "hm_ok p" "waiter_deliver uuid_show is_closed send_ok a t res p = (b, q, out)"
  shows "b \<longleftrightarrow> out \<noteq> None"
    and "out = Some (o1, r1) \<Longrightarrow> \<exists>e. hm_get p t = Some e \<and> pt_agent_id e = a \<and> pt_sender e = o1 \<and>
           \<not> is_closed o1 \<and> r1 = res\<lparr>res_agent_id := uuid_show a\<rparr> \<and> hm_get q t = None"
  using assms
  by (auto simp: waiter_deliver_def Let_def hm_get_prune_waiters table_simps
           split: if_splits option.splits)

lemma truncate_as_boundary:
  "truncate_utf8_to_bytes s m =
     (if length s \<le> m then (s, False) else (take (boundary_at_or_before s m) s, True))"
  by (auto simp: truncate_utf8_to_bytes_def)

text \<open>A concrete registry with one waiter, of agent 7, and a reply to it.\<close>

definition demo_pending :: pending_table where
  "demo_pending = [(''t1'', \<lparr>pt_agent_id = 7, pt_registration = 1, pt_sender = 1\<rparr>)]"

definition demo_result :: task_result where
  "demo_result =
     \<lparr>res_task_id = ''t1'', res_status = 1, res_exit_code = 0, res_stdout = ''ok'', res_stderr = [],
      res_error = [], res_started_at = 0, res_finished_at = 1, res_agent_id = []\<rparr>"

definition demo_agent_text :: "agent_id \<Rightarrow> string" where
  "demo_agent_text a = show_nat (unat a)"

lemmas waiter_demo_eval = demo_pending_def demo_result_def hm_get_def hm_ok_def hm_len_def limit_simps
  valid_task_id_def valid_task_result_from_agent_def

section \<open>Properties\<close>

text \<open>
  However registrations, deliveries, cancellations and dropped waiters interleave, the
  registry holds at most 4096 waiters, one per task id, and every task id is non-empty, at most
  128 bytes and free of control characters.
\<close>

theorem waiter_registry_invariant:
  assumes "(waiter_step uuid_show)\<^sup>*\<^sup>* [] p"
  shows "hm_ok p \<and> hm_len p \<le> 4096 \<and>
         (\<forall>t e. hm_get p t = Some e \<longrightarrow> t \<noteq> [] \<and> length t \<le> 128 \<and> \<not> has_control t)"
  using waiter_steps_ok [OF assms waiters_ok_empty]
  by (simp add: waiters_ok_def valid_task_id_def limit_simps)

theorem waiter_registry_invariant_witness:
  "hm_len (snd (waiter_register (\<lambda>_. False) ''t1'' 7 1 1 [])) \<le> 4096"
proof -
  have "(waiter_step (\<lambda>a. show_nat (unat a)))\<^sup>*\<^sup>* [] (snd (waiter_register (\<lambda>_. False) ''t1'' 7 1 1 []))"
    by (rule r_into_rtranclp, rule step_register, rule prod.collapse [symmetric])
  then show ?thesis using waiter_registry_invariant by blast
qed

text \<open>
  (C18) A reply is handed out exactly when \<open>deliver\<close> returns true, and then to the live waiter
  registered for that task by that very agent, stamped with the agent's id; the waiter is
  consumed, so a second reply to the same task is refused.
\<close>

theorem deliver_consumes_own_waiter:
  assumes "hm_ok p" "waiter_deliver uuid_show is_closed send_ok a t res p = (b, q, out)"
  shows "(b \<longleftrightarrow> out \<noteq> None) \<and>
     (out = Some (o1, r1) \<longrightarrow> (\<exists>e. hm_get p t = Some e \<and> pt_agent_id e = a \<and> pt_sender e = o1 \<and>
           \<not> is_closed o1 \<and> r1 = res\<lparr>res_agent_id := uuid_show a\<rparr>)) \<and>
     (out = Some (o1, r1) \<longrightarrow> \<not> fst (waiter_deliver uuid_show is_closed' send_ok' a' t res' q))"
proof (intro conjI impI)
  note out = waiter_deliver_out [OF assms]
  show "b \<longleftrightarrow> out \<noteq> None" by (rule out(1))
  show "out = Some (o1, r1) \<Longrightarrow> \<exists>e. hm_get p t = Some e \<and> pt_agent_id e = a \<and> pt_sender e = o1 \<and>
           \<not> is_closed o1 \<and> r1 = res\<lparr>res_agent_id := uuid_show a\<rparr>" using out(2) by blast
  have "hm_ok q" using assms
    by (auto simp: waiter_deliver_def prune_closed_task_waiters_def Let_def split: if_splits option.splits)
  then show "out = Some (o1, r1) \<Longrightarrow> \<not> fst (waiter_deliver uuid_show is_closed' send_ok' a' t res' q)"
    using out(2) [of o1 r1] by (auto simp: waiter_deliver_def Let_def hm_get_prune_waiters_case)
qed

theorem deliver_consumes_own_waiter_witness:
  "\<exists>q. waiter_deliver demo_agent_text (\<lambda>_. False) (\<lambda>_. True) 7 ''t1'' demo_result demo_pending =
         (True, q, Some (1, demo_result\<lparr>res_agent_id := demo_agent_text 7\<rparr>)) \<and>
       \<not> fst (waiter_deliver demo_agent_text (\<lambda>_. False) (\<lambda>_. True) 7 ''t1'' demo_result q)"
proof -
  let ?q = "hm_remove ''t1'' (prune_closed_task_waiters (\<lambda>_. False) demo_pending)"
  have run: "waiter_deliver demo_agent_text (\<lambda>_. False) (\<lambda>_. True) 7 ''t1'' demo_result demo_pending =
         (True, ?q, Some (1, demo_result\<lparr>res_agent_id := demo_agent_text 7\<rparr>))"
    by (simp add: waiter_deliver_def prune_closed_task_waiters_def hm_retain_def waiter_demo_eval)
  have "hm_ok demo_pending" by (simp add: waiter_demo_eval)
  from deliver_consumes_own_waiter [OF this run] show ?thesis using run by blast
qed

text \<open>
  A live waiter of another agent is safe: neither a reply sent by a different agent, nor a
  registration of the same task id by a different agent, nor dropping a receiver with another
  registration token removes or replaces it.
\<close>

theorem waiter_isolation:
  assumes "hm_ok p" "hm_get p t = Some e" "\<not> is_closed (pt_sender e)" "pt_agent_id e \<noteq> a"
  shows "hm_get (fst (snd (waiter_deliver uuid_show is_closed send_ok a t res p))) t = Some e \<and>
     hm_get (snd (waiter_register is_closed t a tx reg p)) t = Some e \<and>
     (tr_registration h \<noteq> pt_registration e \<longrightarrow> hm_get (waiter_drop h p) t = Some e)"
proof (intro conjI impI)
  have pruned: "hm_get (prune_closed_task_waiters is_closed p) t = Some e"
    using assms by (simp add: hm_get_prune_waiters)
  show "hm_get (fst (snd (waiter_deliver uuid_show is_closed send_ok a t res p))) t = Some e"
    using pruned assms by (simp add: waiter_deliver_def Let_def)
  show "hm_get (snd (waiter_register is_closed t a tx reg p)) t = Some e"
    using pruned assms by (simp add: waiter_register_def admit_waiter_def Let_def)
  show "tr_registration h \<noteq> pt_registration e \<Longrightarrow> hm_get (waiter_drop h p) t = Some e"
    using assms by (auto simp: waiter_drop_def Let_def table_simps split: option.splits)
qed

theorem waiter_isolation_witness:
  "hm_get (snd (waiter_register (\<lambda>_. False) ''t1'' 9 2 2 demo_pending)) ''t1'' =
     Some \<lparr>pt_agent_id = 7, pt_registration = 1, pt_sender = 1\<rparr>"
  using waiter_isolation [of demo_pending "''t1''" "\<lparr>pt_agent_id = 7, pt_registration = 1, pt_sender = 1\<rparr>"
      "\<lambda>_. False" 9]
  by (simp add: waiter_demo_eval)

text \<open>
  A registration works: with room in the registry, or in place of the same agent's earlier
  waiter, the reply of that agent to that task reaches the new waiter's channel, and dropping
  the waiter instead leaves no entry behind.
\<close>

theorem register_then_deliver:
  assumes "hm_ok p" "hm_len p < MAX_PENDING_TASK_WAITERS" "\<not> is_closed tx" "send_ok tx"
    and "hm_get p t = None \<or> (\<exists>e. hm_get p t = Some e \<and> pt_agent_id e = a)"
    and "valid_task_result_from_agent uuid_show a t res"
    and "waiter_register is_closed t a tx reg p = (h, q)"
  shows "fst (waiter_deliver uuid_show is_closed send_ok a t res q) \<and>
     snd (snd (waiter_deliver uuid_show is_closed send_ok a t res q)) =
           Some (tx, res\<lparr>res_agent_id := uuid_show a\<rparr>) \<and>
     hm_get (waiter_drop h q) t = None"
proof (intro conjI impI)
  have valid: "valid_task_id t"
    using assms(6) by (simp add: valid_task_result_from_agent_def split: if_splits)
  have "hm_len (prune_closed_task_waiters is_closed p) < MAX_PENDING_TASK_WAITERS"
    using assms(2) hm_len_retain_le [of "\<lambda>_ e. \<not> is_closed (pt_sender e)" p]
    unfolding prune_closed_task_waiters_def by linarith
  then have admitted: "hm_get q t = Some \<lparr>pt_agent_id = a, pt_registration = reg, pt_sender = tx\<rparr>"
    and h: "h = \<lparr>tr_task_id = t, tr_registration = reg, tr_receiver = tx\<rparr>"
    using assms(1,5,7) valid
    by (auto simp: waiter_register_def admit_waiter_def Let_def table_simps hm_get_prune_waiters_case)
  have "hm_ok q"
    using assms(1,7) valid admit_waiter_ok(1) by (auto simp: waiter_register_def)
  from hm_get_prune_waiters [OF this, of is_closed t] admitted assms(3)
  have "hm_get (prune_closed_task_waiters is_closed q) t =
      Some \<lparr>pt_agent_id = a, pt_registration = reg, pt_sender = tx\<rparr>" by simp
  then show "fst (waiter_deliver uuid_show is_closed send_ok a t res q)"
    and "snd (snd (waiter_deliver uuid_show is_closed send_ok a t res q)) =
           Some (tx, res\<lparr>res_agent_id := uuid_show a\<rparr>)"
    using assms(4,6) by (simp_all add: waiter_deliver_def Let_def)
  show "hm_get (waiter_drop h q) t = None"
    using admitted h by (simp add: waiter_drop_def Let_def table_simps)
qed

theorem register_then_deliver_witness:
  "snd (snd (waiter_deliver demo_agent_text (\<lambda>_. False) (\<lambda>_. True) 7 ''t1'' demo_result
     (snd (waiter_register (\<lambda>_. False) ''t1'' 7 3 3 demo_pending)))) =
   Some (3, demo_result\<lparr>res_agent_id := demo_agent_text 7\<rparr>)"
  using register_then_deliver [of demo_pending "\<lambda>_. False" 3 "\<lambda>_. True" "''t1''" 7 demo_agent_text
      demo_result 3 "fst (waiter_register (\<lambda>_. False) ''t1'' 7 3 3 demo_pending)"]
  by (simp add: waiter_demo_eval)

text \<open>
  Truncation keeps the longest prefix that fits and ends between characters: the result is
  a prefix of at most the limit, cut only when the text is too long, no character boundary
  within the limit lies beyond it, and, as UTF-8 never has four continuation bytes in a row, at
  most three bytes of the limit stay unused.
\<close>

theorem truncate_utf8_longest_prefix:
  assumes "truncate_utf8_to_bytes s m = (r, tr)"
  shows "r = take (length r) s \<and>
     length r \<le> m \<and>
     (tr \<longleftrightarrow> m < length s) \<and>
     is_char_boundary s (length r) \<and>
     (is_char_boundary s i \<longrightarrow> i \<le> m \<longrightarrow> i \<le> length s \<longrightarrow> i \<le> length r) \<and>
     (tr \<longrightarrow> (\<forall>j. j + 3 < length s \<longrightarrow> (\<exists>d < 4. \<not> is_continuation (s ! (j + d)))) \<longrightarrow> m < length r + 4)"
proof (intro conjI impI)
  let ?e = "boundary_at_or_before s m"
  have le: "?e \<le> m" by (rule boundary_le)
  have r: "tr \<longleftrightarrow> m < length s" "\<not> tr \<Longrightarrow> r = s" "tr \<Longrightarrow> r = take ?e s" "tr \<Longrightarrow> length r = ?e"
    using assms le by (auto simp: truncate_as_boundary split: if_splits)
  show "tr \<longleftrightarrow> m < length s" by (rule r(1))
  show "r = take (length r) s" "length r \<le> m" using r le by (cases tr; simp)+
  show "is_char_boundary s (length r)"
    using r boundary_is_boundary [of s m] by (cases tr) (auto simp: is_char_boundary_def)
  show "is_char_boundary s i \<Longrightarrow> i \<le> m \<Longrightarrow> i \<le> length s \<Longrightarrow> i \<le> length r"
    using r boundary_maximal [of s i m] by (cases tr) auto
  assume tr: tr and utf8: "\<forall>j. j + 3 < length s \<longrightarrow> (\<exists>d < 4. \<not> is_continuation (s ! (j + d)))"
  show "m < length r + 4"
  proof (rule ccontr)
    assume "\<not> m < length r + 4"
    with r tr have m: "?e + 4 \<le> m" "m < length s" by auto
    then obtain d where "d < 4" "\<not> is_continuation (s ! (?e + 1 + d))"
      using utf8 [rule_format, of "?e + 1"] by auto
    then show False using boundary_skips_continuations [of s m "?e + 1 + d"] m by simp
  qed
qed

theorem truncate_utf8_longest_prefix_witness:
  "truncate_utf8_to_bytes [CHR 0x61, CHR 0xC3, CHR 0xA9] 2 = (''a'', True) \<and>
   is_char_boundary [CHR 0x61, CHR 0xC3, CHR 0xA9] 1"
proof -
  have "truncate_utf8_to_bytes [CHR 0x61, CHR 0xC3, CHR 0xA9] 2 = (''a'', True)"
    by (simp add: truncate_utf8_to_bytes_def numeral_2_eq_2 is_char_boundary_def is_continuation_def)
  from truncate_utf8_longest_prefix [OF this] this show ?thesis by simp
qed

text \<open>
  \<open>base64_encoded_len\<close> is the length of padded Base64, four bytes for every started group
  of three, capped at the largest 64-bit size.
\<close>

theorem base64_encoded_len_groups: "base64_encoded_len n = min (4 * ((n + 2) div 3)) u64_max"
proof -
  have "(n + 2) div 3 = n div 3 + (if n mod 3 = 0 then 0 else 1)"
    by presburger
  then show ?thesis by (auto simp: base64_encoded_len_def sat_add64_def Let_def)
qed

text \<open>
  After \<open>truncate_task_result_text\<close> the result passes \<open>ensure_task_result_text_within\<close> with
  the same limits, and the truncation flags report a cut exactly when the original did not pass.
\<close>

theorem truncate_then_within:
  assumes "truncate_task_result_text res a b c = (flags, res')"
  shows "ensure_task_result_text_within res' a b c ctxt = Inr ()"
    and "truncation_any flags \<longleftrightarrow> ensure_task_result_text_within res a b c ctxt \<noteq> Inr ()"
proof -
  have le: "length (fst (truncate_utf8_to_bytes s m)) \<le> m" for s m
    using boundary_le [of s m] by (simp add: truncate_as_boundary)
  have tr: "snd (truncate_utf8_to_bytes s m) \<longleftrightarrow> m < length s" for s m
    by (simp add: truncate_as_boundary)
  show "ensure_task_result_text_within res' a b c ctxt = Inr ()"
    using assms le by (auto simp: truncate_task_result_text_def ensure_task_result_text_within_def
        case_prod_unfold not_less)
  show "truncation_any flags \<longleftrightarrow> ensure_task_result_text_within res a b c ctxt \<noteq> Inr ()"
    using assms tr by (auto simp: truncate_task_result_text_def ensure_task_result_text_within_def
        truncation_any_def case_prod_unfold)
qed

theorem truncate_then_within_witness:
  "ensure_task_result_text_within (snd (truncate_task_result_text demo_result 1 1 1)) 1 1 1 ''task'' = Inr ()"
  using truncate_then_within(1) [of demo_result 1 1 1 "fst (truncate_task_result_text demo_result 1 1 1)"]
  by simp

end
