(* ===== verification/Tsdb.thy ===== *)
theory Tsdb
  imports Rust_Text "HOL-Library.Product_Lexorder"
begin

text \<open>
  The embedded time-series store (\<open>crates/tsdb/src/lib.rs\<close>): validation of samples, the
  in-memory store with its retention and per-agent bound, and the contract of a metric backend.

  Times and durations are nanoseconds, the epoch is 0. chrono's checked arithmetic and its
  largest time are the members of \<open>chrono\<close>; \<open>now\<close> is the clock reading of the call. A JSON
  number is opaque, \<open>non_finite\<close> being serde's answer on it. A \<open>BTreeMap\<close> is the list of its
  entries in key order.
\<close>

type_synonym duration = int
record chrono =
  checked_add :: "datetime \<Rightarrow> duration \<Rightarrow> datetime option"
  checked_sub :: "datetime \<Rightarrow> duration \<Rightarrow> datetime option"
  max_utc :: datetime

definition seconds :: "int \<Rightarrow> duration" where "seconds n = n * 1000000000"
definition milliseconds :: "int \<Rightarrow> duration" where "milliseconds n = n * 1000000"
definition days :: "int \<Rightarrow> duration" where "days n = seconds (n * 86400)"

definition MAX_SAMPLE_PAYLOAD_BYTES :: nat where [limit_simps]: "MAX_SAMPLE_PAYLOAD_BYTES = 64 * 1024"
definition MAX_SAMPLE_JSON_DEPTH :: nat where [limit_simps]: "MAX_SAMPLE_JSON_DEPTH = 16"
definition MAX_BATCH_SAMPLES :: nat where [limit_simps]: "MAX_BATCH_SAMPLES = 256000"
definition MAX_SAMPLES_PER_AGENT :: nat where [limit_simps]: "MAX_SAMPLES_PER_AGENT = 50000"
definition MAX_RETENTION_DAYS :: int where [limit_simps]: "MAX_RETENTION_DAYS = 3650"
definition MAX_FUTURE_SKEW_SECONDS :: int where [limit_simps]: "MAX_FUTURE_SKEW_SECONDS = 86400"

section \<open>Data\<close>

datatype metric_error =
    InvalidTimestamp datetime
  | PayloadTooLarge
  | PayloadTooDeep
  | PayloadNotFinite
  | BatchTooLarge nat
  | RetentionNotPositive
  | RetentionTooLong
  | Unsupported

datatype 'n json =
    JNull
  | JBool bool
  | JNumber 'n
  | JString string
  | JArray "'n json list"
  | JObject "(string \<times> 'n json) list"

record 'n metric_sample =
  sm_agent_id :: agent_id
  sm_sample_at :: datetime
  sm_fields_json :: "'n json"

record 'n metric_series =
  ser_agent_id :: agent_id
  ser_samples :: "'n metric_sample list"

definition series_latest :: "'n metric_series \<Rightarrow> 'n metric_sample option" where
  "series_latest s = (if ser_samples s = [] then None else Some (last (ser_samples s)))"

datatype metric_backend_status = Healthy | Degraded | Unavailable

record metric_backend_health =
  h_backend :: string
  h_status :: metric_backend_status
  h_detail :: "string option"
  h_samples :: "nat option"

datatype query_range = Day1 | Day7 | Day30

fun to_chrono_duration :: "query_range \<Rightarrow> duration" where
  "to_chrono_duration Day1 = days 1"
| "to_chrono_duration Day7 = days 7"
| "to_chrono_duration Day30 = days 30"

fun query_range_as_str :: "query_range \<Rightarrow> string" where
  "query_range_as_str Day1 = ''1d''"
| "query_range_as_str Day7 = ''7d''"
| "query_range_as_str Day30 = ''30d''"

definition query_range_parse :: "string \<Rightarrow> query_range option" where
  "query_range_parse input =
     (if input = ''1d'' then Some Day1
      else if input = ''7d'' then Some Day7
      else if input = ''30d'' then Some Day30
      else None)"

section \<open>Validation\<close>

definition normalize_retention :: "duration \<Rightarrow> duration" where
  "normalize_retention retention = max (milliseconds 1) (min retention (days MAX_RETENTION_DAYS))"

definition cutoff_for_retention :: "chrono \<Rightarrow> datetime \<Rightarrow> duration \<Rightarrow> datetime" where
  "cutoff_for_retention ch now retention =
     (let clamped = max retention 0
      in max (case checked_sub ch now clamped of Some t \<Rightarrow> t | None \<Rightarrow> 0) 0)"

definition add_bytes :: "nat \<Rightarrow> nat \<Rightarrow> metric_error + nat" where
  "add_bytes accumulated n =
     (let total = sat_add64 accumulated n
      in if total > MAX_SAMPLE_PAYLOAD_BYTES then Inl PayloadTooLarge else Inr total)"

fun walk :: "('n \<Rightarrow> bool) \<Rightarrow> 'n json \<Rightarrow> nat \<Rightarrow> nat \<Rightarrow> metric_error + nat"
  and walk_items :: "('n \<Rightarrow> bool) \<Rightarrow> 'n json list \<Rightarrow> nat \<Rightarrow> nat \<Rightarrow> metric_error + nat"
  and walk_fields :: "('n \<Rightarrow> bool) \<Rightarrow> (string \<times> 'n json) list \<Rightarrow> nat \<Rightarrow> nat \<Rightarrow> metric_error + nat" where
  "walk non_finite value depth accumulated =
     (if depth > MAX_SAMPLE_JSON_DEPTH then Inl PayloadTooDeep
      else case value of
             JNull \<Rightarrow> add_bytes accumulated 4
           | JBool b \<Rightarrow> add_bytes accumulated (if b then 4 else 5)
           | JNumber num \<Rightarrow> if non_finite num then Inl PayloadNotFinite else add_bytes accumulated 24
           | JString s \<Rightarrow> add_bytes accumulated (sat_add64 (length s) 2)
           | JArray items \<Rightarrow> and_then (add_bytes accumulated 2) (walk_items non_finite items depth)
           | JObject members \<Rightarrow> and_then (add_bytes accumulated 2) (walk_fields non_finite members depth))"
| "walk_items non_finite [] depth accumulated = Inr accumulated"
| "walk_items non_finite (item # items) depth accumulated =
     and_then (add_bytes accumulated 1) (\<lambda>acc.
     and_then (walk non_finite item (depth + 1) acc) (walk_items non_finite items depth))"
| "walk_fields non_finite [] depth accumulated = Inr accumulated"
| "walk_fields non_finite ((k, v) # members) depth accumulated =
     and_then (add_bytes accumulated (sat_add64 (length k) 4)) (\<lambda>acc.
     and_then (walk non_finite v (depth + 1) acc) (walk_fields non_finite members depth))"

declare walk.simps [simp del]

definition validate_sample_payload :: "('n \<Rightarrow> bool) \<Rightarrow> 'n json \<Rightarrow> metric_error + nat" where
  "validate_sample_payload non_finite value = walk non_finite value 0 0"

definition validate_sample ::
  "chrono \<Rightarrow> ('n \<Rightarrow> bool) \<Rightarrow> datetime \<Rightarrow> 'n metric_sample \<Rightarrow> metric_error + unit" where
  "validate_sample ch non_finite now sample =
     (if sm_sample_at sample div 1000000000 < 0 then Inl (InvalidTimestamp (sm_sample_at sample))
      else
        let max_allowed = (case checked_add ch now (seconds MAX_FUTURE_SKEW_SECONDS) of
                             Some t \<Rightarrow> t | None \<Rightarrow> max_utc ch)
        in if sm_sample_at sample > max_allowed then Inl (InvalidTimestamp (sm_sample_at sample))
           else and_then (validate_sample_payload non_finite (sm_fields_json sample)) (\<lambda>_. Inr ()))"

section \<open>The in-memory store\<close>

type_synonym 'n entries = "(datetime \<times> 'n json) list"

fun bt_insert :: "'k::linorder \<Rightarrow> 'v \<Rightarrow> ('k \<times> 'v) list \<Rightarrow> ('k \<times> 'v) list" where
  "bt_insert k v [] = [(k, v)]"
| "bt_insert k v ((j, w) # es) =
     (if k < j then (k, v) # (j, w) # es
      else if k = j then (k, v) # es
      else (j, w) # bt_insert k v es)"

definition bt_from :: "'k::linorder \<Rightarrow> ('k \<times> 'v) list \<Rightarrow> ('k \<times> 'v) list" where
  "bt_from cutoff es = filter (\<lambda>(k, _). cutoff \<le> k) es"

record 'n metric_state =
  series :: "(agent_id, 'n entries) table"
  retention :: duration

definition with_retention :: "duration \<Rightarrow> 'n metric_state" where
  "with_retention r = \<lparr>series = [], retention = normalize_retention r\<rparr>"

definition metric_state_new :: "'n metric_state" where
  "metric_state_new = with_retention (to_chrono_duration Day30)"

definition compact_series :: "datetime \<Rightarrow> 'n entries \<Rightarrow> nat \<times> 'n entries" where
  "compact_series cutoff es =
     (let kept = bt_from cutoff es;
          excess = length kept - MAX_SAMPLES_PER_AGENT;
          left = (if length kept > MAX_SAMPLES_PER_AGENT then drop excess kept else kept)
      in (length es - length left, left))"

definition compact_agent ::
  "datetime \<Rightarrow> agent_id \<Rightarrow> (agent_id, 'n entries) table \<Rightarrow> nat \<times> (agent_id, 'n entries) table" where
  "compact_agent cutoff a table =
     (case hm_get table a of
        None \<Rightarrow> (0, table)
      | Some es \<Rightarrow>
          (case compact_series cutoff es of (dropped, left) \<Rightarrow>
             (dropped, if left = [] then hm_remove a table else hm_insert a left table)))"

fun compact_all ::
  "datetime \<Rightarrow> (agent_id, 'n entries) table \<Rightarrow> nat \<times> (agent_id, 'n entries) table" where
  "compact_all cutoff [] = (0, [])"
| "compact_all cutoff ((a, es) # table) =
     (case compact_series cutoff es of (d, left) \<Rightarrow>
      case compact_all cutoff table of (n, rest) \<Rightarrow>
        (sat_add64 d n, if left = [] then rest else (a, left) # rest))"

definition store_compact :: "chrono \<Rightarrow> datetime \<Rightarrow> 'n metric_state \<Rightarrow> nat \<times> 'n metric_state" where
  "store_compact ch now st =
     (case compact_all (cutoff_for_retention ch now (retention st)) (series st) of
        (dropped, table) \<Rightarrow> (dropped, st\<lparr>series := table\<rparr>))"

definition store_apply_retention ::
  "chrono \<Rightarrow> datetime \<Rightarrow> duration \<Rightarrow> 'n metric_state \<Rightarrow> nat \<times> 'n metric_state" where
  "store_apply_retention ch now r st =
     (let r' = normalize_retention r in
      case compact_all (cutoff_for_retention ch now r') (series st) of
        (dropped, table) \<Rightarrow> (dropped, st\<lparr>retention := r', series := table\<rparr>))"

definition store_len :: "'n metric_state \<Rightarrow> nat" where
  "store_len st = sum_list (map (length \<circ> snd) (series st))"

definition store_is_empty :: "'n metric_state \<Rightarrow> bool" where
  "store_is_empty st = (store_len st = 0)"

definition samples_of :: "agent_id \<Rightarrow> 'n entries \<Rightarrow> 'n metric_sample list" where
  "samples_of a es = map (\<lambda>(t, p). \<lparr>sm_agent_id = a, sm_sample_at = t, sm_fields_json = p\<rparr>) es"

definition store_export_samples :: "chrono \<Rightarrow> datetime \<Rightarrow> 'n metric_state \<Rightarrow> 'n metric_sample list" where
  "store_export_samples ch now st =
     (let cutoff = cutoff_for_retention ch now (retention st)
      in sort_key (\<lambda>s. (sm_agent_id s, sm_sample_at s))
           (concat (map (\<lambda>(a, es). samples_of a (bt_from cutoff es)) (series st))))"

section \<open>The backend operations\<close>

definition insert_sample ::
  "'n metric_sample \<Rightarrow> (agent_id, 'n entries) table \<Rightarrow> (agent_id, 'n entries) table" where
  "insert_sample s table =
     (let es = (case hm_get table (sm_agent_id s) of Some es \<Rightarrow> es | None \<Rightarrow> [])
      in hm_insert (sm_agent_id s) (bt_insert (sm_sample_at s) (sm_fields_json s) es) table)"

definition store_write ::
  "chrono \<Rightarrow> ('n \<Rightarrow> bool) \<Rightarrow> datetime \<Rightarrow> 'n metric_sample \<Rightarrow> 'n metric_state
    \<Rightarrow> (metric_error + unit) \<times> 'n metric_state" where
  "store_write ch non_finite now sample st =
     (case validate_sample ch non_finite now sample of
        Inl e \<Rightarrow> (Inl e, st)
      | Inr _ \<Rightarrow>
          let cutoff = cutoff_for_retention ch now (retention st) in
          (Inr (), st\<lparr>series := snd (compact_agent cutoff (sm_agent_id sample)
                                        (insert_sample sample (series st)))\<rparr>))"

fun validate_samples ::
  "chrono \<Rightarrow> ('n \<Rightarrow> bool) \<Rightarrow> datetime \<Rightarrow> 'n metric_sample list \<Rightarrow> metric_error + unit" where
  "validate_samples ch non_finite now [] = Inr ()"
| "validate_samples ch non_finite now (s # ss) =
     and_then (validate_sample ch non_finite now s) (\<lambda>_. validate_samples ch non_finite now ss)"

definition store_write_batch ::
  "chrono \<Rightarrow> ('n \<Rightarrow> bool) \<Rightarrow> datetime \<Rightarrow> 'n metric_sample list \<Rightarrow> 'n metric_state
    \<Rightarrow> (metric_error + nat) \<times> 'n metric_state" where
  "store_write_batch ch non_finite now samples st =
     (if length samples > MAX_BATCH_SAMPLES then (Inl (BatchTooLarge (length samples)), st)
      else case validate_samples ch non_finite now samples of
        Inl e \<Rightarrow> (Inl e, st)
      | Inr _ \<Rightarrow>
          let cutoff = cutoff_for_retention ch now (retention st);
              inserted = fold insert_sample samples (series st);
              affected = remdups (map sm_agent_id samples)
          in (Inr (length samples),
              st\<lparr>series := fold (\<lambda>a. snd \<circ> compact_agent cutoff a) affected inserted\<rparr>))"

definition store_query ::
  "chrono \<Rightarrow> datetime \<Rightarrow> agent_id \<Rightarrow> query_range \<Rightarrow> 'n metric_state \<Rightarrow> 'n metric_series" where
  "store_query ch now a window st =
     (let cutoff = max (cutoff_for_retention ch now (to_chrono_duration window))
                       (cutoff_for_retention ch now (retention st))
      in \<lparr>ser_agent_id = a,
          ser_samples = (case hm_get (series st) a of
                           None \<Rightarrow> [] | Some es \<Rightarrow> samples_of a (bt_from cutoff es))\<rparr>)"

definition store_latest :: "chrono \<Rightarrow> datetime \<Rightarrow> agent_id \<Rightarrow> 'n metric_state \<Rightarrow> 'n metric_sample option" where
  "store_latest ch now a st =
     (let cutoff = cutoff_for_retention ch now (retention st)
      in case hm_get (series st) a of
           None \<Rightarrow> None
         | Some es \<Rightarrow>
             if es = [] then None
             else case last es of (t, p) \<Rightarrow>
               if t \<ge> cutoff then Some \<lparr>sm_agent_id = a, sm_sample_at = t, sm_fields_json = p\<rparr> else None)"

definition store_list_agents :: "chrono \<Rightarrow> datetime \<Rightarrow> 'n metric_state \<Rightarrow> agent_id list" where
  "store_list_agents ch now st =
     (let cutoff = cutoff_for_retention ch now (retention st)
      in map fst (filter (\<lambda>(_, es). es \<noteq> [] \<and> fst (last es) \<ge> cutoff) (series st)))"

definition store_set_retention ::
  "chrono \<Rightarrow> datetime \<Rightarrow> duration \<Rightarrow> 'n metric_state \<Rightarrow> (metric_error + unit) \<times> 'n metric_state" where
  "store_set_retention ch now r st =
     (if r \<le> 0 then (Inl RetentionNotPositive, st)
      else if r > days MAX_RETENTION_DAYS then (Inl RetentionTooLong, st)
      else (Inr (), snd (store_apply_retention ch now r st)))"

definition store_health :: "'n metric_state \<Rightarrow> metric_backend_health" where
  "store_health st =
     \<lparr>h_backend = ''in_memory'', h_status = Healthy, h_detail = None, h_samples = Some (store_len st)\<rparr>"

text \<open>
  The trait's own \<open>write_batch\<close>: one write after the other, stopping at the first error, and
  the number of samples when there was none. Every write reads the clock for itself:
  \<open>clk i\<close> is what the \<open>i\<close>-th one reads.
\<close>

fun write_each ::
  "('t \<Rightarrow> 's \<Rightarrow> 'st \<Rightarrow> (metric_error + unit) \<times> 'st) \<Rightarrow> (nat \<Rightarrow> 't) \<Rightarrow> 's list \<Rightarrow> 'st
    \<Rightarrow> (metric_error + unit) \<times> 'st" where
  "write_each put clk [] st = (Inr (), st)"
| "write_each put clk (s # ss) st =
     (case put (clk 0) s st of
        (Inl e, st') \<Rightarrow> (Inl e, st')
      | (Inr _, st') \<Rightarrow> write_each put (clk \<circ> Suc) ss st')"

definition default_write_batch ::
  "('t \<Rightarrow> 's \<Rightarrow> 'st \<Rightarrow> (metric_error + unit) \<times> 'st) \<Rightarrow> (nat \<Rightarrow> 't) \<Rightarrow> 's list \<Rightarrow> 'st
    \<Rightarrow> (metric_error + nat) \<times> 'st" where
  "default_write_batch put clk samples st =
     (let count = length samples in
      case write_each put clk samples st of
        (Inl e, st') \<Rightarrow> (Inl e, st')
      | (Inr _, st') \<Rightarrow> (Inr count, st'))"

definition write_json ::
  "chrono \<Rightarrow> ('n \<Rightarrow> bool) \<Rightarrow> datetime \<Rightarrow> agent_id \<Rightarrow> datetime \<Rightarrow> 'n json \<Rightarrow> 'n metric_state
    \<Rightarrow> (metric_error + unit) \<times> 'n metric_state" where
  "write_json ch non_finite now a at members st =
     store_write ch non_finite now \<lparr>sm_agent_id = a, sm_sample_at = at, sm_fields_json = members\<rparr> st"

definition write_json_batch ::
  "chrono \<Rightarrow> ('n \<Rightarrow> bool) \<Rightarrow> datetime \<Rightarrow> (agent_id \<times> datetime \<times> 'n json) list \<Rightarrow> 'n metric_state
    \<Rightarrow> (metric_error + nat) \<times> 'n metric_state" where
  "write_json_batch ch non_finite now rows st =
     store_write_batch ch non_finite now
       (map (\<lambda>(a, at, members). \<lparr>sm_agent_id = a, sm_sample_at = at, sm_fields_json = members\<rparr>) rows) st"

section \<open>Specification vocabulary\<close>

text \<open>The estimated size, the depth and the finiteness of a payload.\<close>

fun json_bytes :: "'n json \<Rightarrow> nat" where
  "json_bytes JNull = 4"
| "json_bytes (JBool b) = (if b then 4 else 5)"
| "json_bytes (JNumber n) = 24"
| "json_bytes (JString s) = length s + 2"
| "json_bytes (JArray items) = 2 + sum_list (map (\<lambda>v. 1 + json_bytes v) items)"
| "json_bytes (JObject ms) = 2 + sum_list (map (\<lambda>(k, v). length k + 4 + json_bytes v) ms)"

fun json_fits :: "('n \<Rightarrow> bool) \<Rightarrow> nat \<Rightarrow> 'n json \<Rightarrow> bool" where
  "json_fits non_finite d (JArray items) \<longleftrightarrow> d \<le> 16 \<and> (\<forall>v \<in> set items. json_fits non_finite (Suc d) v)"
| "json_fits non_finite d (JObject ms) \<longleftrightarrow> d \<le> 16 \<and> (\<forall>(k, v) \<in> set ms. json_fits non_finite (Suc d) v)"
| "json_fits non_finite d (JNumber n) \<longleftrightarrow> d \<le> 16 \<and> \<not> non_finite n"
| "json_fits non_finite d _ \<longleftrightarrow> d \<le> 16"

definition bt_ok :: "('k::linorder \<times> 'v) list \<Rightarrow> bool" where
  "bt_ok es = sorted_wrt (<) (map fst es)"

definition store_ok :: "'n metric_state \<Rightarrow> bool" where
  "store_ok st \<longleftrightarrow> hm_ok (series st) \<and>
     (\<forall>a es. hm_get (series st) a = Some es \<longrightarrow> bt_ok es \<and> es \<noteq> [] \<and> length es \<le> MAX_SAMPLES_PER_AGENT) \<and>
     milliseconds 1 \<le> retention st \<and> retention st \<le> days MAX_RETENTION_DAYS"

text \<open>The samples of an agent as a function of time.\<close>

definition sample_at :: "'n metric_state \<Rightarrow> agent_id \<Rightarrow> datetime \<Rightarrow> 'n json option" where
  "sample_at st a t = (case hm_get (series st) a of None \<Rightarrow> None | Some es \<Rightarrow> map_of es t)"

section \<open>Lemmas on payloads\<close>

lemma add_bytes_ok: "add_bytes acc n = Inr m \<longleftrightarrow> acc + n \<le> 65536 \<and> m = acc + n"
  by (auto simp: add_bytes_def Let_def sat_add64_def u64_max_def limit_simps)

lemma add_bytes_sat_ok:
  "add_bytes acc (sat_add64 n k) = Inr m \<longleftrightarrow> acc + (n + k) \<le> 65536 \<and> m = acc + (n + k)"
  by (auto simp: add_bytes_ok sat_add64_def u64_max_def)

lemma walk_ok:
  "walk nf v d acc = Inr m \<longleftrightarrow> json_fits nf d v \<and> acc + json_bytes v \<le> 65536 \<and> m = acc + json_bytes v"
  "d \<le> 16 \<Longrightarrow> acc \<le> 65536 \<Longrightarrow> walk_items nf items d acc = Inr m \<longleftrightarrow>
     (\<forall>v \<in> set items. json_fits nf (Suc d) v) \<and>
     acc + sum_list (map (\<lambda>v. 1 + json_bytes v) items) \<le> 65536 \<and>
     m = acc + sum_list (map (\<lambda>v. 1 + json_bytes v) items)"
  "d \<le> 16 \<Longrightarrow> acc \<le> 65536 \<Longrightarrow> walk_fields nf ms d acc = Inr m \<longleftrightarrow>
     (\<forall>(k, v) \<in> set ms. json_fits nf (Suc d) v) \<and>
     acc + sum_list (map (\<lambda>(k, v). length k + 4 + json_bytes v) ms) \<le> 65536 \<and>
     m = acc + sum_list (map (\<lambda>(k, v). length k + 4 + json_bytes v) ms)"
proof (induction nf v d acc and nf items d acc and nf ms d acc arbitrary: m and m and m
    rule: walk_walk_items_walk_fields.induct)
  case (1 nf v d acc)
  show ?case
  proof (cases "d \<le> 16")
    case False
    then show ?thesis by (cases v) (simp_all add: walk.simps limit_simps)
  next
    case True
    then have d: "\<not> d > MAX_SAMPLE_JSON_DEPTH" by (simp add: limit_simps)
    show ?thesis
    proof (cases v)
      case (JString s)
      with d True show ?thesis by (auto simp: walk.simps add_bytes_sat_ok)
    next
      case (JArray items)
      with d True 1(1) [OF d JArray True] show ?thesis
        by (auto simp: walk.simps and_then_ok_iff add_bytes_ok)
    next
      case (JObject ms)
      with d True 1(2) [OF d JObject True] show ?thesis
        by (auto simp: walk.simps and_then_ok_iff add_bytes_ok)
    qed (use d True in \<open>auto simp: walk.simps add_bytes_ok\<close>)
  qed
next
  case (3 nf item items d acc)
  then show ?case by (auto simp: and_then_ok_iff add_bytes_ok)
next
  case (5 nf k v ms d acc)
  then show ?case by (auto simp: and_then_ok_iff add_bytes_sat_ok)
qed auto

section \<open>Lemmas on ordered entries\<close>

lemma set_bt_insert_keys: "fst ` set (bt_insert k v es) = insert k (fst ` set es)"
  by (induction k v es rule: bt_insert.induct) auto

lemma bt_ok_Cons: "bt_ok ((k, v) # es) \<longleftrightarrow> (\<forall>j \<in> fst ` set es. k < j) \<and> bt_ok es"
  by (auto simp: bt_ok_def)

lemma bt_ok_Nil [simp]: "bt_ok []"
  by (simp add: bt_ok_def)

lemma bt_ok_insert: "bt_ok es \<Longrightarrow> bt_ok (bt_insert k v es)"
  by (induction k v es rule: bt_insert.induct) (auto simp: bt_ok_Cons set_bt_insert_keys)

lemma map_of_bt_insert: "map_of (bt_insert k v es) = (map_of es)(k \<mapsto> v)"
  by (induction k v es rule: bt_insert.induct) (auto simp: fun_eq_iff)

lemma bt_insert_not_Nil [simp]: "bt_insert k v es \<noteq> []"
  by (induction k v es rule: bt_insert.induct) auto

lemma bt_ok_from: "bt_ok es \<Longrightarrow> bt_ok (bt_from c es)"
  by (induction es) (auto simp: bt_from_def bt_ok_Cons)

lemma bt_ok_drop: "bt_ok es \<Longrightarrow> bt_ok (drop n es)"
  by (simp add: bt_ok_def sorted_wrt_drop flip: drop_map)

lemma bt_ok_distinct: "bt_ok es \<Longrightarrow> distinct (map fst es)"
  by (simp add: bt_ok_def strict_sorted_iff)

lemma map_of_bt_from: "map_of (bt_from c es) t = (if c \<le> t then map_of es t else None)"
  by (induction es) (auto simp: bt_from_def)

lemma bt_from_insert:
  "bt_ok es \<Longrightarrow> bt_from c (bt_insert k v es) = (if c \<le> k then bt_insert k v (bt_from c es) else bt_from c es)"
proof (induction k v es rule: bt_insert.induct)
  case (2 k v j w es)
  have "c \<le> k \<Longrightarrow> k < j \<Longrightarrow> bt_insert k v (bt_from c es) = (k, v) # bt_from c es"
    using 2(2) by (cases "bt_from c es") (auto simp: bt_ok_Cons bt_from_def filter_eq_Cons_iff)
  with 2 show ?case by (auto simp: bt_ok_Cons bt_from_def)
qed (auto simp: bt_from_def)

text \<open>The newest \<open>n\<close> entries.\<close>

definition newest :: "nat \<Rightarrow> 'a list \<Rightarrow> 'a list" where
  "newest n es = drop (length es - n) es"

lemma compact_series_newest:
  "snd (compact_series cutoff es) = newest MAX_SAMPLES_PER_AGENT (bt_from cutoff es)"
  "fst (compact_series cutoff es) = length es - length (snd (compact_series cutoff es))"
  by (auto simp: compact_series_def newest_def Let_def)

lemma length_newest: "length (newest n es) = min n (length es)"
  by (simp add: newest_def min_def)

lemma bt_insert_append:
  "(\<forall>x \<in> fst ` set a. x < k) \<Longrightarrow> bt_insert k v (a @ b) = a @ bt_insert k v b"
  by (induction a) auto

lemma bt_insert_prefix:
  "(\<forall>x \<in> fst ` set b. k < x) \<Longrightarrow> bt_insert k v (a @ b) = bt_insert k v a @ b"
proof (induction k v a rule: bt_insert.induct)
  case (1 k v)
  then show ?case by (cases b) auto
qed auto

lemma length_bt_insert: "length es \<le> length (bt_insert k v es)"
  by (induction k v es rule: bt_insert.induct) auto

lemma newest_append: "n \<le> length b \<Longrightarrow> newest n (a @ b) = newest n b"
  by (simp add: newest_def)

lemma bt_ok_append: "bt_ok (a @ b) \<Longrightarrow> x \<in> fst ` set a \<Longrightarrow> y \<in> fst ` set b \<Longrightarrow> x < y"
  by (auto simp: bt_ok_def sorted_wrt_append)

lemma newest_insert_newest:
  assumes "bt_ok es"
  shows "newest n (bt_insert k v (newest n es)) = newest n (bt_insert k v es)"
proof (cases "length es \<le> n")
  case True
  then show ?thesis by (simp add: newest_def)
next
  case False
  define a b where "a = take (length es - n) es" and "b = drop (length es - n) es"
  have es: "es = a @ b" "length b = n" using False by (simp_all add: a_def b_def)
  have new: "newest n es = b" using es by (simp add: newest_def)
  show ?thesis
  proof (cases "\<forall>x \<in> fst ` set b. k < x")
    case True
    then have "bt_insert k v b = (k, v) # b" by (cases b) auto
    then show ?thesis
      using True es new bt_insert_prefix [of b k v a] newest_append [of n b]
      by (simp add: newest_def)
  next
    case False
    then obtain y where "y \<in> fst ` set b" "y \<le> k" by (meson not_less)
    then have "\<forall>x \<in> fst ` set a. x < k" using bt_ok_append [of a b] assms es by fastforce
    then show ?thesis
      using es new bt_insert_append [of a k v b] newest_append [of n "bt_insert k v b" a]
        length_bt_insert [of b k v] by simp
  qed
qed

text \<open>Compacting between two writes changes nothing that compacting afterwards would keep.\<close>

lemma compact_insert_compact:
  assumes "bt_ok es"
  shows "snd (compact_series c (bt_insert k v (snd (compact_series c es)))) =
         snd (compact_series c (bt_insert k v es))"
proof -
  let ?n = "MAX_SAMPLES_PER_AGENT"
  have idem: "bt_from c (newest ?n (bt_from c es)) = newest ?n (bt_from c es)"
    by (auto simp: bt_from_def newest_def intro!: filter_True dest: in_set_dropD)
  have ok: "bt_ok (newest ?n (bt_from c es))" by (simp add: newest_def bt_ok_drop bt_ok_from assms)
  have "newest ?n (newest ?n xs) = newest ?n xs" for xs :: "'a entries"
    by (simp add: newest_def)
  then show ?thesis
    using assms ok idem newest_insert_newest [OF bt_ok_from [OF assms, of c], of ?n k v]
    by (simp add: compact_series_newest bt_from_insert)
qed

section \<open>Lemmas on the store\<close>

definition entries_of :: "agent_id \<Rightarrow> (agent_id, 'n entries) table \<Rightarrow> 'n entries" where
  "entries_of a table = (case hm_get table a of None \<Rightarrow> [] | Some es \<Rightarrow> es)"

lemma entries_of_insert_sample:
  "entries_of a (insert_sample s table) =
     (if a = sm_agent_id s then bt_insert (sm_sample_at s) (sm_fields_json s) (entries_of a table)
      else entries_of a table)"
  by (auto simp: entries_of_def insert_sample_def Let_def table_simps)

lemma compact_series_Nil: "compact_series c [] = (0, [])"
  by (simp add: compact_series_def bt_from_def)

lemma entries_of_compact_agent:
  "entries_of a (snd (compact_agent c b table)) =
     (if a = b then snd (compact_series c (entries_of a table)) else entries_of a table)"
  by (auto simp: entries_of_def compact_agent_def table_simps compact_series_Nil
           split: option.splits prod.splits)

lemma entries_of_compact_agents:
  "distinct as \<Longrightarrow>
   entries_of a (fold (\<lambda>a. snd \<circ> compact_agent c a) as table) =
     (if a \<in> set as then snd (compact_series c (entries_of a table)) else entries_of a table)"
  by (induction as arbitrary: table) (auto simp: entries_of_compact_agent)

definition table_ok :: "(agent_id, 'n entries) table \<Rightarrow> bool" where
  "table_ok table \<longleftrightarrow> hm_ok table \<and> (\<forall>a es. hm_get table a = Some es \<longrightarrow> bt_ok es \<and> es \<noteq> [])"

lemma table_ok_entries: "table_ok table \<Longrightarrow> bt_ok (entries_of a table)"
  by (auto simp: table_ok_def entries_of_def split: option.splits)

lemma table_ok_insert_sample: "table_ok table \<Longrightarrow> table_ok (insert_sample s table)"
  by (auto simp: table_ok_def insert_sample_def Let_def table_simps bt_ok_insert
           split: option.splits if_splits)

lemma bt_ok_compact: "bt_ok es \<Longrightarrow> bt_ok (snd (compact_series c es))"
  by (simp add: compact_series_newest newest_def bt_ok_drop bt_ok_from)

lemma length_compact: "length (snd (compact_series c es)) \<le> MAX_SAMPLES_PER_AGENT"
  by (simp add: compact_series_newest length_newest)

lemma table_ok_compact_agent: "table_ok table \<Longrightarrow> table_ok (snd (compact_agent c a table))"
  using bt_ok_compact [of "entries_of a table" c]
  by (cases "hm_get table a"; cases "compact_series c (entries_of a table)")
     (auto simp: table_ok_def compact_agent_def entries_of_def table_simps split: if_splits)

lemma store_ok_entries:
  "store_ok st \<longleftrightarrow> table_ok (series st) \<and> (\<forall>a. length (entries_of a (series st)) \<le> MAX_SAMPLES_PER_AGENT) \<and>
     milliseconds 1 \<le> retention st \<and> retention st \<le> days MAX_RETENTION_DAYS"
  by (auto simp: store_ok_def table_ok_def entries_of_def split: option.splits)

lemma sample_at_entries: "sample_at st a t = map_of (entries_of a (series st)) t"
  by (simp add: sample_at_def entries_of_def split: option.split)

lemma store_query_entries:
  "ser_samples (store_query ch now a window st) =
     samples_of a (bt_from (max (cutoff_for_retention ch now (to_chrono_duration window))
                                (cutoff_for_retention ch now (retention st))) (entries_of a (series st)))"
  by (simp add: store_query_def entries_of_def Let_def samples_of_def bt_from_def split: option.split)

lemma store_write_cases:
  assumes "store_write ch nf now s st = (r, st')"
  obtains (refused) e where "validate_sample ch nf now s = Inl e" "r = Inl e" "st' = st"
  | (written) "validate_sample ch nf now s = Inr ()" "r = Inr ()"
      "st' = st\<lparr>series := snd (compact_agent (cutoff_for_retention ch now (retention st)) (sm_agent_id s)
                 (insert_sample s (series st)))\<rparr>"
  using assms by (auto simp: store_write_def Let_def split: sum.splits)

lemma entries_of_write:
  assumes "store_write ch nf now s st = (Inr (), st')"
  shows "entries_of a (series st') =
     (if a = sm_agent_id s
      then snd (compact_series (cutoff_for_retention ch now (retention st))
             (bt_insert (sm_sample_at s) (sm_fields_json s) (entries_of a (series st))))
      else entries_of a (series st))"
    and "retention st' = retention st"
  using assms by (cases rule: store_write_cases; simp add: entries_of_compact_agent entries_of_insert_sample)+

lemma store_write_ok:
  assumes "store_ok st" "store_write ch nf now s st = (r, st')"
  shows "store_ok st'"
  using assms(2)
proof (cases rule: store_write_cases)
  case written
  then have ent: "store_write ch nf now s st = (Inr (), st')" using assms(2) by simp
  have "table_ok (series st')"
    using written(3) assms(1) by (simp add: store_ok_entries table_ok_compact_agent table_ok_insert_sample)
  moreover have "length (entries_of a (series st')) \<le> MAX_SAMPLES_PER_AGENT" for a
    using assms(1) by (simp add: entries_of_write(1) [OF ent] store_ok_entries length_compact)
  ultimately show ?thesis
    using assms(1) entries_of_write(2) [OF ent] by (simp add: store_ok_entries)
qed (use assms in simp)

lemma table_ok_fold_insert: "table_ok table \<Longrightarrow> table_ok (fold insert_sample ss table)"
  by (induction ss arbitrary: table) (auto simp: table_ok_insert_sample)

lemma table_ok_fold_compact: "table_ok table \<Longrightarrow> table_ok (fold (\<lambda>a. snd \<circ> compact_agent c a) as table)"
  by (induction as arbitrary: table) (auto simp: table_ok_compact_agent)

lemma entries_of_fold_insert_other:
  "a \<notin> sm_agent_id ` set ss \<Longrightarrow> entries_of a (fold insert_sample ss table) = entries_of a table"
  by (induction ss arbitrary: table) (auto simp: entries_of_insert_sample)

lemma store_write_batch_cases:
  assumes "store_write_batch ch nf now ss st = (r, st')"
  obtains (refused) e where "r = Inl e" "st' = st"
  | (written) "r = Inr (length ss)" "validate_samples ch nf now ss = Inr ()" "retention st' = retention st"
      "series st' = fold (\<lambda>a. snd \<circ> compact_agent (cutoff_for_retention ch now (retention st)) a)
                 (remdups (map sm_agent_id ss)) (fold insert_sample ss (series st))"
  using assms by (auto simp: store_write_batch_def Let_def split: sum.splits if_splits)

lemma store_write_batch_ok:
  assumes "store_ok st" "store_write_batch ch nf now ss st = (r, st')"
  shows "store_ok st'"
  using assms(2)
proof (cases rule: store_write_batch_cases)
  case written
  have "table_ok (series st')"
    unfolding written(4) using assms(1)
    by (simp add: store_ok_entries table_ok_fold_compact table_ok_fold_insert)
  moreover have "length (entries_of a (series st')) \<le> MAX_SAMPLES_PER_AGENT" for a
    unfolding written(4) entries_of_compact_agents [OF distinct_remdups]
    using assms(1) entries_of_fold_insert_other [of a ss] by (auto simp: store_ok_entries length_compact)
  ultimately show ?thesis using assms(1) written(3) by (simp add: store_ok_entries)
qed (use assms in simp)

text \<open>Compacting everything compacts every series.\<close>

lemma compact_all_keys: "fst ` set (snd (compact_all c table)) \<subseteq> fst ` set table"
proof (induction c table rule: compact_all.induct)
  case (2 c a es table)
  from 2 [OF prod.collapse] have "fst ` set (snd (compact_all c table)) \<subseteq> insert a (fst ` set table)"
    by blast
  then show ?case by (simp add: case_prod_unfold)
qed simp

lemma compact_all_hm_ok: "hm_ok table \<Longrightarrow> hm_ok (snd (compact_all c table))"
proof (induction c table rule: compact_all.induct)
  case (2 c a es table)
  then have "a \<notin> fst ` set table" "hm_ok table" by (simp_all add: hm_ok_def)
  then have "a \<notin> fst ` set (snd (compact_all c table))" "hm_ok (snd (compact_all c table))"
    using compact_all_keys [of c table] 2(1) [OF prod.collapse] by blast+
  then show ?case by (simp add: hm_ok_def case_prod_unfold)
qed simp

lemma entries_of_Cons: "entries_of a ((b, es) # table) = (if a = b then es else entries_of a table)"
  by (simp add: entries_of_def hm_get_def)

lemma entries_of_missing: "a \<notin> fst ` set table \<Longrightarrow> entries_of a table = []"
  by (simp add: entries_of_def hm_get_None_iff [THEN iffD2])

lemma entries_of_compact_all:
  "hm_ok table \<Longrightarrow> entries_of a (snd (compact_all c table)) = snd (compact_series c (entries_of a table))"
proof (induction c table rule: compact_all.induct)
  case (1 c)
  then show ?case by (simp add: entries_of_def compact_series_Nil)
next
  case (2 c b es table)
  have "b \<notin> fst ` set table" "hm_ok table" using 2(2) by (auto simp: hm_ok_def)
  moreover then have "b \<notin> fst ` set (snd (compact_all c table))" using compact_all_keys by blast
  ultimately show ?case
    using 2(1) by (auto simp: entries_of_Cons entries_of_missing split: prod.splits)
qed

lemma compact_all_not_Nil: "(a, es) \<in> set (snd (compact_all c table)) \<Longrightarrow> es \<noteq> []"
  by (induction c table rule: compact_all.induct) (auto split: prod.splits if_splits)

lemma table_ok_compact_all:
  assumes "table_ok table"
  shows "table_ok (snd (compact_all c table))"
proof -
  have ok: "hm_ok table" using assms by (simp add: table_ok_def)
  have "bt_ok es" if "hm_get (snd (compact_all c table)) a = Some es" for a es
    using bt_ok_compact [OF table_ok_entries [OF assms, of a], of c] entries_of_compact_all [OF ok, of a c] that
    by (simp add: entries_of_def [of a "snd (compact_all c table)"])
  moreover have "hm_get (snd (compact_all c table)) a = Some es \<Longrightarrow> es \<noteq> []" for a es
    using compact_all_not_Nil hm_get_Some_in by metis
  ultimately show ?thesis
    using compact_all_hm_ok [OF ok] unfolding table_ok_def by blast
qed

lemma normalize_retention_range:
  "milliseconds 1 \<le> normalize_retention r \<and> normalize_retention r \<le> days MAX_RETENTION_DAYS"
  by (auto simp: normalize_retention_def milliseconds_def days_def seconds_def limit_simps)

lemma compacted_store_ok:
  assumes "store_ok st" "milliseconds 1 \<le> r" "r \<le> days MAX_RETENTION_DAYS"
  shows "store_ok (st\<lparr>retention := r, series := snd (compact_all c (series st))\<rparr>)"
  using assms table_ok_compact_all [of "series st" c]
  by (auto simp: store_ok_entries table_ok_def entries_of_compact_all length_compact)

lemma store_compact_eq:
  "snd (store_compact ch now st) =
     st\<lparr>retention := retention st, series := snd (compact_all (cutoff_for_retention ch now (retention st)) (series st))\<rparr>"
  by (simp add: store_compact_def split: prod.split)

lemma store_set_retention_eq:
  "snd (store_set_retention ch now r st) =
     (if 0 < r \<and> r \<le> days MAX_RETENTION_DAYS
      then st\<lparr>retention := normalize_retention r,
              series := snd (compact_all (cutoff_for_retention ch now (normalize_retention r)) (series st))\<rparr>
      else st)"
  by (auto simp: store_set_retention_def store_apply_retention_def Let_def split: prod.split)

text \<open>Every operation of the store, in any order and at any time.\<close>

inductive store_step :: "chrono \<Rightarrow> ('n \<Rightarrow> bool) \<Rightarrow> 'n metric_state \<Rightarrow> 'n metric_state \<Rightarrow> bool"
  for ch non_finite where
  step_write: "store_write ch non_finite now s st = (r, st') \<Longrightarrow> store_step ch non_finite st st'"
| step_write_batch:
    "store_write_batch ch non_finite now ss st = (b, st') \<Longrightarrow> store_step ch non_finite st st'"
| step_compact: "store_step ch non_finite st (snd (store_compact ch now st))"
| step_set_retention: "store_step ch non_finite st (snd (store_set_retention ch now d st))"

lemma store_step_ok: "store_step ch nf st st' \<Longrightarrow> store_ok st \<Longrightarrow> store_ok st'"
proof (induction rule: store_step.induct)
  case (step_compact st now)
  then show ?case unfolding store_compact_eq by (intro compacted_store_ok) (simp_all add: store_ok_def)
next
  case (step_set_retention st now d)
  then show ?case unfolding store_set_retention_eq
    using normalize_retention_range by (auto intro: compacted_store_ok)
qed (auto intro: store_write_ok store_write_batch_ok)

lemma store_ok_new: "store_ok (with_retention r)"
  using normalize_retention_range [of r] by (simp add: store_ok_def with_retention_def)

lemma store_steps_ok: "(store_step ch nf)\<^sup>*\<^sup>* st st' \<Longrightarrow> store_ok st \<Longrightarrow> store_ok st'"
  by (induction rule: rtranclp_induct) (auto intro: store_step_ok)

section \<open>Batches\<close>

definition insert_own :: "agent_id \<Rightarrow> 'n metric_sample \<Rightarrow> 'n entries \<Rightarrow> 'n entries" where
  "insert_own a s es = (if sm_agent_id s = a then bt_insert (sm_sample_at s) (sm_fields_json s) es else es)"

lemma entries_of_fold_insert:
  "entries_of a (fold insert_sample ss table) = fold (insert_own a) ss (entries_of a table)"
  by (induction ss arbitrary: table) (auto simp: entries_of_insert_sample insert_own_def)

lemma fold_insert_own_other: "a \<notin> sm_agent_id ` set ss \<Longrightarrow> fold (insert_own a) ss es = es"
  by (induction ss arbitrary: es) (auto simp: insert_own_def)

lemma bt_ok_insert_own: "bt_ok es \<Longrightarrow> bt_ok (insert_own a s es)"
  by (simp add: insert_own_def bt_ok_insert)

lemma compact_idem: "snd (compact_series c (snd (compact_series c es))) = snd (compact_series c es)"
proof -
  have "bt_from c (newest n (bt_from c es)) = newest n (bt_from c es)" for n
    by (auto simp: bt_from_def newest_def intro!: filter_True dest: in_set_dropD)
  then show ?thesis by (simp add: compact_series_newest) (simp add: newest_def)
qed

lemma compact_insert_own:
  "bt_ok es \<Longrightarrow> snd (compact_series c (insert_own a s (snd (compact_series c es)))) =
     snd (compact_series c (insert_own a s es))"
  by (simp add: insert_own_def compact_insert_compact compact_idem)

lemma compact_fold_insert:
  "bt_ok es \<Longrightarrow> snd (compact_series c (fold (insert_own a) ss (snd (compact_series c es)))) =
     snd (compact_series c (fold (insert_own a) ss es))"
proof (induction ss arbitrary: es)
  case Nil
  then show ?case by (simp add: compact_idem)
next
  case (Cons s ss)
  let ?C = "\<lambda>es. snd (compact_series c es)"
  have "?C (fold (insert_own a) (s # ss) (?C es)) = ?C (fold (insert_own a) ss (?C (insert_own a s (?C es))))"
    using Cons.IH [of "insert_own a s (?C es)"] Cons.prems by (simp add: bt_ok_insert_own bt_ok_compact)
  also have "\<dots> = ?C (fold (insert_own a) ss (?C (insert_own a s es)))"
    using compact_insert_own [OF Cons.prems] by simp
  also have "\<dots> = ?C (fold (insert_own a) (s # ss) es)"
    using Cons.IH [of "insert_own a s es"] Cons.prems by (simp add: bt_ok_insert_own)
  finally show ?case .
qed

lemma write_each_entries:
  assumes "validate_samples ch nf now ss = Inr ()" "table_ok (series st)"
  shows "\<exists>st'. write_each (store_write ch nf) (\<lambda>_. now) ss st = (Inr (), st') \<and>
     retention st' = retention st \<and>
     (\<forall>a. entries_of a (series st') =
        (if a \<in> sm_agent_id ` set ss
         then snd (compact_series (cutoff_for_retention ch now (retention st))
                (fold (insert_own a) ss (entries_of a (series st))))
         else entries_of a (series st)))"
  using assms
proof (induction ss arbitrary: st)
  case (Cons s ss)
  let ?c = "cutoff_for_retention ch now (retention st)"
  let ?st = "st\<lparr>series := snd (compact_agent ?c (sm_agent_id s) (insert_sample s (series st)))\<rparr>"
  from Cons.prems(1) have v: "validate_sample ch nf now s = Inr ()" "validate_samples ch nf now ss = Inr ()"
    by (auto simp: and_then_ok_iff)
  then have step: "store_write ch nf now s st = (Inr (), ?st)"
    by (simp add: store_write_def Let_def)
  have "table_ok (series ?st)"
    using Cons.prems(2) by (simp add: table_ok_compact_agent table_ok_insert_sample)
  from Cons.IH [OF v(2) this] obtain st' where
    run: "write_each (store_write ch nf) (\<lambda>_. now) ss ?st = (Inr (), st')" "retention st' = retention st"
    and ent: "\<And>a. entries_of a (series st') = (if a \<in> sm_agent_id ` set ss
       then snd (compact_series ?c (fold (insert_own a) ss (entries_of a (series ?st))))
       else entries_of a (series ?st))" by auto
  have "entries_of a (series ?st) =
      (if a = sm_agent_id s then snd (compact_series ?c (insert_own a s (entries_of a (series st))))
       else entries_of a (series st))" for a
    by (simp add: entries_of_compact_agent entries_of_insert_sample insert_own_def)
  moreover have "bt_ok (entries_of a (series st))" for a
    using Cons.prems(2) by (rule table_ok_entries)
  ultimately have "entries_of a (series st') = (if a \<in> sm_agent_id ` set (s # ss)
       then snd (compact_series ?c (fold (insert_own a) (s # ss) (entries_of a (series st))))
       else entries_of a (series st))" for a
    using ent [of a] compact_fold_insert [OF bt_ok_insert_own, of "entries_of a (series st)" ?c a ss a s]
    by (auto simp: fold_insert_own_other insert_own_def)
  then show ?case using step run by (simp add: comp_def)
qed simp

section \<open>The backend contract\<close>

text \<open>
  What a metric backend promises its callers: a refused write changes nothing, and a write
  touches the samples of its own agent only. The trait's default \<open>write_batch\<close> is a client.
\<close>

locale metric_backend =
  fixes put :: "'t \<Rightarrow> 's \<Rightarrow> 'st \<Rightarrow> (metric_error + unit) \<times> 'st"
    and agent_of :: "'s \<Rightarrow> agent_id"
    and contents :: "'st \<Rightarrow> agent_id \<Rightarrow> datetime \<Rightarrow> 'p option"
    and good :: "'st \<Rightarrow> bool"
  assumes refused_unchanged: "put now s st = (Inl e, st') \<Longrightarrow> st' = st"
    and put_frame: "good st \<Longrightarrow> put now s st = (r, st') \<Longrightarrow> a \<noteq> agent_of s \<Longrightarrow> contents st' a = contents st a"
    and put_good: "good st \<Longrightarrow> put now s st = (r, st') \<Longrightarrow> good st'"
begin

lemma write_each_good:
  "good st \<Longrightarrow> write_each put clk ss st = (r, st') \<Longrightarrow> good st'"
  by (induction ss arbitrary: st clk) (auto split: prod.splits sum.splits dest: put_good)

lemma write_each_frame:
  "good st \<Longrightarrow> write_each put clk ss st = (r, st') \<Longrightarrow> a \<notin> agent_of ` set ss \<Longrightarrow>
   contents st' a = contents st a"
proof (induction ss arbitrary: st clk)
  case (Cons s ss)
  obtain w st1 where w: "put (clk 0) s st = (w, st1)" by fastforce
  have "good st1" "contents st1 a = contents st a"
    using put_good [OF Cons.prems(1) w] put_frame [OF Cons.prems(1) w] Cons.prems(3) by auto
  then show ?case using Cons.IH [of st1 "clk \<circ> Suc"] Cons.prems w by (cases w) (auto simp: comp_def)
qed simp

lemma batch_good: "good st \<Longrightarrow> default_write_batch put clk ss st = (r, st') \<Longrightarrow> good st'"
  by (auto simp: default_write_batch_def Let_def split: prod.splits sum.splits dest: write_each_good)

lemma batch_frame:
  "good st \<Longrightarrow> default_write_batch put clk ss st = (r, st') \<Longrightarrow> a \<notin> agent_of ` set ss \<Longrightarrow>
   contents st' a = contents st a"
  by (auto simp: default_write_batch_def Let_def split: prod.splits sum.splits dest: write_each_frame)

end

lemma store_write_frame:
  assumes "store_write ch nf now s st = (r, st')" "a \<noteq> sm_agent_id s"
  shows "sample_at st' a = sample_at st a"
  using assms(1)
proof (cases rule: store_write_cases)
  case written
  then show ?thesis using assms entries_of_write(1) [of ch nf now s st st' a]
    by (simp add: fun_eq_iff sample_at_entries)
qed simp

interpretation in_memory: metric_backend "store_write ch non_finite" sm_agent_id sample_at store_ok
  for ch non_finite
proof
  fix now s st st' e
  show "store_write ch non_finite now s st = (Inl e, st') \<Longrightarrow> st' = st"
    by (erule store_write_cases) simp_all
qed (use store_write_ok store_write_frame in blast)+

lemma samples_of_times: "map sm_sample_at (samples_of a es) = map fst es"
  by (simp add: samples_of_def case_prod_unfold)

lemma in_samples_of:
  "bt_ok es \<Longrightarrow> s \<in> set (samples_of a es) \<longleftrightarrow>
     sm_agent_id s = a \<and> map_of es (sm_sample_at s) = Some (sm_fields_json s)"
proof -
  assume ok: "bt_ok es"
  have "s \<in> set (samples_of a es) \<longleftrightarrow> sm_agent_id s = a \<and> (sm_sample_at s, sm_fields_json s) \<in> set es"
    by (cases s) (auto simp: samples_of_def intro: rev_image_eqI)
  then show ?thesis
    using map_of_eq_Some_iff [OF bt_ok_distinct [OF ok]] by simp
qed

lemma store_latest_entries:
  "store_latest ch now a st =
     (let es = entries_of a (series st); c = cutoff_for_retention ch now (retention st)
      in if es = [] \<or> fst (last es) < c then None
         else Some \<lparr>sm_agent_id = a, sm_sample_at = fst (last es), sm_fields_json = snd (last es)\<rparr>)"
  by (auto simp: store_latest_def entries_of_def Let_def case_prod_unfold split: option.splits)

lemma bt_insert_last:
  "bt_ok es \<Longrightarrow> (\<forall>x \<in> fst ` set es. x \<le> k) \<Longrightarrow> last (bt_insert k v es) = (k, v)"
proof (induction k v es rule: bt_insert.induct)
  case (2 k v j w es)
  have "es = []" if "k = j" using 2(2,3) that by (cases es) (auto simp: bt_ok_Cons)
  with 2 show ?case by (auto simp: bt_ok_Cons)
qed simp

lemma last_newest: "0 < n \<Longrightarrow> es \<noteq> [] \<Longrightarrow> last (newest n es) = last es \<and> newest n es \<noteq> []"
  by (simp add: newest_def last_drop not_le)

lemma last_bt_from: "es \<noteq> [] \<Longrightarrow> c \<le> fst (last es) \<Longrightarrow> last (bt_from c es) = last es \<and> bt_from c es \<noteq> []"
  by (induction es) (auto simp: bt_from_def filter_empty_conv split: if_splits)

section \<open>Retention\<close>

text \<open>
  A time is within the retention at a moment when it is not before that moment less the retention,
  nor before the epoch; where chrono cannot subtract, the epoch is the limit.
\<close>

definition within_retention :: "chrono \<Rightarrow> datetime \<Rightarrow> duration \<Rightarrow> datetime \<Rightarrow> bool" where
  "within_retention ch now r t \<longleftrightarrow> 0 \<le> t \<and> (\<forall>oldest. checked_sub ch now r = Some oldest \<longrightarrow> oldest \<le> t)"

lemma cutoff_within: "0 \<le> r \<Longrightarrow> cutoff_for_retention ch now r \<le> t \<longleftrightarrow> within_retention ch now r t"
  by (auto simp: cutoff_for_retention_def within_retention_def max_def Let_def split: option.splits)

lemma map_of_newest: "map_of (newest n es) t = Some v \<Longrightarrow> bt_ok es \<Longrightarrow> map_of es t = Some v"
  by (metis bt_ok_distinct bt_ok_drop in_set_dropD map_of_SomeD map_of_eq_Some_iff newest_def)

lemma compact_series_within:
  assumes "bt_ok es" "0 \<le> r" "map_of (snd (compact_series (cutoff_for_retention ch now r) es)) t \<noteq> None"
  shows "within_retention ch now r t"
proof -
  obtain v where "map_of (bt_from (cutoff_for_retention ch now r) es) t = Some v"
    using assms map_of_newest [OF _ bt_ok_from] by (fastforce simp: compact_series_newest)
  then show ?thesis using assms(2) by (auto simp: map_of_bt_from cutoff_within split: if_splits)
qed

lemma compact_bounded:
  assumes "length es \<le> MAX_SAMPLES_PER_AGENT"
  shows "snd (compact_series c es) = bt_from c es"
proof -
  have "length (bt_from c es) \<le> MAX_SAMPLES_PER_AGENT"
    using assms order_trans [OF length_filter_le] unfolding bt_from_def by blast
  then show ?thesis by (simp add: compact_series_newest newest_def)
qed

lemma retention_not_negative: "store_ok st \<Longrightarrow> 0 \<le> retention st"
  by (simp add: store_ok_def milliseconds_def)

lemma write_within_retention:
  assumes "store_ok st" "store_write ch nf now s st = (Inr (), st')"
  shows "if a = sm_agent_id s then sample_at st' a t \<noteq> None \<longrightarrow> within_retention ch now (retention st) t
         else sample_at st' a t = sample_at st a t"
proof -
  have "bt_ok (bt_insert (sm_sample_at s) (sm_fields_json s) (entries_of a (series st)))"
    using assms(1) by (simp add: store_ok_entries bt_ok_insert table_ok_entries)
  from compact_series_within [OF this retention_not_negative [OF assms(1)]]
  show ?thesis by (simp add: sample_at_entries entries_of_write(1) [OF assms(2)])
qed

lemma batch_within_retention:
  assumes "store_ok st" "store_write_batch ch nf now ss st = (Inr n, st')"
  shows "if a \<in> sm_agent_id ` set ss then sample_at st' a t \<noteq> None \<longrightarrow> within_retention ch now (retention st) t
         else sample_at st' a t = sample_at st a t"
  using assms(2)
proof (cases rule: store_write_batch_cases)
  case written
  have "bt_ok (entries_of a (fold insert_sample ss (series st)))"
    using assms(1) by (simp add: store_ok_entries table_ok_fold_insert table_ok_entries)
  then show ?thesis
    unfolding sample_at_entries written(4) entries_of_compact_agents [OF distinct_remdups]
    using compact_series_within [OF _ retention_not_negative [OF assms(1)], of _ ch now t]
      entries_of_fold_insert_other [of a ss "series st"] by auto
qed simp

lemma sample_at_compact_all:
  assumes "store_ok st" "0 \<le> r"
  shows "map_of (entries_of a (snd (compact_all (cutoff_for_retention ch now r) (series st)))) t =
     (if within_retention ch now r t then sample_at st a t else None)"
  using assms
  by (simp add: store_ok_entries table_ok_def entries_of_compact_all compact_bounded map_of_bt_from
      sample_at_entries cutoff_within)

lemma compact_within_retention:
  assumes "store_ok st"
  shows "sample_at (snd (store_compact ch now st)) a t =
     (if within_retention ch now (retention st) t then sample_at st a t else None)"
  using sample_at_compact_all [OF assms retention_not_negative [OF assms]]
  by (simp add: store_compact_eq sample_at_entries [of "_\<lparr>series := _\<rparr>"])

lemma set_retention_within:
  assumes "store_ok st" "store_set_retention ch now d st = (Inr (), st')"
  shows "retention st' = max 1000000 d"
    and "sample_at st' a t = (if within_retention ch now (retention st') t then sample_at st a t else None)"
proof -
  have d: "0 < d" "d \<le> days MAX_RETENTION_DAYS"
    using assms(2) by (auto simp: store_set_retention_def split: if_splits)
  have st': "st' = snd (store_set_retention ch now d st)" using assms(2) by simp
  show r: "retention st' = max 1000000 d"
    using d by (simp add: st' store_set_retention_eq normalize_retention_def milliseconds_def min_def)
  have "0 \<le> normalize_retention d" using normalize_retention_range [of d] by (simp add: milliseconds_def)
  from sample_at_compact_all [OF assms(1) this]
  show "sample_at st' a t = (if within_retention ch now (retention st') t then sample_at st a t else None)"
    using d by (simp add: st' store_set_retention_eq sample_at_entries [of "_\<lparr>series := _\<rparr>"])
qed

section \<open>Properties\<close>

text \<open>
  (C29) Whatever sequence of writes, batches, compactions and retention changes the store has seen,
  at whatever times, every series is strictly ordered by time, non-empty and at most 50,000
  samples long, and the retention lies between a millisecond and 3650 days.

  Retention is enforced where the store compacts. An accepted write, at its reading of the clock,
  leaves of its own agent no sample older than the retention, and an accepted batch of none of its
  agents; neither touches the samples of any other agent, so an inactive agent keeps expired
  samples. A compaction, and an accepted change of the retention, leave no agent with an expired
  sample, and both keep every agent's samples that are not expired.
\<close>

theorem metric_store_invariant:
  assumes "(store_step ch non_finite)\<^sup>*\<^sup>* (with_retention r) st"
  shows "(\<forall>a es. hm_get (series st) a = Some es \<longrightarrow>
           sorted_wrt (<) (map fst es) \<and> es \<noteq> [] \<and> length es \<le> 50000) \<and>
     (1000000 \<le> retention st \<and> retention st \<le> 3650 * 86400 * 1000000000) \<and>
     (\<forall>now s st'. store_write ch non_finite now s st = (Inr (), st') \<longrightarrow>
        (\<forall>a t. if a = sm_agent_id s then sample_at st' a t \<noteq> None \<longrightarrow> within_retention ch now (retention st) t
               else sample_at st' a t = sample_at st a t)) \<and>
     (\<forall>now ss n st'. store_write_batch ch non_finite now ss st = (Inr n, st') \<longrightarrow>
        (\<forall>a t. if a \<in> sm_agent_id ` set ss
               then sample_at st' a t \<noteq> None \<longrightarrow> within_retention ch now (retention st) t
               else sample_at st' a t = sample_at st a t)) \<and>
     (\<forall>now a t. sample_at (snd (store_compact ch now st)) a t =
        (if within_retention ch now (retention st) t then sample_at st a t else None)) \<and>
     (\<forall>now d st' a t. store_set_retention ch now d st = (Inr (), st') \<longrightarrow>
        retention st' = max 1000000 d \<and>
        sample_at st' a t = (if within_retention ch now (retention st') t then sample_at st a t else None))"
proof -
  have ok: "store_ok st" by (rule store_steps_ok [OF assms store_ok_new])
  show ?thesis
  proof (intro conjI allI impI)
    fix a es assume "hm_get (series st) a = Some es"
    then show "sorted_wrt (<) (map fst es)" "es \<noteq> []" "length es \<le> 50000"
      using ok by (auto simp: store_ok_def bt_ok_def limit_simps)
  qed (use ok write_within_retention [OF ok] batch_within_retention [OF ok]
         compact_within_retention [OF ok] set_retention_within [OF ok]
       in \<open>simp_all add: store_ok_def limit_simps milliseconds_def days_def seconds_def\<close>)
qed

text \<open>
  A payload is accepted exactly when its nesting is at most 16, all its numbers are finite and
  its estimated size is at most 64 KiB, and the size returned is that estimate.
\<close>

theorem payload_accepted_iff:
  "validate_sample_payload non_finite v = Inr n \<longleftrightarrow>
     json_fits non_finite 0 v \<and> json_bytes v \<le> 65536 \<and> n = json_bytes v"
  by (simp add: validate_sample_payload_def walk_ok)

text \<open>
  (C27) The store's batch write, which compacts once at the end, does what the trait's default
  does by writing one sample after the other: when it succeeds, the default run at the same
  reading of the clock succeeds too with the same count, and both stores hold the same samples of
  every agent. When it fails the store is unchanged.
\<close>

theorem write_batch_same_as_writes:
  assumes "store_ok st" "store_write_batch ch non_finite now ss st = (r, st')"
  shows "case r of
           Inl e \<Rightarrow> st' = st
         | Inr n \<Rightarrow> n = length ss \<and>
             (\<exists>st''. default_write_batch (store_write ch non_finite) (\<lambda>_. now) ss st = (Inr n, st'') \<and>
                (\<forall>a t. sample_at st' a t = sample_at st'' a t) \<and> retention st' = retention st'')"
  using assms(2)
proof (cases rule: store_write_batch_cases)
  case written
  have ok: "table_ok (series st)" using assms(1) by (simp add: store_ok_entries)
  have "entries_of a (series st') =
        (if a \<in> sm_agent_id ` set ss
         then snd (compact_series (cutoff_for_retention ch now (retention st))
                (fold (insert_own a) ss (entries_of a (series st))))
         else entries_of a (series st))" for a
    unfolding written(4) entries_of_compact_agents [OF distinct_remdups] entries_of_fold_insert
    by (auto simp: fold_insert_own_other)
  then show ?thesis
    using write_each_entries [OF written(2) ok] written(1,3)
    by (auto simp: sample_at_entries default_write_batch_def)
qed simp

text \<open>
  (C28) A query returns exactly the samples of that agent that the store holds within both the
  queried window and the retention, each once, in ascending order of time.
\<close>

theorem query_exact:
  assumes "store_ok st"
  shows "(s \<in> set (ser_samples (store_query ch now a window st)) \<longleftrightarrow>
           sm_agent_id s = a \<and> sample_at st a (sm_sample_at s) = Some (sm_fields_json s) \<and>
           cutoff_for_retention ch now (to_chrono_duration window) \<le> sm_sample_at s \<and>
           cutoff_for_retention ch now (retention st) \<le> sm_sample_at s) \<and>
     sorted_wrt (<) (map sm_sample_at (ser_samples (store_query ch now a window st)))"
proof (intro conjI impI)
  have ok: "bt_ok (entries_of a (series st))" using assms by (simp add: store_ok_entries table_ok_entries)
  show "s \<in> set (ser_samples (store_query ch now a window st)) \<longleftrightarrow>
           sm_agent_id s = a \<and> sample_at st a (sm_sample_at s) = Some (sm_fields_json s) \<and>
           cutoff_for_retention ch now (to_chrono_duration window) \<le> sm_sample_at s \<and>
           cutoff_for_retention ch now (retention st) \<le> sm_sample_at s"
    using ok by (auto simp: store_query_entries in_samples_of bt_ok_from map_of_bt_from sample_at_entries)
  show "sorted_wrt (<) (map sm_sample_at (ser_samples (store_query ch now a window st)))"
    using bt_ok_from [OF ok] unfolding store_query_entries samples_of_times bt_ok_def by blast
qed

text \<open>
  The newest sample is what \<open>latest\<close> returns: after a successful write of a sample that is
  within the retention and not older than the agent's other samples, \<open>latest\<close> at the same
  moment is that sample, even when the series is full.
\<close>

theorem write_then_latest:
  assumes "store_ok st" "store_write ch non_finite now s st = (Inr (), st')"
    and "cutoff_for_retention ch now (retention st) \<le> sm_sample_at s"
    and "\<forall>t. sample_at st (sm_agent_id s) t \<noteq> None \<longrightarrow> t \<le> sm_sample_at s"
  shows "store_latest ch now (sm_agent_id s) st' = Some s"
proof -
  let ?a = "sm_agent_id s" and ?c = "cutoff_for_retention ch now (retention st)"
  let ?es = "bt_insert (sm_sample_at s) (sm_fields_json s) (entries_of ?a (series st))"
  have ent: "entries_of ?a (series st') = snd (compact_series ?c ?es)" "retention st' = retention st"
    using entries_of_write [OF assms(2)] by auto
  have "\<forall>x \<in> fst ` set (entries_of ?a (series st)). x \<le> sm_sample_at s"
    using assms(4) by (auto simp: sample_at_entries map_of_eq_None_iff intro: rev_image_eqI)
  then have "last ?es = (sm_sample_at s, sm_fields_json s)"
    using assms(1) by (intro bt_insert_last table_ok_entries) (simp_all add: store_ok_entries)
  then have "last (snd (compact_series ?c ?es)) = (sm_sample_at s, sm_fields_json s) \<and>
      snd (compact_series ?c ?es) \<noteq> []"
    using last_bt_from [of ?es ?c] assms(3) last_newest [of MAX_SAMPLES_PER_AGENT "bt_from ?c ?es"]
    by (simp add: compact_series_newest MAX_SAMPLES_PER_AGENT_def)
  then show ?thesis using assms(3) by (simp add: store_latest_entries ent Let_def)
qed

text \<open>
  Compaction and a change of retention leave exactly the retained samples: of every agent the
  newest 50,000 samples not older than the cutoff.
\<close>

theorem retention_enforced:
  assumes "store_ok st"
  shows "entries_of a (series (snd (store_compact ch now st))) =
           newest 50000 (bt_from (cutoff_for_retention ch now (retention st)) (entries_of a (series st)))"
    and "0 < d \<Longrightarrow> d \<le> days MAX_RETENTION_DAYS \<Longrightarrow>
         entries_of a (series (snd (store_set_retention ch now d st))) =
           newest 50000 (bt_from (cutoff_for_retention ch now (normalize_retention d)) (entries_of a (series st)))"
proof -
  have ok: "hm_ok (series st)" using assms by (simp add: store_ok_def)
  show "entries_of a (series (snd (store_compact ch now st))) =
           newest 50000 (bt_from (cutoff_for_retention ch now (retention st)) (entries_of a (series st)))"
    using ok by (simp add: store_compact_eq entries_of_compact_all compact_series_newest MAX_SAMPLES_PER_AGENT_def)
  show "0 < d \<Longrightarrow> d \<le> days MAX_RETENTION_DAYS \<Longrightarrow>
         entries_of a (series (snd (store_set_retention ch now d st))) =
           newest 50000 (bt_from (cutoff_for_retention ch now (normalize_retention d)) (entries_of a (series st)))"
    using ok by (simp add: store_set_retention_eq entries_of_compact_all compact_series_newest MAX_SAMPLES_PER_AGENT_def)
qed

section \<open>Properties at concrete inputs\<close>

text \<open>A clock like chrono's, and a store with one sample of one agent.\<close>

definition demo_chrono :: chrono where
  "demo_chrono = \<lparr>checked_add = (\<lambda>t d. Some (t + d)), checked_sub = (\<lambda>t d. Some (t - d)),
     max_utc = 8000000000000000000000\<rparr>"

definition demo_sample :: "datetime \<Rightarrow> unit metric_sample" where
  "demo_sample t = \<lparr>sm_agent_id = 7, sm_sample_at = t, sm_fields_json = JNull\<rparr>"

definition demo_store :: "unit metric_state" where
  "demo_store = \<lparr>series = [(7, [(0, JNull)])], retention = days 30\<rparr>"

lemmas tsdb_eval = demo_chrono_def demo_sample_def demo_store_def days_def seconds_def milliseconds_def
  limit_simps cutoff_for_retention_def

lemma demo_store_ok: "store_ok demo_store"
  by (auto simp: store_ok_def demo_store_def bt_ok_def hm_ok_def hm_get_def tsdb_eval split: if_splits)

lemma demo_valid: "validate_sample demo_chrono (\<lambda>_. False) 5 (demo_sample 3) = Inr ()"
proof -
  have "validate_sample_payload (\<lambda>_. False) (JNull :: unit json) = Inr 4"
    by (simp add: validate_sample_payload_def walk_ok)
  then show ?thesis by (simp add: validate_sample_def tsdb_eval)
qed

lemma demo_write: "\<exists>st'. store_write demo_chrono (\<lambda>_. False) 5 (demo_sample 3) demo_store = (Inr (), st')"
  by (simp add: store_write_def demo_valid Let_def)

text \<open>One sample at time 3, written at time 5; 31 days later a compaction drops it.\<close>

definition one_sample :: "unit metric_state" where
  "one_sample = \<lparr>series = [(7, [(3, JNull)])], retention = days 30\<rparr>"

lemma one_sample_written:
  "store_write demo_chrono (\<lambda>_. False) 5 (demo_sample 3) (with_retention (days 30)) = (Inr (), one_sample)"
  unfolding store_write_def demo_valid
  by (simp add: one_sample_def with_retention_def normalize_retention_def insert_sample_def compact_agent_def
      compact_series_def bt_from_def hm_get_def hm_insert_def Let_def tsdb_eval)

theorem metric_store_invariant_witness:
  "sample_at one_sample 7 3 = Some JNull \<and> length (series one_sample) = 1 \<and>
   sample_at (snd (store_compact demo_chrono 5 one_sample)) 7 3 = Some JNull \<and>
   sample_at (snd (store_compact demo_chrono (days 31) one_sample)) 7 3 = None"
proof -
  have "(store_step demo_chrono (\<lambda>_. False))\<^sup>*\<^sup>* (with_retention (days 30)) one_sample"
    by (rule r_into_rtranclp) (rule step_write [OF one_sample_written])
  from metric_store_invariant [OF this]
  have "\<forall>now a t. sample_at (snd (store_compact demo_chrono now one_sample)) a t =
      (if within_retention demo_chrono now (retention one_sample) t then sample_at one_sample a t else None)"
    by blast
  moreover have "within_retention demo_chrono 5 (retention one_sample) 3"
      "\<not> within_retention demo_chrono (days 31) (retention one_sample) 3"
      "sample_at one_sample 7 3 = Some JNull" "length (series one_sample) = 1"
    by (simp_all add: within_retention_def one_sample_def sample_at_def hm_get_def tsdb_eval)
  ultimately show ?thesis by simp
qed

theorem write_batch_same_as_writes_witness:
  "\<exists>st' st''. store_write_batch demo_chrono (\<lambda>_. False) 5 [demo_sample 3] demo_store = (Inr 1, st') \<and>
     default_write_batch (store_write demo_chrono (\<lambda>_. False)) (\<lambda>_. 5) [demo_sample 3] demo_store = (Inr 1, st'') \<and>
     (\<forall>a t. sample_at st' a t = sample_at st'' a t)"
proof -
  obtain st' where run: "store_write_batch demo_chrono (\<lambda>_. False) 5 [demo_sample 3] demo_store = (Inr 1, st')"
    by (simp add: store_write_batch_def demo_valid MAX_BATCH_SAMPLES_def Let_def)
  from write_batch_same_as_writes [OF demo_store_ok run] run show ?thesis by auto
qed

theorem query_exact_witness:
  "demo_sample 0 \<in> set (ser_samples (store_query demo_chrono 5 7 Day1 demo_store))"
  using query_exact(1) [OF demo_store_ok, of "demo_sample 0" demo_chrono 5 7 Day1]
  by (simp add: sample_at_def hm_get_def tsdb_eval)

theorem write_then_latest_witness:
  "\<exists>st'. store_write demo_chrono (\<lambda>_. False) 5 (demo_sample 3) demo_store = (Inr (), st') \<and>
     store_latest demo_chrono 5 7 st' = Some (demo_sample 3)"
proof -
  obtain st' where run: "store_write demo_chrono (\<lambda>_. False) 5 (demo_sample 3) demo_store = (Inr (), st')"
    using demo_write by blast
  have "sm_agent_id (demo_sample 3) = 7" by (simp add: demo_sample_def)
  moreover have "store_latest demo_chrono 5 (sm_agent_id (demo_sample 3)) st' = Some (demo_sample 3)"
    by (rule write_then_latest [OF demo_store_ok run])
       (auto simp: sample_at_def hm_get_def tsdb_eval split: if_splits)
  ultimately show ?thesis using run by simp
qed

theorem retention_enforced_witness:
  "entries_of 7 (series (snd (store_compact demo_chrono 5 demo_store))) =
     newest 50000 (bt_from (cutoff_for_retention demo_chrono 5 (retention demo_store)) (entries_of 7 (series demo_store)))"
  by (rule retention_enforced(1) [OF demo_store_ok])

end
