(* ===== verification/Auth_Tokens.thy ===== *)
theory Auth_Tokens
  imports Rust_Text
begin

text \<open>
  Credentials of the server: the constant-time comparison and token shapes of \<open>auth/mod.rs\<close>, time-based
  one-time passwords with their Base32 secrets (\<open>auth/totp.rs\<close>), and the tokens agents present
  (\<open>auth/jwt.rs\<close>).

  Parameters: \<open>hmac\<close> is HMAC-SHA1 of the hmac and sha1 crates, \<open>encode\<close>, \<open>decode\<close> and
  \<open>decode_header\<close> belong to the jsonwebtoken crate, \<open>uuid_parse\<close> and \<open>uuid_show\<close> to the uuid
  crate. A time is its nanoseconds since the epoch.
\<close>

section \<open>Bytes\<close>

definition as_bytes :: "string \<Rightarrow> u8 list" where
  "as_bytes s = map (\<lambda>c. word_of_nat (byte c)) s"

definition constant_time_eq :: "u8 list \<Rightarrow> u8 list \<Rightarrow> bool" where
  "constant_time_eq left right =
     (if length left \<noteq> length right then False
      else fold (\<lambda>(a, b) acc. acc OR (a XOR b)) (zip left right) 0 = 0)"

definition is_ascii :: "string \<Rightarrow> bool" where
  "is_ascii s = list_all (\<lambda>c. byte c < 128) s"

definition is_ascii_hexdigit :: "char \<Rightarrow> bool" where
  "is_ascii_hexdigit c =
     (is_digit c \<or> 65 \<le> byte c \<and> byte c \<le> 70 \<or> 97 \<le> byte c \<and> byte c \<le> 102)"

definition is_ascii_control :: "char \<Rightarrow> bool" where
  "is_ascii_control c = (byte c < 32 \<or> byte c = 127)"

definition is_ascii_whitespace :: "char \<Rightarrow> bool" where
  "is_ascii_whitespace c = (byte c \<in> {9, 10, 12, 13, 32})"

definition timestamp :: "datetime \<Rightarrow> int" where
  "timestamp t = t div 1000000000"

section \<open>Base32\<close>

definition BASE32_ALPHABET :: string where
  "BASE32_ALPHABET = ''ABCDEFGHIJKLMNOPQRSTUVWXYZ234567''"

text \<open>
  The inner loop of \<open>base32_encode\<close>: symbols are emitted while five bits are pending. The
  number of pending bits is an \<open>u8\<close> in the source and stays below 13.
\<close>

fun base32_drain :: "u32 \<Rightarrow> nat \<Rightarrow> string \<times> nat" where
  "base32_drain buffer bits_left =
     (if 5 \<le> bits_left then
        (case base32_drain buffer (bits_left - 5) of (out, left) \<Rightarrow>
           (BASE32_ALPHABET ! unat (drop_bit (bits_left - 5) buffer AND 0x1f) # out, left))
      else ([], bits_left))"

declare base32_drain.simps [simp del]

fun base32_encode_from :: "u8 list \<Rightarrow> u32 \<Rightarrow> nat \<Rightarrow> string" where
  "base32_encode_from [] buffer bits_left =
     (if 0 < bits_left then [BASE32_ALPHABET ! unat (push_bit (5 - bits_left) buffer AND 0x1f)] else [])"
| "base32_encode_from (b # bs) buffer bits_left =
     (let buffer' = push_bit 8 buffer OR ucast b
      in case base32_drain buffer' (bits_left + 8) of (out, left) \<Rightarrow>
           out @ base32_encode_from bs buffer' left)"

definition base32_encode :: "u8 list \<Rightarrow> string" where
  "base32_encode bytes = base32_encode_from bytes 0 0"

definition base32_skip :: "char \<Rightarrow> bool" where
  "base32_skip c = (c \<in> {CHR ''='', CHR '' '', CHR ''-''})"

definition base32_upper :: "char \<Rightarrow> char" where
  "base32_upper c = (if 97 \<le> byte c \<and> byte c \<le> 122 then char_of (byte c - 97 + 65) else c)"

fun position :: "('a \<Rightarrow> bool) \<Rightarrow> 'a list \<Rightarrow> nat option" where
  "position P [] = None"
| "position P (x # xs) = (if P x then Some 0 else map_option Suc (position P xs))"

fun base32_decode_from :: "string \<Rightarrow> u32 \<Rightarrow> nat \<Rightarrow> u8 list option" where
  "base32_decode_from [] buffer bits_left = Some []"
| "base32_decode_from (c # cs) buffer bits_left =
     (if base32_skip c then base32_decode_from cs buffer bits_left
      else case position (\<lambda>d. d = base32_upper c) BASE32_ALPHABET of
             None \<Rightarrow> None
           | Some index \<Rightarrow>
               (let buffer' = push_bit 5 buffer OR word_of_nat index; bits' = bits_left + 5
                in if 8 \<le> bits'
                   then map_option (\<lambda>out. ucast (drop_bit (bits' - 8) buffer' AND 0xff) # out)
                          (base32_decode_from cs buffer' (bits' - 8))
                   else base32_decode_from cs buffer' bits'))"

definition base32_decode :: "string \<Rightarrow> unit + u8 list" where
  "base32_decode value =
     (case base32_decode_from value 0 0 of
        None \<Rightarrow> Inl ()
      | Some out \<Rightarrow> if out = [] then Inl () else Inr out)"

text \<open>\<open>generate_totp_secret\<close>, given the twenty bytes drawn from the random generator.\<close>

definition generate_totp_secret :: "u8 list \<Rightarrow> string" where
  "generate_totp_secret bytes = base32_encode bytes"

section \<open>One-time passwords\<close>

definition TOTP_STEP_SECONDS :: int where [limit_simps]: "TOTP_STEP_SECONDS = 30"
definition TOTP_DIGITS :: nat where [limit_simps]: "TOTP_DIGITS = 6"
definition TOTP_WINDOW :: int where [limit_simps]: "TOTP_WINDOW = 1"

definition be_bytes64 :: "64 word \<Rightarrow> u8 list" where
  "be_bytes64 w = map (\<lambda>i. ucast (drop_bit (8 * i) w)) [7, 6, 5, 4, 3, 2, 1, 0]"

definition totp_at :: "(u8 list \<Rightarrow> u8 list \<Rightarrow> u8 list) \<Rightarrow> u8 list \<Rightarrow> 64 word \<Rightarrow> u32" where
  "totp_at hmac secret counter =
     (let digest = hmac secret (be_bytes64 counter);
          offset = unat (digest ! 19 AND 0x0f);
          binary = push_bit 24 (ucast (digest ! offset) AND 0x7f)
                OR push_bit 16 (ucast (digest ! (offset + 1)))
                OR push_bit 8 (ucast (digest ! (offset + 2)))
                OR ucast (digest ! (offset + 3))
      in binary mod 10 ^ TOTP_DIGITS)"

definition format_totp :: "u32 \<Rightarrow> string" where
  "format_totp v =
     (let s = show_nat (unat v) in replicate (TOTP_DIGITS - length s) (CHR ''0'') @ s)"

fun match_steps ::
  "(u8 list \<Rightarrow> u8 list \<Rightarrow> u8 list) \<Rightarrow> u8 list \<Rightarrow> string \<Rightarrow> int list \<Rightarrow> int option \<Rightarrow> int option" where
  "match_steps hmac secret code [] matched = matched"
| "match_steps hmac secret code (candidate # steps) matched =
     (if candidate < 0 then match_steps hmac secret code steps matched
      else match_steps hmac secret code steps
             (if constant_time_eq (as_bytes (format_totp (totp_at hmac secret (word_of_int candidate))))
                                  (as_bytes code)
              then Some candidate else matched))"

definition verify_totp_code_step ::
  "(u8 list \<Rightarrow> u8 list \<Rightarrow> u8 list) \<Rightarrow> string \<Rightarrow> string \<Rightarrow> datetime \<Rightarrow> int option" where
  "verify_totp_code_step hmac secret code now =
     (let normalized = filter (\<lambda>c. c \<noteq> CHR '' '') (trim code)
      in if length normalized \<noteq> TOTP_DIGITS \<or> \<not> list_all is_digit normalized then None
         else case base32_decode secret of
                Inl _ \<Rightarrow> None
              | Inr secret_bytes \<Rightarrow>
                  (let counter = timestamp now div TOTP_STEP_SECONDS
                   in match_steps hmac secret_bytes normalized
                        [counter - TOTP_WINDOW .. counter + TOTP_WINDOW] None))"

definition verify_totp_code ::
  "(u8 list \<Rightarrow> u8 list \<Rightarrow> u8 list) \<Rightarrow> string \<Rightarrow> string \<Rightarrow> datetime \<Rightarrow> bool" where
  "verify_totp_code hmac secret code now = (verify_totp_code_step hmac secret code now \<noteq> None)"

section \<open>Agent tokens\<close>

definition MAX_JWT_BYTES :: nat where [limit_simps]: "MAX_JWT_BYTES = 4096"
definition MIN_JWT_SECRET_BYTES :: nat where [limit_simps]: "MIN_JWT_SECRET_BYTES = 32"
definition MIN_JWT_SECRET_DISTINCT_BYTES :: nat where [limit_simps]: "MIN_JWT_SECRET_DISTINCT_BYTES = 4"
definition AGENT_JWT_TTL_MINUTES :: int where [limit_simps]: "AGENT_JWT_TTL_MINUTES = 5"
definition MAX_AGENT_JWT_LIFETIME_SECONDS :: int where [limit_simps]: "MAX_AGENT_JWT_LIFETIME_SECONDS = 15 * 60"
definition MAX_CLOCK_SKEW_SECONDS :: int where [limit_simps]: "MAX_CLOCK_SKEW_SECONDS = 60"
definition MAX_JTI_BYTES :: nat where [limit_simps]: "MAX_JTI_BYTES = 128"

datatype jwt_error =
    SecretTooShort | SecretPlaceholder | SecretWeak | AgentIdNil | SignFailed
  | TokenLength | MalformedToken | InvalidHeader | UnsupportedAlgorithm | InvalidOrExpired
  | SubEmpty | SubNotUuid | SubNotCanonical | JtiInvalid | IatOutOfBounds | TokenExpired | LifetimeInvalid

datatype algorithm = HS256 | OtherAlgorithm string

record agent_claims =
  cl_sub :: string
  cl_exp :: int
  cl_iat :: int
  cl_jti :: string

record jwt_validation =
  va_algorithms :: "algorithm list"
  va_validate_exp :: bool
  va_leeway :: nat
  va_required :: "string list"

definition weak_defaults :: "string list" where
  "weak_defaults =
     [''CHANGE_ME_IN_PRODUCTION'', ''change-me-in-production'', ''replace-with-a-long-random-secret'',
      ''replace-with-a-different-long-random-secret'', ''replace-with-a-32-byte-random-hex-secret'',
      ''replace-with-a-different-32-byte-random-hex-secret'']"

definition validate_jwt_secret :: "string \<Rightarrow> jwt_error + string" where
  "validate_jwt_secret secret =
     (let trimmed = trim secret
      in if length trimmed < MIN_JWT_SECRET_BYTES then Inl SecretTooShort
         else if trimmed \<in> set weak_defaults then Inl SecretPlaceholder
         else if length (remdups trimmed) < MIN_JWT_SECRET_DISTINCT_BYTES then Inl SecretWeak
         else Inr trimmed)"

definition is_base64url_segment :: "string \<Rightarrow> bool" where
  "is_base64url_segment segment =
     (segment \<noteq> [] \<and>
      list_all (\<lambda>c. is_ascii_alphanumeric c \<or> c \<in> {CHR ''-'', CHR ''_''}) segment)"

definition validate_jwt_wire_format :: "string \<Rightarrow> jwt_error + unit" where
  "validate_jwt_wire_format token =
     (if token = [] \<or> length token > MAX_JWT_BYTES \<or> \<not> is_ascii token then Inl TokenLength
      else case split_on (\<lambda>c. c = CHR ''.'') token of
             [header, payload, signature] \<Rightarrow>
               ensure (is_base64url_segment header \<and> is_base64url_segment payload \<and>
                       is_base64url_segment signature) MalformedToken
           | _ \<Rightarrow> Inl MalformedToken)"

definition validate_agent_claims ::
  "(string \<Rightarrow> agent_id option) \<Rightarrow> (agent_id \<Rightarrow> string) \<Rightarrow> agent_claims \<Rightarrow> int \<Rightarrow> jwt_error + unit" where
  "validate_agent_claims uuid_parse uuid_show claims now =
     (if trim (cl_sub claims) = [] then Inl SubEmpty
      else case uuid_parse (cl_sub claims) of
        None \<Rightarrow> Inl SubNotUuid
      | Some parsed_sub \<Rightarrow>
          if parsed_sub = 0 \<or> uuid_show parsed_sub \<noteq> cl_sub claims then Inl SubNotCanonical
          else let jti = trim (cl_jti claims)
          in if jti = [] \<or> length jti > MAX_JTI_BYTES \<or> list_ex is_ascii_control jti then Inl JtiInvalid
          else if cl_iat claims \<le> 0 \<or> cl_iat claims > now + MAX_CLOCK_SKEW_SECONDS then Inl IatOutOfBounds
          else if cl_exp claims \<le> now - MAX_CLOCK_SKEW_SECONDS then Inl TokenExpired
          else if cl_exp claims \<le> cl_iat claims
                  \<or> cl_exp claims - cl_iat claims > MAX_AGENT_JWT_LIFETIME_SECONDS then Inl LifetimeInvalid
          else Inr ())"

definition sign_agent_jwt ::
  "(agent_id \<Rightarrow> string) \<Rightarrow> (agent_claims \<Rightarrow> string \<Rightarrow> string option) \<Rightarrow> datetime \<Rightarrow> string
    \<Rightarrow> agent_id \<Rightarrow> string \<Rightarrow> jwt_error + string" where
  "sign_agent_jwt uuid_show encode now jti agent_id secret =
     and_then (validate_jwt_secret secret) (\<lambda>secret'.
       if agent_id = 0 then Inl AgentIdNil
       else ok_or (encode
              \<lparr>cl_sub = uuid_show agent_id,
               cl_exp = timestamp (now + AGENT_JWT_TTL_MINUTES * 60 * 1000000000),
               cl_iat = timestamp now, cl_jti = jti\<rparr> secret') SignFailed)"

definition agent_jwt_validation :: jwt_validation where
  "agent_jwt_validation =
     \<lparr>va_algorithms = [HS256], va_validate_exp = True, va_leeway = nat MAX_CLOCK_SKEW_SECONDS,
      va_required = [''sub'', ''exp'', ''iat'', ''jti'']\<rparr>"

definition verify_agent_jwt ::
  "(string \<Rightarrow> agent_id option) \<Rightarrow> (agent_id \<Rightarrow> string) \<Rightarrow> (string \<Rightarrow> algorithm option)
    \<Rightarrow> (string \<Rightarrow> string \<Rightarrow> jwt_validation \<Rightarrow> agent_claims option) \<Rightarrow> datetime \<Rightarrow> string \<Rightarrow> string
    \<Rightarrow> jwt_error + agent_claims" where
  "verify_agent_jwt uuid_parse uuid_show decode_header decode now token secret =
     and_then (validate_jwt_secret secret) (\<lambda>secret'.
     and_then (validate_jwt_wire_format token) (\<lambda>_.
     and_then (ok_or (decode_header token) InvalidHeader) (\<lambda>alg.
     and_then (ensure (alg = HS256) UnsupportedAlgorithm) (\<lambda>_.
     and_then (ok_or (decode token secret' agent_jwt_validation) InvalidOrExpired) (\<lambda>claims.
     and_then (validate_agent_claims uuid_parse uuid_show claims (timestamp now)) (\<lambda>_.
       Inr claims))))))"

section \<open>Lemmas on Base32\<close>

text \<open>The low \<open>n\<close> bits of a word, most significant first.\<close>

definition low :: "nat \<Rightarrow> 'a::len word \<Rightarrow> bool list" where
  "low n w = map (bit w) (rev [0..<n])"

lemma length_low [simp]: "length (low n w) = n"
  by (simp add: low_def)

lemma nth_low: "i < n \<Longrightarrow> low n w ! i = bit w (n - Suc i)"
  by (simp add: low_def rev_nth)

lemma low_append:
  fixes v :: "'b::len word"
  assumes "\<And>i. i < k \<Longrightarrow> bit u i = bit v i" "\<And>i. i < n \<Longrightarrow> bit u (k + i) = bit w i"
  shows "low (n + k) u = low n w @ low k v"
proof (rule nth_equalityI)
  fix i assume i: "i < length (low (n + k) u)"
  show "low (n + k) u ! i = (low n w @ low k v) ! i"
  proof (cases "i < n")
    case True
    then have "n + k - Suc i = k + (n - Suc i)" by simp
    with True assms(2) [of "n - Suc i"] show ?thesis by (simp add: nth_low nth_append)
  next
    case False
    with i assms(1) [of "n + k - Suc i"] show ?thesis by (simp add: nth_low nth_append add.commute)
  qed
qed simp

lemma low_zero: "low n (0 :: 'a::len word) = replicate n False"
  by (rule nth_equalityI) (auto simp: nth_low)

lemma low_push_byte: "n \<le> 24 \<Longrightarrow> low (n + 8) (push_bit 8 w OR ucast (b :: u8) :: u32) = low n w @ low 8 b"
  by (rule low_append) (auto simp: bit_simps dest: bit_imp_le_length)

lemma bit_mask5: "bit (w AND 0x1f :: u32) i \<longleftrightarrow> bit w i \<and> i < 5"
proof -
  have mask: "(0x1f :: u32) = mask 5" by (simp add: mask_eq_exp_minus_1)
  show ?thesis unfolding mask by (auto simp: bit_simps dest: bit_imp_le_length)
qed

lemma bit_mask8: "bit (w AND 0xff :: u32) i \<longleftrightarrow> bit w i \<and> i < 8"
proof -
  have mask: "(0xff :: u32) = mask 8" by (simp add: mask_eq_exp_minus_1)
  show ?thesis unfolding mask by (auto simp: bit_simps dest: bit_imp_le_length)
qed

lemma bit_symbol:
  assumes "k < 32" "5 \<le> i"
  shows "\<not> bit (word_of_nat k :: u32) i"
proof -
  have "take_bit 5 k = k" using assms(1) by (simp add: take_bit_nat_eq_self_iff)
  then have "\<not> bit k i" using assms(2) bit_take_bit_iff [of 5 k i] by simp
  then show ?thesis by (simp add: bit_simps)
qed

lemma low_push_symbol:
  "n \<le> 27 \<Longrightarrow> k < 32 \<Longrightarrow>
   low (n + 5) (push_bit 5 w OR word_of_nat k :: u32) = low n w @ low 5 (word_of_nat k :: u32)"
  by (rule low_append) (auto simp: bit_push_bit_iff bit_or_iff bit_symbol [simplified])

lemma low_take5: "5 \<le> m \<Longrightarrow> m \<le> 32 \<Longrightarrow> low m w = low 5 (drop_bit (m - 5) w AND 0x1f :: u32) @ low (m - 5) w"
  using low_append [of "m - 5" w w 5 "drop_bit (m - 5) w AND 0x1f"]
  by (simp add: bit_mask5 bit_drop_bit_eq)

lemma low_take8:
  "8 \<le> m \<Longrightarrow> m \<le> 32 \<Longrightarrow> low m w = low 8 (ucast (drop_bit (m - 8) w AND 0xff :: u32) :: u8) @ low (m - 8) w"
  using low_append [of "m - 8" w w 8 "ucast (drop_bit (m - 8) w AND 0xff) :: u8"]
  by (simp add: bit_mask8 bit_drop_bit_eq bit_ucast_iff)

lemma low_pad:
  assumes "m \<le> 5"
  shows "low 5 (push_bit (5 - m) w AND 0x1f :: u32) = low m w @ replicate (5 - m) False"
proof -
  have "low (m + (5 - m)) (push_bit (5 - m) w AND 0x1f) = low m w @ low (5 - m) (0 :: u32)"
    using assms by (intro low_append) (auto simp: bit_mask5 bit_push_bit_iff)
  with assms show ?thesis by (simp add: low_zero)
qed

lemma low8_inject: "low 8 (a :: u8) = low 8 b \<Longrightarrow> a = b"
  by (rule bit_word_eqI) (auto simp: low_def)

lemma alphabet_symbol:
  assumes "k < 32"
  shows "\<not> base32_skip (BASE32_ALPHABET ! k)"
    and "position (\<lambda>d. d = base32_upper (BASE32_ALPHABET ! k)) BASE32_ALPHABET = Some k"
proof -
  have "list_all (\<lambda>k. \<not> base32_skip (BASE32_ALPHABET ! k) \<and>
      position (\<lambda>d. d = base32_upper (BASE32_ALPHABET ! k)) BASE32_ALPHABET = Some k) [0..<32]"
    by code_simp
  with assms show "\<not> base32_skip (BASE32_ALPHABET ! k)"
    and "position (\<lambda>d. d = base32_upper (BASE32_ALPHABET ! k)) BASE32_ALPHABET = Some k"
    by (auto simp: list_all_iff)
qed

abbreviation symbol_bits :: "nat \<Rightarrow> bool list" where
  "symbol_bits k \<equiv> low 5 (word_of_nat k :: u32)"

definition symbols :: "nat list \<Rightarrow> string" where
  "symbols ks = map (\<lambda>k. BASE32_ALPHABET ! k) ks"

lemma drain_symbols:
  assumes "base32_drain w m = (out, left)" "m \<le> 32"
  shows "\<exists>ks. out = symbols ks \<and> list_all (\<lambda>k. k < 32) ks \<and> left < 5 \<and>
           low m w = concat (map symbol_bits ks) @ low left w"
  using assms
proof (induction w m arbitrary: out rule: base32_drain.induct)
  case (1 w m)
  show ?case
  proof (cases "5 \<le> m")
    case True
    let ?s = "drop_bit (m - 5) w AND 0x1f :: u32"
    obtain out' where out': "base32_drain w (m - 5) = (out', left)"
      "out = BASE32_ALPHABET ! unat ?s # out'"
      using "1.prems"(1) True by (auto simp: base32_drain.simps [of w m] split: prod.splits)
    obtain ks where ks: "out' = symbols ks" "list_all (\<lambda>k. k < 32) ks" "left < 5"
        "low (m - 5) w = concat (map symbol_bits ks) @ low left w"
      using "1.IH" [OF True out'(1)] "1.prems"(2) by (auto simp: le_diff_conv)
    have "unat ?s < 32"
      using word_and_le1 [of "drop_bit (m - 5) w" "0x1f"] by (simp add: word_le_nat_alt)
    with ks out'(2) True "1.prems"(2) low_take5 [of m w] show ?thesis
      by (intro exI [of _ "unat ?s # ks"]) (simp add: symbols_def)
  next
    case False
    with "1.prems"(1) show ?thesis
      by (intro exI [of _ "[]"]) (auto simp: symbols_def base32_drain.simps [of w m])
  qed
qed

lemma encode_symbols:
  assumes "m < 5"
  shows "\<exists>ks pad. base32_encode_from bs w m = symbols ks \<and> list_all (\<lambda>k. k < 32) ks \<and>
           length pad < 5 \<and> concat (map symbol_bits ks) = low m w @ concat (map (low 8) bs) @ pad"
  using assms
proof (induction bs arbitrary: w m)
  case Nil
  let ?s = "push_bit (5 - m) w AND 0x1f :: u32"
  show ?case
  proof (cases "m = 0")
    case True
    then show ?thesis by (intro exI [of _ "[]"]) (simp add: symbols_def low_def)
  next
    case False
    have "unat ?s < 32"
      using word_and_le1 [of "push_bit (5 - m) w" "0x1f"] by (simp add: word_le_nat_alt)
    with False Nil low_pad [of m w] show ?thesis
      by (intro exI [of _ "[unat ?s]"] exI [of _ "replicate (5 - m) False"]) (simp add: symbols_def)
  qed
next
  case (Cons b bs)
  let ?w = "push_bit 8 w OR ucast b :: u32"
  obtain out left where out: "base32_drain ?w (m + 8) = (out, left)" by fastforce
  obtain ks where ks: "out = symbols ks" "list_all (\<lambda>k. k < 32) ks" "left < 5"
      "low (m + 8) ?w = concat (map symbol_bits ks) @ low left ?w"
    using drain_symbols [OF out] Cons.prems by auto
  obtain js pad where js: "base32_encode_from bs ?w left = symbols js" "list_all (\<lambda>k. k < 32) js"
      "length pad < 5" "concat (map symbol_bits js) = low left ?w @ concat (map (low 8) bs) @ pad"
    using Cons.IH [OF ks(3)] by blast
  have "low m w @ low 8 b = concat (map symbol_bits ks) @ low left ?w"
    using low_push_byte [of m w b] ks(4) Cons.prems by simp
  with ks js out show ?case
    by (intro exI [of _ "ks @ js"] exI [of _ pad]) (simp add: symbols_def Let_def flip: append_assoc)
qed

lemma decode_symbols:
  assumes "m < 8" "list_all (\<lambda>k. k < 32) ks"
  shows "\<exists>out rest. base32_decode_from (symbols ks) w m = Some out \<and> length rest < 8 \<and>
           low m w @ concat (map symbol_bits ks) = concat (map (low 8) out) @ rest"
  using assms
proof (induction ks arbitrary: w m)
  case Nil
  then show ?case by (intro exI [of _ "[]"] exI [of _ "low m w"]) (simp add: symbols_def)
next
  case (Cons k ks)
  let ?w = "push_bit 5 w OR word_of_nat k :: u32"
  have pushed: "low (m + 5) ?w = low m w @ symbol_bits k"
    using low_push_symbol [of m k w] Cons.prems by simp
  show ?case
  proof (cases "8 \<le> m + 5")
    case True
    have "m + 5 - 8 < 8" using Cons.prems by linarith
    then obtain out rest where "base32_decode_from (symbols ks) ?w (m + 5 - 8) = Some out"
        "length rest < 8" "low (m + 5 - 8) ?w @ concat (map symbol_bits ks) = concat (map (low 8) out) @ rest"
      using Cons.IH [of "m + 5 - 8" ?w] Cons.prems by auto
    note out = this
    let ?b = "ucast (drop_bit (m + 5 - 8) ?w AND 0xff) :: u8"
    have "low m w @ symbol_bits k = low 8 ?b @ low (m + 5 - 8) ?w"
      using pushed low_take8 [of "m + 5" ?w] True Cons.prems by simp
    then have "(low m w @ symbol_bits k) @ concat (map symbol_bits ks) =
        (low 8 ?b @ low (m + 5 - 8) ?w) @ concat (map symbol_bits ks)" by (rule arg_cong)
    then have "low m w @ concat (map symbol_bits (k # ks)) = concat (map (low 8) (?b # out)) @ rest"
      by (simp only: list.map concat.simps append_assoc out(3))
    moreover have "base32_decode_from (symbols (k # ks)) w m = Some (?b # out)"
      using out(1) True Cons.prems by (simp add: symbols_def alphabet_symbol Let_def)
    ultimately show ?thesis using out(2) by blast
  next
    case False
    with Cons.IH [of "m + 5" ?w] Cons.prems pushed show ?thesis
      by (simp add: symbols_def alphabet_symbol Let_def)
  qed
qed

lemma byte_bits_inject:
  assumes "concat (map (low 8) xs) @ r = concat (map (low 8) ys) @ s" "length r < 8" "length s < 8"
  shows "xs = (ys :: u8 list)"
  using assms
proof (induction xs arbitrary: ys)
  case Nil
  then show ?case by (cases ys) (auto dest: arg_cong [of _ _ length])
next
  case (Cons x xs)
  then show ?case by (cases ys) (auto dest: arg_cong [of _ _ length] low8_inject)
qed

lemma base32_decode_encode:
  assumes "bs \<noteq> []"
  shows "base32_decode (base32_encode bs) = Inr bs"
proof -
  obtain ks pad where ks: "base32_encode_from bs 0 0 = symbols ks" "list_all (\<lambda>k. k < 32) ks"
      "length pad < 5" "concat (map symbol_bits ks) = concat (map (low 8) bs) @ pad"
    using encode_symbols [of 0 bs 0] by (auto simp: low_def)
  obtain out rest where out: "base32_decode_from (symbols ks) 0 0 = Some out" "length rest < 8"
      "concat (map symbol_bits ks) = concat (map (low 8) out) @ rest"
    using decode_symbols [of 0 ks 0] ks(2) by (auto simp: low_def)
  have "out = bs" using byte_bits_inject [of out rest bs pad] ks out by simp
  with assms ks out show ?thesis by (simp add: base32_encode_def base32_decode_def)
qed

section \<open>Lemmas on comparison and one-time passwords\<close>

lemma xor_zero_iff: "a XOR b = 0 \<longleftrightarrow> a = (b :: u8)"
  by (auto simp: bit_eq_iff bit_simps)

lemma fold_or_zero:
  "fold (\<lambda>(a, b) acc. acc OR (a XOR b)) ps (acc :: u8) = 0 \<longleftrightarrow> acc = 0 \<and> (\<forall>(a, b) \<in> set ps. a = b)"
proof (induction ps arbitrary: acc)
  case (Cons p ps)
  then show ?case by (auto simp: case_prod_unfold or_eq_0_iff xor_zero_iff)
qed simp

lemma constant_time_eq_iff: "constant_time_eq xs ys \<longleftrightarrow> xs = ys"
proof -
  have "length xs = length ys \<Longrightarrow> (\<forall>(a, b) \<in> set (zip xs ys). a = b) \<longleftrightarrow> xs = ys"
    by (induction xs ys rule: list_induct2) auto
  then show ?thesis by (auto simp: constant_time_eq_def fold_or_zero)
qed

lemma as_bytes_inject [simp]: "as_bytes s = as_bytes t \<longleftrightarrow> s = t"
proof -
  have "inj (\<lambda>c. word_of_nat (byte c) :: u8)"
  proof (rule injI)
    fix c d :: char
    assume "word_of_nat (byte c) = (word_of_nat (byte d) :: u8)"
    then have "unat (word_of_nat (byte c) :: u8) = unat (word_of_nat (byte d) :: u8)" by simp
    then show "c = d" by (simp add: unat_of_nat)
  qed
  then show ?thesis by (simp add: as_bytes_def inj_map_eq_map)
qed

lemma match_steps_None:
  "match_steps hmac key code steps m =
     (case filter (\<lambda>c. 0 \<le> c \<and> format_totp (totp_at hmac key (word_of_int c)) = code) (rev steps) of
        [] \<Rightarrow> m | c # _ \<Rightarrow> Some c)"
  by (induction steps arbitrary: m) (auto simp: constant_time_eq_iff not_le split: list.splits)

text \<open>The steps at which a normalized code is the right one, around the present counter.\<close>

definition totp_normalized :: "string \<Rightarrow> string" where
  "totp_normalized code = filter (\<lambda>c. c \<noteq> CHR '' '') (trim code)"

definition totp_good_step ::
  "(u8 list \<Rightarrow> u8 list \<Rightarrow> u8 list) \<Rightarrow> u8 list \<Rightarrow> string \<Rightarrow> datetime \<Rightarrow> int \<Rightarrow> bool" where
  "totp_good_step hmac key code now step =
     (0 \<le> step \<and> \<bar>step - timestamp now div 30\<bar> \<le> 1 \<and>
      format_totp (totp_at hmac key (word_of_int step)) = totp_normalized code)"

lemma upto_three: "[c - 1 .. c + 1] = [c - 1, c, c + 1 :: int]"
  by (simp add: upto.simps [of "c - 1"] upto.simps [of c] upto.simps [of "c + 1"] upto.simps [of "c + 2"])

lemma first_descending:
  assumes "sorted_wrt (>) xs"
  shows "(case filter P xs of [] \<Rightarrow> None | x # _ \<Rightarrow> Some x) = Some (s :: int) \<longleftrightarrow>
     s \<in> set xs \<and> P s \<and> (\<forall>u. u \<in> set xs \<and> P u \<longrightarrow> u \<le> s)"
  using assms
proof (induction xs)
  case (Cons x xs)
  show ?case
  proof (cases "P x")
    case True
    with Cons.prems have "P u \<Longrightarrow> u \<in> set (x # xs) \<Longrightarrow> u \<le> x" for u by (auto intro: less_imp_le)
    with True show ?thesis by (auto intro: antisym)
  next
    case False
    with Cons show ?thesis by auto
  qed
qed simp

lemma match_steps_window:
  "match_steps hmac key (totp_normalized code) [timestamp now div 30 - 1 .. timestamp now div 30 + 1] None = Some step \<longleftrightarrow>
     totp_good_step hmac key code now step \<and> (\<forall>s. totp_good_step hmac key code now s \<longrightarrow> s \<le> step)"
proof -
  let ?c = "timestamp now div 30"
  have near: "\<bar>s - ?c\<bar> \<le> 1 \<longleftrightarrow> s \<in> set [?c + 1, ?c, ?c - 1]" for s by auto
  show ?thesis
    unfolding match_steps_None upto_three totp_good_step_def near rev.simps append.simps
    by (subst first_descending) auto
qed

lemma verify_totp_step_iff:
  "verify_totp_code_step hmac secret code now = Some step \<longleftrightarrow>
     length (totp_normalized code) = 6 \<and> list_all is_digit (totp_normalized code) \<and>
     (\<exists>key. base32_decode secret = Inr key \<and> totp_good_step hmac key code now step \<and>
            (\<forall>s. totp_good_step hmac key code now s \<longrightarrow> s \<le> step))"
  unfolding match_steps_window [symmetric] verify_totp_code_step_def totp_normalized_def [symmetric]
  by (auto simp: limit_simps Let_def split: sum.splits)

lemma digits_normalized:
  assumes "list_all is_digit s"
  shows "totp_normalized s = s"
proof -
  have "list_all (\<lambda>c. 33 \<le> byte c \<and> byte c < 128) s" "list_all (\<lambda>c. c \<noteq> CHR '' '') s"
    using assms by (auto simp: list_all_iff is_digit_def)
  then show ?thesis by (simp add: totp_normalized_def trim_ascii filter_id_conv list_all_iff)
qed

lemma format_totp_digits: "list_all is_digit (format_totp v)"
  using show_nat_digits [of "unat v"]
  by (auto simp: format_totp_def Let_def list_all_iff is_digit_def)

lemma length_format_totp: "unat v < 10 ^ 6 \<Longrightarrow> length (format_totp v) = 6"
  using length_show_nat [of "unat v" 6] by (simp add: format_totp_def Let_def limit_simps)

lemma totp_at_bound: "unat (totp_at hmac key counter) < 10 ^ 6"
proof -
  have "totp_at hmac key counter < 10 ^ 6"
    unfolding totp_at_def Let_def TOTP_DIGITS_def by (rule word_mod_less_divisor) simp
  then show ?thesis by (simp add: word_less_nat_alt)
qed

section \<open>Properties\<close>

text \<open>
  The comparison of secrets, which inspects every byte, decides equality.
\<close>

theorem constant_time_eq_equality: "constant_time_eq (as_bytes s) (as_bytes t) \<longleftrightarrow> s = t"
  by (simp add: constant_time_eq_iff)

text \<open>
  (C39) Base32 round trip: a generated secret decodes to the bytes it was made from.
\<close>

theorem base32_roundtrip:
  assumes "bytes \<noteq> []"
  shows "base32_decode (generate_totp_secret bytes) = Inr bytes"
  using assms by (simp add: generate_totp_secret_def base32_decode_encode)

theorem base32_roundtrip_witness: "base32_decode (generate_totp_secret [1, 255]) = Inr [1, 255]"
  by (rule base32_roundtrip) simp

text \<open>
  A one-time code is accepted exactly when, stripped of blanks, it is six digits, the secret
  decodes, and it is the code of a non-negative step at most one away from the present one; the
  step returned is the latest such step, so a caller that remembers it can refuse a replay.
\<close>

theorem totp_accepted_iff:
  "verify_totp_code_step hmac secret code now = Some step \<longleftrightarrow>
     length (totp_normalized code) = 6 \<and> list_all is_digit (totp_normalized code) \<and>
     (\<exists>key. base32_decode secret = Inr key \<and> totp_good_step hmac key code now step \<and>
            (\<forall>s. totp_good_step hmac key code now s \<longrightarrow> s \<le> step))"
  by (rule verify_totp_step_iff)

text \<open>
  A code stays good for a step: the code of the present step of a generated secret is accepted
  now and until thirty seconds later.
\<close>

theorem totp_code_stays_good:
  assumes "key \<noteq> []" "0 \<le> timestamp t" "timestamp t \<le> timestamp now" "timestamp now < timestamp t + 30"
  shows "verify_totp_code hmac (generate_totp_secret key)
           (format_totp (totp_at hmac key (word_of_int (timestamp t div 30)))) now"
proof -
  let ?code = "format_totp (totp_at hmac key (word_of_int (timestamp t div 30)))"
  let ?good = "totp_good_step hmac key ?code now"
  have norm: "totp_normalized ?code = ?code" by (simp add: digits_normalized format_totp_digits)
  have good: "?good (timestamp t div 30)"
    using assms(2-4) norm by (auto simp: totp_good_step_def)
  have sub: "?good s \<Longrightarrow> s \<le> timestamp now div 30 + 1" for s
    by (auto simp: totp_good_step_def)
  define S where "S = {s. ?good s \<and> 0 \<le> s}"
  have "S \<subseteq> {0 .. timestamp now div 30 + 1}" using sub by (auto simp: S_def)
  then have fin: "finite S" by (rule finite_subset) simp
  have ne: "S \<noteq> {}" using good by (auto simp: S_def totp_good_step_def)
  have "?good (Max S)" using Max_in [OF fin ne] by (simp add: S_def)
  moreover have "?good s \<Longrightarrow> s \<le> Max S" for s
    using Max_ge [OF fin] by (simp add: S_def totp_good_step_def)
  ultimately have "verify_totp_code_step hmac (generate_totp_secret key) ?code now = Some (Max S)"
    unfolding verify_totp_step_iff norm
    using assms(1) by (simp add: length_format_totp [OF totp_at_bound] format_totp_digits
        generate_totp_secret_def base32_decode_encode)
  then show ?thesis by (simp add: verify_totp_code_def)
qed

theorem totp_code_stays_good_witness:
  "verify_totp_code (\<lambda>_ _. replicate 20 7) (generate_totp_secret [1])
     (format_totp (totp_at (\<lambda>_ _. replicate 20 7) [1] (word_of_int (timestamp 60000000000 div 30)))) 89000000000"
  by (rule totp_code_stays_good) (simp_all add: timestamp_def)

text \<open>
  (C40) An accepted agent token was checked in every respect: the signing secret is at least 32 bytes
  and no placeholder, the header names HS256, the subject is the canonical text of a non-nil
  agent id, the token was issued at most a minute ahead of the clock, expired at most a minute
  ago, and lives at most fifteen minutes.
\<close>

theorem verified_jwt_within_bounds:
  assumes "verify_agent_jwt up us dh dec now token secret = Inr claims"
  shows "32 \<le> length (trim secret) \<and> trim secret \<notin> set weak_defaults \<and> dh token = Some HS256 \<and>
         dec token (trim secret) agent_jwt_validation = Some claims \<and>
         (\<exists>a. a \<noteq> 0 \<and> up (cl_sub claims) = Some a \<and> us a = cl_sub claims) \<and>
         cl_iat claims \<le> timestamp now + 60 \<and> timestamp now < cl_exp claims + 60 \<and>
         cl_iat claims < cl_exp claims \<and> cl_exp claims \<le> cl_iat claims + 900"
  using assms
  by (auto simp: verify_agent_jwt_def validate_jwt_secret_def validate_agent_claims_def Let_def
        result_simps limit_simps split: if_splits option.splits)

text \<open>The text an encoder writes passes the check of the wire format.\<close>

lemma segment_no_dot: "is_base64url_segment s \<Longrightarrow> c \<in> set s \<Longrightarrow> c \<noteq> CHR ''.'' \<and> byte c < 128"
  by (auto simp: is_base64url_segment_def list_all_iff is_ascii_alphanumeric_def is_digit_def)

lemma wire_format_ok:
  assumes "is_base64url_segment h" "is_base64url_segment p" "is_base64url_segment s"
    and "length (h @ ''.'' @ p @ ''.'' @ s) \<le> 4096"
  shows "validate_jwt_wire_format (h @ ''.'' @ p @ ''.'' @ s) = Inr ()"
proof -
  have "split_on (\<lambda>c. c = CHR ''.'') (h @ ''.'' @ p @ ''.'' @ s) = [h, p, s]"
    using assms(1-3) segment_no_dot by (simp add: split_on_append_sep split_on_plain)
  moreover have "is_ascii (h @ ''.'' @ p @ ''.'' @ s)"
    using assms(1-3) segment_no_dot by (auto simp: is_ascii_def list_all_iff)
  ultimately show ?thesis using assms by (simp add: validate_jwt_wire_format_def limit_simps)
qed

text \<open>
  A signed token works for its lifetime and no longer: verified by the same secret it yields
  the agent it was signed for until six minutes after signing (five minutes of life and one of
  tolerated clock skew), and is refused from then on. The uuid crate parses back what it
  prints; the encoder writes three Base64 segments of bounded length that the decoder reads
  back.
\<close>

theorem signed_jwt_lifetime:
  assumes uuid: "up (us a) = Some a" "trim (us a) \<noteq> []"
    and jti: "trim jti \<noteq> []" "length (trim jti) \<le> 128" "\<not> list_ex is_ascii_control (trim jti)"
    and enc: "\<And>c k tok. enc c k = Some tok \<Longrightarrow>
        \<exists>h p s. tok = h @ ''.'' @ p @ ''.'' @ s \<and> length tok \<le> 4096 \<and> is_base64url_segment h \<and>
          is_base64url_segment p \<and> is_base64url_segment s \<and> dh tok = Some HS256 \<and>
          dec tok k agent_jwt_validation = Some c"
    and signed: "sign_agent_jwt us enc t jti a secret = Inr token"
    and clock: "0 < timestamp t" "timestamp t \<le> timestamp now"
  shows "(timestamp now < timestamp t + 360 \<longrightarrow>
            (\<exists>c. verify_agent_jwt up us dh dec now token secret = Inr c \<and> cl_sub c = us a)) \<and>
         (timestamp t + 360 \<le> timestamp now \<longrightarrow>
            verify_agent_jwt up us dh dec now token secret = Inl TokenExpired)"
proof -
  let ?c = "\<lparr>cl_sub = us a, cl_exp = timestamp t + 300, cl_iat = timestamp t, cl_jti = jti\<rparr>"
  have exp: "timestamp (t + 300000000000) = timestamp t + 300"
    by (simp add: timestamp_def)
  from signed obtain k where k: "validate_jwt_secret secret = Inr k" "a \<noteq> 0" "enc ?c k = Some token"
    by (auto simp: sign_agent_jwt_def result_simps limit_simps exp split: if_splits)
  from enc [OF k(3)] have tok: "validate_jwt_wire_format token = Inr ()" "dh token = Some HS256"
      "dec token k agent_jwt_validation = Some ?c"
    using wire_format_ok by auto
  show ?thesis
    using k tok uuid jti clock
    by (auto simp: verify_agent_jwt_def validate_agent_claims_def limit_simps Let_def ok_or_def)
qed

definition demo_jwt_secret :: string where
  "demo_jwt_secret = ''0123456789abcdef0123456789abcdef''"

definition demo_claims :: agent_claims where
  "demo_claims = \<lparr>cl_sub = ''7'', cl_exp = 301, cl_iat = 1, cl_jti = ''j''\<rparr>"

definition demo_encode :: "agent_claims \<Rightarrow> string \<Rightarrow> string option" where
  "demo_encode c k = (if c = demo_claims then Some ''a.b.c'' else None)"

lemma demo_signed:
  "sign_agent_jwt (\<lambda>_. ''7'') demo_encode 1000000000 ''j'' 7 demo_jwt_secret = Inr ''a.b.c''"
proof -
  have "validate_jwt_secret demo_jwt_secret = Inr demo_jwt_secret" by code_simp
  then show ?thesis
    by (simp add: sign_agent_jwt_def demo_encode_def demo_claims_def ok_or_def timestamp_def limit_simps)
qed

theorem signed_jwt_lifetime_witness:
  "\<exists>c. verify_agent_jwt (\<lambda>_. Some 7) (\<lambda>_. ''7'') (\<lambda>_. Some HS256) (\<lambda>_ _ _. Some demo_claims)
         1000000000 ''a.b.c'' demo_jwt_secret = Inr c \<and> cl_sub c = ''7''"
proof -
  have one: "trim ''7'' = ''7''" "trim ''j'' = ''j''" by code_simp+
  have seg: "\<exists>h p s. tok = h @ ''.'' @ p @ ''.'' @ s \<and> length tok \<le> 4096 \<and> is_base64url_segment h \<and>
          is_base64url_segment p \<and> is_base64url_segment s \<and> Some HS256 = Some HS256 \<and>
          Some demo_claims = Some c" if "demo_encode c k = Some tok" for c k tok
  proof -
    have "is_base64url_segment ''a''" "is_base64url_segment ''b''" "is_base64url_segment ''c''" by code_simp+
    with that show ?thesis
      by (intro exI [of _ "''a''"] exI [of _ "''b''"] exI [of _ "''c''"])
         (auto simp: demo_encode_def split: if_splits)
  qed
  let ?verify = "verify_agent_jwt (\<lambda>_. Some 7) (\<lambda>_. ''7'') (\<lambda>_. Some HS256) (\<lambda>_ _ _. Some demo_claims)
         1000000000 ''a.b.c'' demo_jwt_secret"
  have "(timestamp 1000000000 < timestamp 1000000000 + 360 \<longrightarrow> (\<exists>c. ?verify = Inr c \<and> cl_sub c = ''7'')) \<and>
        (timestamp 1000000000 + 360 \<le> timestamp 1000000000 \<longrightarrow> ?verify = Inl TokenExpired)"
    by (rule signed_jwt_lifetime [where enc = demo_encode and jti = "''j''" and t = 1000000000])
       (use seg demo_signed in \<open>simp_all add: one timestamp_def is_ascii_control_def\<close>)
  then show ?thesis by simp
qed

theorem verified_jwt_within_bounds_witness:
  "\<exists>c. verify_agent_jwt (\<lambda>_. Some 7) (\<lambda>_. ''7'') (\<lambda>_. Some HS256) (\<lambda>_ _ _. Some demo_claims)
         1000000000 ''a.b.c'' demo_jwt_secret = Inr c \<and> cl_exp c \<le> cl_iat c + 900"
proof -
  have "verify_agent_jwt (\<lambda>_. Some 7) (\<lambda>_. ''7'') (\<lambda>_. Some HS256) (\<lambda>_ _ _. Some demo_claims)
         1000000000 ''a.b.c'' demo_jwt_secret = Inr demo_claims" by code_simp
  from verified_jwt_within_bounds [OF this] this show ?thesis by blast
qed

theorem totp_accepted_iff_witness:
  "verify_totp_code_step (\<lambda>_ _. replicate 20 7) ''AE'' (format_totp (totp_at (\<lambda>_ _. replicate 20 7) [1] 2)) 0 \<noteq> Some 5"
  unfolding totp_accepted_iff by (auto simp: totp_good_step_def timestamp_def)

end
