(* ===== verification/Access_Control.thy ===== *)
theory Access_Control
  imports Auth_Tokens
begin

text \<open>
  Who may do what: roles (\<open>shared/authz.rs\<close>), scopes of personal access tokens and the server
  allowlist (\<open>auth/rbac.rs\<close>), and the creation of tokens (\<open>api/v1/pat.rs\<close>).

  Parameters: \<open>uuid_parse\<close> and \<open>uuid_show\<close> are the uuid crate, \<open>parse_rfc3339\<close> chrono's reader of
  times, \<open>find_agent\<close> the answer of the agent repository. Errors of \<open>rbac.rs\<close> are their texts,
  since \<open>pat.rs\<close> inspects them.
\<close>

section \<open>Roles and sessions\<close>

datatype user_role = Admin | Member

definition is_admin :: "user_role \<Rightarrow> bool" where
  "is_admin r = (r = Admin)"

fun role_text :: "user_role \<Rightarrow> string" where
  "role_text Admin = ''admin''"
| "role_text Member = ''member''"

definition role_parse :: "string \<Rightarrow> string + user_role" where
  "role_parse s =
     (if s = ''admin'' then Inr Admin else if s = ''member'' then Inr Member
      else Inl (''Invalid role: '' @ s))"

datatype auth_kind = Session | PersonalAccessToken

record auth_session =
  as_session_id :: string
  as_user_id :: u128
  as_username :: string
  as_role :: user_role
  as_csrf_token :: string
  as_auth_kind :: auth_kind
  as_scopes :: "string list"
  as_server_ids :: "string list option"
  as_pat_id :: "string option"

text \<open>The errors of a request handler (\<open>AppError\<close> of \<open>api/v1/auth.rs\<close>).\<close>

datatype app_error =
    DatabaseError | Unauthorized string | Forbidden string | BadRequest string
  | TooManyRequests string | NotFound string

section \<open>Scopes\<close>

definition KNOWN_SCOPES :: "string list" where
  "KNOWN_SCOPES =
     [''inventory:read'', ''inventory:delete'', ''server:read'', ''server:write'', ''server:delete'',
      ''server:exec'', ''service:read'', ''service:write'', ''service:delete'', ''alert:read'',
      ''alert:write'', ''alert:delete'', ''task:read'', ''task:write'', ''task:delete'', ''task:exec'',
      ''ddns:read'', ''ddns:write'', ''ddns:delete'', ''nat:read'', ''nat:write'', ''nat:delete'',
      ''notification:read'', ''notification:write'', ''notification:delete'', ''transfer:read'',
      ''transfer:write'', ''admin:*'']"

definition NON_ADMIN_PAT_DENIED_SCOPES :: "string list" where
  "NON_ADMIN_PAT_DENIED_SCOPES =
     [''inventory:delete'', ''server:write'', ''server:delete'', ''server:exec'', ''task:write'',
      ''task:delete'', ''task:exec'', ''ddns:write'', ''ddns:delete'', ''nat:write'', ''nat:delete'',
      ''transfer:write'']"

definition SERVER_SCOPED_PAT_NAMESPACES :: "string list" where
  "SERVER_SCOPED_PAT_NAMESPACES = [''server'', ''service'', ''alert'', ''task'', ''nat'', ''transfer'']"

definition PAT_RUNTIME_MAX_SCOPES :: nat where [limit_simps]: "PAT_RUNTIME_MAX_SCOPES = 64"
definition PAT_RUNTIME_MAX_SCOPE_BYTES :: nat where [limit_simps]: "PAT_RUNTIME_MAX_SCOPE_BYTES = 128"
definition PAT_RUNTIME_MAX_SERVER_IDS :: nat where [limit_simps]: "PAT_RUNTIME_MAX_SERVER_IDS = 64"
definition PAT_RUNTIME_MAX_SERVER_ID_BYTES :: nat where [limit_simps]: "PAT_RUNTIME_MAX_SERVER_ID_BYTES = 64"

abbreviation colon :: char where "colon \<equiv> CHR '':''"

definition in_namespace :: "string \<Rightarrow> string \<Rightarrow> bool" where
  "in_namespace namespace scope =
     (case split_once colon scope of None \<Rightarrow> False | Some (ns, _) \<Rightarrow> ns = namespace)"

definition known_scope_namespace :: "string \<Rightarrow> bool" where
  "known_scope_namespace namespace = list_ex (in_namespace namespace) KNOWN_SCOPES"

definition namespace_contains_non_admin_denied_scope :: "string \<Rightarrow> bool" where
  "namespace_contains_non_admin_denied_scope namespace =
     list_ex (in_namespace namespace) NON_ADMIN_PAT_DENIED_SCOPES"

definition validate_pat_scope_resource_limits :: "string list \<Rightarrow> string + unit" where
  "validate_pat_scope_resource_limits scopes =
     (if scopes = [] then Inl ''scopes must not be empty''
      else if length scopes > PAT_RUNTIME_MAX_SCOPES
      then Inl (''scopes must contain at most '' @ show_nat PAT_RUNTIME_MAX_SCOPES @ '' items'')
      else if list_ex (\<lambda>scope. length scope > PAT_RUNTIME_MAX_SCOPE_BYTES) scopes
      then Inl (''scope must be at most '' @ show_nat PAT_RUNTIME_MAX_SCOPE_BYTES @ '' bytes'')
      else Inr ())"

definition quoted :: "string \<Rightarrow> string" where
  "quoted s = CHR 0x27 # s @ [CHR 0x27]"

text \<open>The body of the loop of \<open>validate_pat_scopes\<close>.\<close>

definition validate_pat_scope :: "bool \<Rightarrow> string \<Rightarrow> string + unit" where
  "validate_pat_scope admin scope =
     (if scope = ''*'' then Inl (''wildcard '' @ quoted ''*'' @ '' is not allowed in PAT scopes'')
      else if scope = ''admin:*'' then
        (if \<not> admin then Inl ''admin:* scope requires admin role'' else Inr ())
      else if \<not> admin \<and> scope \<in> set NON_ADMIN_PAT_DENIED_SCOPES
      then Inl (''scope '' @ scope @ '' requires admin role'')
      else case split_once colon scope of
        None \<Rightarrow> Inl (''scope '' @ quoted scope @ '' must use '' @ quoted ''namespace:action'' @ '' format'')
      | Some (namespace, action) \<Rightarrow>
          if namespace = [] \<or> action = [] then Inl (''invalid scope format: '' @ scope)
          else if action = ''*'' then
            (if \<not> known_scope_namespace namespace then Inl (''unknown scope namespace: '' @ namespace)
             else if \<not> admin \<and> namespace_contains_non_admin_denied_scope namespace
             then Inl (''scope '' @ scope @ '' includes admin-only permissions'')
             else Inr ())
          else if scope \<notin> set KNOWN_SCOPES then Inl (''unknown scope: '' @ scope)
          else Inr ())"

fun validate_each :: "('a \<Rightarrow> 'e + unit) \<Rightarrow> 'a list \<Rightarrow> 'e + unit" where
  "validate_each f [] = Inr ()"
| "validate_each f (x # xs) = and_then (f x) (\<lambda>_. validate_each f xs)"

definition validate_pat_scopes :: "string list \<Rightarrow> bool \<Rightarrow> string + unit" where
  "validate_pat_scopes scopes admin =
     and_then (validate_pat_scope_resource_limits scopes) (\<lambda>_. validate_each (validate_pat_scope admin) scopes)"

definition pat_scope_grants :: "string \<Rightarrow> string \<Rightarrow> bool \<Rightarrow> bool" where
  "pat_scope_grants stored_scope required_scope admin =
     (if stored_scope = ''*'' \<or> \<not> is_ok (validate_pat_scopes [stored_scope] admin) then False
      else if stored_scope = required_scope then True
      else case split_once colon stored_scope of
        None \<Rightarrow> False
      | Some (stored_namespace, stored_action) \<Rightarrow>
          if stored_action \<noteq> ''*'' then False
          else in_namespace stored_namespace required_scope)"

definition pat_scopes_require_server_allowlist :: "string list \<Rightarrow> bool" where
  "pat_scopes_require_server_allowlist scopes =
     list_ex (\<lambda>scope. case split_once colon scope of
                        None \<Rightarrow> False | Some (ns, _) \<Rightarrow> ns \<in> set SERVER_SCOPED_PAT_NAMESPACES) scopes"

definition validate_server_id ::
  "(string \<Rightarrow> u128 option) \<Rightarrow> (u128 \<Rightarrow> string) \<Rightarrow> string \<Rightarrow> string + unit" where
  "validate_server_id uuid_parse uuid_show sid =
     (if length sid > PAT_RUNTIME_MAX_SERVER_ID_BYTES
      then Inl (''server id in allowlist must be at most '' @ show_nat PAT_RUNTIME_MAX_SERVER_ID_BYTES @ '' bytes'')
      else case uuid_parse sid of
        None \<Rightarrow> Inl (''invalid server id in allowlist: '' @ sid)
      | Some parsed \<Rightarrow>
          ensure (uuid_show parsed = sid) (''server id in allowlist must be a canonical UUID: '' @ sid))"

definition validate_server_ids ::
  "(string \<Rightarrow> u128 option) \<Rightarrow> (u128 \<Rightarrow> string) \<Rightarrow> string list option \<Rightarrow> string + unit" where
  "validate_server_ids uuid_parse uuid_show server_ids =
     (case server_ids of
        None \<Rightarrow> Inr ()
      | Some ids \<Rightarrow>
          if length ids > PAT_RUNTIME_MAX_SERVER_IDS
          then Inl (''server allowlist must contain at most '' @ show_nat PAT_RUNTIME_MAX_SERVER_IDS @ '' items'')
          else validate_each (validate_server_id uuid_parse uuid_show) ids)"

definition validate_pat_policy_resource_limits ::
  "(string \<Rightarrow> u128 option) \<Rightarrow> (u128 \<Rightarrow> string) \<Rightarrow> string list \<Rightarrow> string list option \<Rightarrow> string + unit" where
  "validate_pat_policy_resource_limits uuid_parse uuid_show scopes server_ids =
     and_then (validate_pat_scope_resource_limits scopes) (\<lambda>_. validate_server_ids uuid_parse uuid_show server_ids)"

definition allowlist_empty :: "string list option \<Rightarrow> bool" where
  "allowlist_empty ids = (case ids of None \<Rightarrow> True | Some l \<Rightarrow> l = [])"

definition validate_pat_runtime ::
  "(string \<Rightarrow> u128 option) \<Rightarrow> (u128 \<Rightarrow> string) \<Rightarrow> string list \<Rightarrow> bool \<Rightarrow> string list option \<Rightarrow> string + unit" where
  "validate_pat_runtime uuid_parse uuid_show scopes admin server_ids =
     and_then (validate_pat_scopes scopes admin) (\<lambda>_.
     and_then (validate_server_ids uuid_parse uuid_show server_ids) (\<lambda>_.
       ensure (\<not> (\<not> admin \<and> pat_scopes_require_server_allowlist scopes \<and> allowlist_empty server_ids))
         ''non-admin PATs with server-scoped permissions require a non-empty server allowlist''))"

definition member_cookie_scope_allowed :: "string \<Rightarrow> bool" where
  "member_cookie_scope_allowed required_scope =
     (required_scope \<in> {''inventory:read'', ''server:read'', ''service:read'', ''alert:read'', ''task:read'',
        ''ddns:read'', ''nat:read'', ''notification:read'', ''transfer:read''})"

definition has_scope :: "auth_session \<Rightarrow> string \<Rightarrow> bool" where
  "has_scope session required_scope =
     (if as_auth_kind session \<noteq> PersonalAccessToken
      then is_admin (as_role session) \<or> member_cookie_scope_allowed required_scope
      else case split_once colon required_scope of
             None \<Rightarrow> list_ex (\<lambda>s. s = required_scope) (as_scopes session)
           | Some _ \<Rightarrow>
               list_ex (\<lambda>s. pat_scope_grants s required_scope (is_admin (as_role session))) (as_scopes session))"

definition can_access_server :: "auth_session \<Rightarrow> string \<Rightarrow> bool" where
  "can_access_server session server_id =
     (case as_server_ids session of None \<Rightarrow> True | Some ids \<Rightarrow> list_ex (\<lambda>i. i = server_id) ids)"

definition can_access_servers :: "auth_session \<Rightarrow> string list \<Rightarrow> bool" where
  "can_access_servers session server_ids =
     (case as_server_ids session of
        None \<Rightarrow> True
      | Some allow \<Rightarrow> list_all (\<lambda>i. list_ex (\<lambda>a. a = i) allow) server_ids)"

text \<open>The guards in front of a route: \<open>Inl\<close> is the status returned instead of running the handler.\<close>

datatype status_code = UNAUTHORIZED | FORBIDDEN

definition require_admin :: "auth_session option \<Rightarrow> status_code + unit" where
  "require_admin ext =
     and_then (ok_or ext UNAUTHORIZED) (\<lambda>session. ensure (is_admin (as_role session)) FORBIDDEN)"

definition require_auth :: "auth_session option \<Rightarrow> status_code + unit" where
  "require_auth ext = and_then (ok_or ext UNAUTHORIZED) (\<lambda>_. Inr ())"

definition require_scope :: "string \<Rightarrow> auth_session option \<Rightarrow> status_code + unit" where
  "require_scope scope ext =
     and_then (ok_or ext UNAUTHORIZED) (\<lambda>session. ensure (has_scope session scope) FORBIDDEN)"

section \<open>Lemmas\<close>

lemma first_separator:
  "d \<notin> set a \<Longrightarrow> d \<notin> set c \<Longrightarrow> a @ d # b = c @ d # e \<longleftrightarrow> a = c \<and> b = e"
proof (induction a arbitrary: c)
  case Nil
  then show ?case by (cases c) auto
next
  case (Cons x a)
  then show ?case by (cases c) auto
qed

lemma split_once_iff:
  "split_once d s = Some (a, b) \<longleftrightarrow> s = a @ d # b \<and> d \<notin> set a"
proof
  assume "split_once d s = Some (a, b)"
  then have *: "d \<in> set s" "a = takeWhile (\<lambda>c. c \<noteq> d) s" "b = tl (dropWhile (\<lambda>c. c \<noteq> d) s)"
    by (auto simp: split_once_def split: if_splits)
  then have "dropWhile (\<lambda>c. c \<noteq> d) s \<noteq> []" by (auto simp: dropWhile_eq_Nil_conv)
  then obtain x xs where x: "dropWhile (\<lambda>c. c \<noteq> d) s = x # xs" by (cases "dropWhile (\<lambda>c. c \<noteq> d) s") auto
  then have "x = d" using hd_dropWhile [of "\<lambda>c. c \<noteq> d" s] by auto
  with x * takeWhile_dropWhile_id [of "\<lambda>c. c \<noteq> d" s] show "s = a @ d # b \<and> d \<notin> set a"
    by (auto dest: set_takeWhileD)
next
  assume "s = a @ d # b \<and> d \<notin> set a"
  then show "split_once d s = Some (a, b)"
    by (auto simp: split_once_def takeWhile_append dropWhile_append)
qed

lemma split_once_None: "split_once d s = None \<longleftrightarrow> d \<notin> set s"
  by (simp add: split_once_def)

lemma in_namespace_iff: "in_namespace ns scope \<longleftrightarrow> colon \<notin> set ns \<and> (\<exists>action. scope = ns @ colon # action)"
  by (auto simp: in_namespace_def split_once_iff split_once_None first_separator split: option.splits)

lemma in_namespace_unique: "in_namespace a scope \<Longrightarrow> in_namespace b scope \<Longrightarrow> a = b"
  by (auto simp: in_namespace_def split: option.splits)

lemma validate_each_ok: "validate_each f xs = Inr u \<longleftrightarrow> (\<forall>x \<in> set xs. f x = Inr ())"
  by (induction xs) (auto simp: result_simps)

lemma validate_one_scope:
  "is_ok (validate_pat_scopes [scope] admin) \<longleftrightarrow> length scope \<le> 128 \<and> validate_pat_scope admin scope = Inr ()"
  by (auto simp: validate_pat_scopes_def validate_pat_scope_resource_limits_def limit_simps result_simps)

lemma pat_scope_grants_iff:
  "pat_scope_grants stored required admin \<longleftrightarrow>
     length stored \<le> 128 \<and> validate_pat_scope admin stored = Inr () \<and>
     (stored = required \<or> (\<exists>ns. stored = ns @ '':*'' \<and> in_namespace ns required))"
proof -
  have star: "stored = ''*'' \<Longrightarrow> validate_pat_scope admin stored \<noteq> Inr ()"
    by (simp add: validate_pat_scope_def)
  show ?thesis
    using star unfolding pat_scope_grants_def validate_one_scope in_namespace_iff
    by (auto simp: split_once_iff split_once_None first_separator split: option.splits)
qed

lemma member_scope_not_denied:
  assumes "validate_pat_scope False stored = Inr ()"
  shows "stored \<notin> set NON_ADMIN_PAT_DENIED_SCOPES" "stored \<noteq> ''admin:*''"
    and "stored = ns @ '':*'' \<Longrightarrow> in_namespace ns req \<Longrightarrow> req \<notin> set NON_ADMIN_PAT_DENIED_SCOPES"
proof -
  show "stored \<notin> set NON_ADMIN_PAT_DENIED_SCOPES" "stored \<noteq> ''admin:*''"
    using assms by (auto simp: validate_pat_scope_def split: if_splits)
  assume stored: "stored = ns @ '':*''" and req: "in_namespace ns req"
  then have "split_once colon stored = Some (ns, ''*'')"
    by (auto simp: in_namespace_iff split_once_iff)
  with assms have "\<not> namespace_contains_non_admin_denied_scope ns"
    using \<open>stored \<noteq> ''admin:*''\<close> by (auto simp: validate_pat_scope_def split: if_splits)
  with req show "req \<notin> set NON_ADMIN_PAT_DENIED_SCOPES"
    by (auto simp: namespace_contains_non_admin_denied_scope_def list_ex_iff)
qed

lemma has_scope_pat:
  assumes "as_auth_kind session = PersonalAccessToken" "colon \<in> set required"
  shows "has_scope session required \<longleftrightarrow>
     (\<exists>stored \<in> set (as_scopes session). pat_scope_grants stored required (is_admin (as_role session)))"
  using assms by (auto simp: has_scope_def split_once_None list_ex_iff split: option.splits)

lemma denied_scopes_have_colon: "req \<in> set NON_ADMIN_PAT_DENIED_SCOPES \<Longrightarrow> colon \<in> set req"
  by (auto simp: NON_ADMIN_PAT_DENIED_SCOPES_def)

text \<open>
  What a member's accepted token can hold and what it needs: the read scopes, the namespaces
  without an administrative scope, and the namespaces whose resources belong to a server.
\<close>

definition member_read_scopes :: "string set" where
  "member_read_scopes = {''inventory:read'', ''server:read'', ''task:read'', ''ddns:read'', ''nat:read'', ''transfer:read''}"

definition member_namespaces :: "string set" where
  "member_namespaces = {''service'', ''alert'', ''notification''}"

definition server_namespaces :: "string set" where
  "server_namespaces = {''server'', ''service'', ''alert'', ''task'', ''nat'', ''transfer''}"

lemma known_namespaces:
  "known_scope_namespace ns \<longleftrightarrow>
     ns \<in> {''inventory'', ''server'', ''service'', ''alert'', ''task'', ''ddns'', ''nat'', ''notification'',
           ''transfer'', ''admin''}"
  by (auto simp: known_scope_namespace_def KNOWN_SCOPES_def in_namespace_def split_once_def)

lemma denied_namespaces:
  "namespace_contains_non_admin_denied_scope ns \<longleftrightarrow>
     ns \<in> {''inventory'', ''server'', ''task'', ''ddns'', ''nat'', ''transfer''}"
  by (auto simp: namespace_contains_non_admin_denied_scope_def NON_ADMIN_PAT_DENIED_SCOPES_def
      in_namespace_def split_once_def)

lemma known_scopes_split:
  "\<forall>s \<in> set KNOWN_SCOPES. s \<in> set NON_ADMIN_PAT_DENIED_SCOPES \<or> s = ''admin:*'' \<or>
     s \<in> member_read_scopes \<or>
     (\<exists>ns \<in> member_namespaces. in_namespace ns s)"
  by code_simp

lemma member_wildcard_namespace:
  assumes "validate_pat_scope False (ns @ '':*'') = Inr ()" "colon \<notin> set ns"
  shows "ns \<in> member_namespaces"
proof -
  have "split_once colon (ns @ '':*'') = Some (ns, ''*'')" using assms(2) by (simp add: split_once_iff)
  then show ?thesis
    using assms(1) by (auto simp: validate_pat_scope_def known_namespaces denied_namespaces
        member_namespaces_def split: if_splits)
qed

lemma member_scope_range:
  assumes "validate_pat_scope False stored = Inr ()"
    and "stored = required \<or> (\<exists>m. stored = m @ '':*'' \<and> in_namespace m required)"
  shows "required \<in> member_read_scopes \<or>
     (\<exists>ns action. ns \<in> member_namespaces \<and> required = ns @ '':'' @ action)"
proof (cases "\<exists>m. stored = m @ '':*'' \<and> in_namespace m required")
  case True
  then obtain m where m: "stored = m @ '':*''" "in_namespace m required" by blast
  then have "m \<in> member_namespaces"
    using assms(1) by (intro member_wildcard_namespace) (auto simp: in_namespace_iff)
  moreover obtain action where "required = m @ '':'' @ action" using m(2) by (auto simp: in_namespace_iff)
  ultimately show ?thesis by blast
next
  case False
  then have req: "required = stored" using assms(2) by blast
  obtain ns action where split: "split_once colon stored = Some (ns, action)" "stored \<noteq> ''admin:*''"
      "stored \<notin> set NON_ADMIN_PAT_DENIED_SCOPES"
    using assms(1) by (auto simp: validate_pat_scope_def split: if_splits option.splits)
  then have stored: "stored = ns @ '':'' @ action" "colon \<notin> set ns" by (simp_all add: split_once_iff)
  then have "action \<noteq> ''*''" using False req by (auto simp: in_namespace_iff)
  then have "stored \<in> set KNOWN_SCOPES"
    using assms(1) split by (auto simp: validate_pat_scope_def split: if_splits)
  then have "required \<in> member_read_scopes \<or> (\<exists>ns \<in> member_namespaces. in_namespace ns required)"
    using split(2,3) req known_scopes_split by blast
  moreover have "in_namespace m required \<Longrightarrow> \<exists>action. required = m @ '':'' @ action" for m
    by (simp add: in_namespace_iff)
  ultimately show ?thesis by blast
qed

lemma accepted_scope_grant:
  assumes "validate_pat_runtime up us (as_scopes session) False (as_server_ids session) = Inr ()"
    and "\<not> is_admin (as_role session)" "as_auth_kind session = PersonalAccessToken"
    and "has_scope session required"
  obtains stored where "stored \<in> set (as_scopes session)" "validate_pat_scope False stored = Inr ()"
    "stored = required \<or> (\<exists>m. stored = m @ '':*'' \<and> in_namespace m required)"
proof (cases "colon \<in> set required")
  case True
  then show ?thesis using assms(2-4) that by (auto simp: has_scope_pat pat_scope_grants_iff)
next
  case False
  then have "required \<in> set (as_scopes session)"
    using assms(3,4) split_once_None [THEN iffD2, OF False] by (simp add: has_scope_def list_ex_iff)
  moreover have "\<forall>stored \<in> set (as_scopes session). validate_pat_scope False stored = Inr ()"
    using assms(1) by (auto simp: validate_pat_runtime_def validate_pat_scopes_def validate_each_ok result_simps)
  ultimately show ?thesis using that by blast
qed

lemma granted_namespace:
  assumes "in_namespace ns required"
    and "stored = required \<or> (\<exists>m. stored = m @ '':*'' \<and> in_namespace m required)"
  shows "in_namespace ns stored"
  using assms(2)
proof (elim disjE exE conjE)
  fix m assume m: "stored = m @ '':*''" "in_namespace m required"
  then have "m = ns" using assms(1) in_namespace_unique by blast
  with m show ?thesis by (auto simp: in_namespace_iff)
qed (simp add: assms(1))

lemma scopes_need_allowlist:
  assumes "in_namespace ns stored" "stored \<in> set scopes"
    and "ns \<in> server_namespaces"
  shows "pat_scopes_require_server_allowlist scopes"
  using assms
  by (force simp: pat_scopes_require_server_allowlist_def SERVER_SCOPED_PAT_NAMESPACES_def server_namespaces_def list_ex_iff
      in_namespace_def split: option.splits)

lemma allowlist_confines:
  assumes "validate_pat_runtime up us (as_scopes session) False (as_server_ids session) = Inr ()"
    and "pat_scopes_require_server_allowlist (as_scopes session)"
  shows "\<exists>ids. as_server_ids session = Some ids \<and> ids \<noteq> [] \<and> length ids \<le> 64 \<and>
           (\<forall>i \<in> set ids. \<exists>a. up i = Some a \<and> us a = i) \<and>
           (\<forall>i. can_access_server session i \<longleftrightarrow> i \<in> set ids)"
proof -
  from assms obtain ids where ids: "as_server_ids session = Some ids" "ids \<noteq> []"
      "validate_server_ids up us (Some ids) = Inr ()"
    by (auto simp: validate_pat_runtime_def result_simps allowlist_empty_def split: option.splits)
  then have "length ids \<le> 64" "\<forall>i \<in> set ids. validate_server_id up us i = Inr ()"
    by (auto simp: validate_server_ids_def validate_each_ok limit_simps split: if_splits)
  with ids show ?thesis
    by (auto simp: validate_server_id_def can_access_server_def list_ex_iff result_simps
        split: if_splits option.splits)
qed

section \<open>Properties\<close>

text \<open>
  What a personal access token grants: for a scope of the form namespace and action, a token
  session has it exactly when one of the token's scopes, itself valid for the owner's present
  role, is that scope or the wildcard of its namespace. A bare asterisk grants nothing.
\<close>

theorem token_scope_exact:
  assumes "as_auth_kind session = PersonalAccessToken" "colon \<in> set required"
  shows "has_scope session required \<longleftrightarrow>
     (\<exists>stored \<in> set (as_scopes session).
        length stored \<le> 128 \<and> validate_pat_scope (is_admin (as_role session)) stored = Inr () \<and>
        (stored = required \<or> (\<exists>ns. stored = ns @ '':*'' \<and> in_namespace ns required)))"
  unfolding has_scope_pat [OF assms] pat_scope_grants_iff ..

text \<open>
  A member's token can never do an administrator's work: whatever scopes are stored with it, a
  token session of a member has none of the scopes reserved to administrators, and a member's
  cookie session has only read scopes.
\<close>

theorem member_never_admin_scope:
  assumes "as_role session = Member" "required \<in> set NON_ADMIN_PAT_DENIED_SCOPES \<union> {''admin:*''}"
  shows "\<not> has_scope session required"
proof (cases "as_auth_kind session")
  case Session
  with assms show ?thesis
    by (auto simp: has_scope_def is_admin_def member_cookie_scope_allowed_def NON_ADMIN_PAT_DENIED_SCOPES_def)
next
  case PersonalAccessToken
  have "colon \<in> set required" using assms(2) denied_scopes_have_colon by auto
  moreover have "\<not> pat_scope_grants stored required False" for stored
  proof
    assume "pat_scope_grants stored required False"
    then have valid: "validate_pat_scope False stored = Inr ()"
      and grant: "stored = required \<or> (\<exists>ns. stored = ns @ '':*'' \<and> in_namespace ns required)"
      by (auto simp: pat_scope_grants_iff)
    have "in_namespace ns ''admin:*'' \<Longrightarrow> ns = ''admin''" for ns
      by (rule in_namespace_unique) (auto simp: in_namespace_iff)
    with assms(2) grant member_scope_not_denied [OF valid] show False by auto
  qed
  ultimately show ?thesis
    using assms(1) PersonalAccessToken by (auto simp: has_scope_pat is_admin_def)
qed

text \<open>
  (C35) A member's token, once the runtime policy has accepted it, grants only non-administrative
  scopes: a read scope of the inventory, servers, tasks, ddns, nat or transfers, or a scope of the
  namespaces service, alert and notification. If the scope granted is of one of the
  server-related namespaces, the token carries a non-empty allowlist, of at most 64 canonical
  server ids, and reaches exactly those servers.
\<close>

theorem member_token_confined:
  assumes "validate_pat_runtime up us (as_scopes session) False (as_server_ids session) = Inr ()"
    and "as_role session = Member" "as_auth_kind session = PersonalAccessToken"
    and "has_scope session required"
  shows "(required \<in> member_read_scopes \<or>
          (\<exists>ns action. ns \<in> member_namespaces \<and> required = ns @ '':'' @ action)) \<and>
     (\<forall>ns action. ns \<in> server_namespaces \<longrightarrow>
        required = ns @ '':'' @ action \<longrightarrow>
        (\<exists>ids. as_server_ids session = Some ids \<and> ids \<noteq> [] \<and> length ids \<le> 64 \<and>
           (\<forall>i \<in> set ids. \<exists>a. up i = Some a \<and> us a = i) \<and>
           (\<forall>i. can_access_server session i \<longleftrightarrow> i \<in> set ids)))"
proof (intro conjI allI impI)
  obtain stored where stored: "stored \<in> set (as_scopes session)" "validate_pat_scope False stored = Inr ()"
      "stored = required \<or> (\<exists>m. stored = m @ '':*'' \<and> in_namespace m required)"
    by (rule accepted_scope_grant [OF assms(1) _ assms(3,4)]) (simp add: assms(2) is_admin_def)
  show "required \<in> member_read_scopes \<or>
          (\<exists>ns action. ns \<in> member_namespaces \<and> required = ns @ '':'' @ action)"
    by (rule member_scope_range [OF stored(2,3)])
  fix ns action
  assume ns: "ns \<in> server_namespaces"
    and req: "required = ns @ '':'' @ action"
  then have "in_namespace ns required" by (auto simp: in_namespace_iff server_namespaces_def)
  then have "in_namespace ns stored" using stored(3) by (rule granted_namespace)
  then have "pat_scopes_require_server_allowlist (as_scopes session)"
    using stored(1) ns by (rule scopes_need_allowlist)
  with assms(1) show "\<exists>ids. as_server_ids session = Some ids \<and> ids \<noteq> [] \<and> length ids \<le> 64 \<and>
           (\<forall>i \<in> set ids. \<exists>a. up i = Some a \<and> us a = i) \<and>
           (\<forall>i. can_access_server session i \<longleftrightarrow> i \<in> set ids)"
    by (rule allowlist_confines)
qed

definition demo_token_session :: auth_session where
  "demo_token_session =
     \<lparr>as_session_id = ''p'', as_user_id = 1, as_username = ''u'', as_role = Member, as_csrf_token = [],
      as_auth_kind = PersonalAccessToken, as_scopes = [''service:*''], as_server_ids = Some [''7''],
      as_pat_id = Some ''p''\<rparr>"

lemma demo_token_valid:
  "validate_pat_scope False ''service:*'' = Inr ()"
  "validate_pat_runtime (\<lambda>_. Some 7) (\<lambda>_. ''7'') [''service:*''] False (Some [''7'']) = Inr ()"
  "has_scope demo_token_session ''service:write''"
  by code_simp+

theorem token_scope_exact_witness:
  "\<exists>stored \<in> {''service:*''}. length stored \<le> 128 \<and> validate_pat_scope False stored = Inr () \<and>
     (stored = ''service:write'' \<or> (\<exists>ns. stored = ns @ '':*'' \<and> in_namespace ns ''service:write''))"
  using token_scope_exact [of demo_token_session "''service:write''"] demo_token_valid(3)
  by (simp add: demo_token_session_def is_admin_def)

theorem member_never_admin_scope_witness: "\<not> has_scope demo_token_session ''server:exec''"
  by (rule member_never_admin_scope) (simp_all add: demo_token_session_def NON_ADMIN_PAT_DENIED_SCOPES_def)

theorem member_token_confined_witness:
  "has_scope demo_token_session ''service:write'' \<and>
   can_access_server demo_token_session ''7'' \<and> \<not> can_access_server demo_token_session ''8'' \<and>
   (\<exists>ns action. ns \<in> member_namespaces \<and> ''service:write'' = ns @ '':'' @ action)"
proof -
  have run: "validate_pat_runtime (\<lambda>_. Some 7) (\<lambda>_. ''7'') (as_scopes demo_token_session) False
      (as_server_ids demo_token_session) = Inr ()"
    using demo_token_valid(2) by (simp add: demo_token_session_def)
  have session: "as_role demo_token_session = Member" "as_auth_kind demo_token_session = PersonalAccessToken"
      "as_server_ids demo_token_session = Some [''7'']"
    by (simp_all add: demo_token_session_def)
  note confined = member_token_confined [OF run session(1,2) demo_token_valid(3)]
  have "\<forall>i. can_access_server demo_token_session i \<longleftrightarrow> i = ''7''"
    using confined [THEN conjunct2, rule_format, of "''service''" "''write''"] session(3)
    by (simp add: server_namespaces_def)
  moreover have "\<exists>ns action. ns \<in> member_namespaces \<and> ''service:write'' = ns @ '':'' @ action"
    using confined [THEN conjunct1] by (simp add: member_read_scopes_def)
  ultimately show ?thesis using demo_token_valid(3) by simp
qed

end
