(* ===== verification/Pat_Store.thy ===== *)
theory Pat_Store
  imports Access_Control
begin

text \<open>
  Personal access tokens from creation to revocation: the request of \<open>api/v1/pat.rs\<close> and the
  table \<open>personal_access_tokens\<close> behind \<open>PATRepository\<close> (\<open>db/repository/pat.rs\<close>).

  The table is the list of its rows in insertion order, with the columns of the PostgreSQL
  schema; an SQL statement is the list operation it stands for, and the unique index on the token
  hash makes an insertion fail. Failures of the database itself and the rounding of stored times
  to microseconds are not modelled. \<open>sha256\<close> is the hash of the sha2 crate, \<open>hex\<close> the function
  \<open>encode\<close> of the hex crate, \<open>draw\<close> the bytes the random generator returns; the other parameters are those of \<open>Access_Control\<close>.
\<close>

section \<open>Tokens\<close>

definition hash_token :: "(u8 list \<Rightarrow> string) \<Rightarrow> (u8 list \<Rightarrow> u8 list) \<Rightarrow> string \<Rightarrow> string" where
  "hash_token hex sha256 token = hex (sha256 (as_bytes token))"

definition generate_session_token :: "(u8 list \<Rightarrow> string) \<Rightarrow> u8 list \<Rightarrow> string" where
  "generate_session_token hex draw = hex draw"

definition generate_pat :: "(u8 list \<Rightarrow> string) \<Rightarrow> (u8 list \<Rightarrow> u8 list) \<Rightarrow> u8 list \<Rightarrow> string \<times> string" where
  "generate_pat hex sha256 draw = (let token = ''xlp_'' @ hex draw in (token, hash_token hex sha256 token))"

section \<open>Requests\<close>

definition DEFAULT_PAT_TTL_DAYS :: int where [limit_simps]: "DEFAULT_PAT_TTL_DAYS = 90"
definition MAX_PAT_TTL_DAYS :: int where [limit_simps]: "MAX_PAT_TTL_DAYS = 365"
definition PAT_MAX_NAME_BYTES :: nat where [limit_simps]: "PAT_MAX_NAME_BYTES = 128"
definition PAT_MAX_SCOPES :: nat where [limit_simps]: "PAT_MAX_SCOPES = 64"
definition PAT_MAX_SCOPE_BYTES :: nat where [limit_simps]: "PAT_MAX_SCOPE_BYTES = 128"
definition PAT_MAX_SERVER_IDS :: nat where [limit_simps]: "PAT_MAX_SERVER_IDS = 64"
definition PAT_MAX_EXPIRES_AT_BYTES :: nat where [limit_simps]: "PAT_MAX_EXPIRES_AT_BYTES = 64"
definition PAT_RESOURCE_UUID_TEXT_LEN :: nat where [limit_simps]: "PAT_RESOURCE_UUID_TEXT_LEN = 36"

record create_pat_request =
  cp_name :: string
  cp_scopes :: "string list"
  cp_server_ids :: "string list option"
  cp_expires_at :: "string option"

definition validate_scopes :: "string list \<Rightarrow> bool \<Rightarrow> app_error + unit" where
  "validate_scopes scopes admin =
     (case validate_pat_scopes scopes admin of
        Inl msg \<Rightarrow> Inl (if contains ''admin'' msg then Forbidden msg else BadRequest msg)
      | Inr _ \<Rightarrow> Inr ())"

definition validate_servers ::
  "(string \<Rightarrow> u128 option) \<Rightarrow> (u128 \<Rightarrow> string) \<Rightarrow> string list option \<Rightarrow> string list \<Rightarrow> bool \<Rightarrow> app_error + unit" where
  "validate_servers up us ids scopes admin =
     (case validate_server_ids up us ids of
        Inl msg \<Rightarrow> Inl (BadRequest msg)
      | Inr _ \<Rightarrow>
          ensure (\<not> (\<not> admin \<and> pat_scopes_require_server_allowlist scopes \<and> allowlist_empty ids))
            (Forbidden ''non-admin PATs with server-scoped permissions require a non-empty server allowlist''))"

record agent_row =
  ag_owner_user_id :: u128
  ag_revoked_at :: "datetime option"

definition check_allowlisted_server ::
  "(string \<Rightarrow> u128 option) \<Rightarrow> (u128 \<Rightarrow> app_error + agent_row option) \<Rightarrow> u128 \<Rightarrow> bool \<Rightarrow> string
    \<Rightarrow> app_error + unit" where
  "check_allowlisted_server up find_agent user_id admin sid =
     (case up sid of
        None \<Rightarrow> Inl (BadRequest (''invalid server id in allowlist: '' @ sid))
      | Some agent_id \<Rightarrow>
          and_then (find_agent agent_id) (\<lambda>found.
            case found of
              None \<Rightarrow> Inl (BadRequest (''server id in allowlist does not exist: '' @ sid))
            | Some agent \<Rightarrow>
                if ag_revoked_at agent \<noteq> None
                then Inl (BadRequest (''server id in allowlist has been revoked: '' @ sid))
                else ensure (admin \<or> ag_owner_user_id agent = user_id)
                  (Forbidden ''non-admin PAT server allowlist can only contain owned servers'')))"

definition validate_server_allowlist_ownership ::
  "(string \<Rightarrow> u128 option) \<Rightarrow> (u128 \<Rightarrow> app_error + agent_row option) \<Rightarrow> u128 \<Rightarrow> bool \<Rightarrow> string list option
    \<Rightarrow> app_error + unit" where
  "validate_server_allowlist_ownership up find_agent user_id admin ids =
     (case ids of None \<Rightarrow> Inr ()
      | Some l \<Rightarrow> validate_each (check_allowlisted_server up find_agent user_id admin) l)"

definition normalize_required_text :: "string \<Rightarrow> nat \<Rightarrow> string \<Rightarrow> app_error + string" where
  "normalize_required_text v max_bytes field =
     (let v' = trim v
      in if v' = [] then Inl (BadRequest (field @ '' is required''))
         else if length v' > max_bytes
         then Inl (BadRequest (field @ '' must be at most '' @ show_nat max_bytes @ '' bytes''))
         else Inr v')"

fun collect_scopes :: "string list \<Rightarrow> string list \<Rightarrow> app_error + string list" where
  "collect_scopes [] scopes = Inr scopes"
| "collect_scopes (v # vs) scopes =
     (let v' = trim v
      in if v' = [] then collect_scopes vs scopes
         else if length v' > PAT_MAX_SCOPE_BYTES
         then Inl (BadRequest (''scope must be at most '' @ show_nat PAT_MAX_SCOPE_BYTES @ '' bytes''))
         else collect_scopes vs (if v' \<in> set scopes then scopes else scopes @ [v']))"

definition normalize_scopes :: "string list \<Rightarrow> app_error + string list" where
  "normalize_scopes values =
     (if values = [] then Inl (BadRequest ''scopes must not be empty'')
      else if length values > PAT_MAX_SCOPES
      then Inl (BadRequest (''scopes must contain at most '' @ show_nat PAT_MAX_SCOPES @ '' items''))
      else and_then (collect_scopes values []) (\<lambda>scopes.
        if scopes = [] then Inl (BadRequest ''scopes must not be empty'') else Inr scopes))"

fun collect_server_ids ::
  "(string \<Rightarrow> u128 option) \<Rightarrow> (u128 \<Rightarrow> string) \<Rightarrow> string list \<Rightarrow> u128 list \<Rightarrow> string list
    \<Rightarrow> app_error + string list" where
  "collect_server_ids up us [] seen ids = Inr ids"
| "collect_server_ids up us (v # vs) seen ids =
     (let v' = trim v
      in if v' = [] then collect_server_ids up us vs seen ids
         else case up v' of
           None \<Rightarrow> Inl (BadRequest ''invalid server id in allowlist'')
         | Some parsed \<Rightarrow>
             if parsed \<in> set seen then collect_server_ids up us vs seen ids
             else collect_server_ids up us vs (parsed # seen) (ids @ [us parsed]))"

definition normalize_server_ids ::
  "(string \<Rightarrow> u128 option) \<Rightarrow> (u128 \<Rightarrow> string) \<Rightarrow> string list option \<Rightarrow> app_error + string list option" where
  "normalize_server_ids up us values =
     (case values of None \<Rightarrow> Inr None
      | Some vs \<Rightarrow>
          if length vs > PAT_MAX_SERVER_IDS
          then Inl (BadRequest (''server_ids must contain at most '' @ show_nat PAT_MAX_SERVER_IDS @ '' items''))
          else and_then (collect_server_ids up us vs [] []) (\<lambda>ids.
            if ids = [] then Inl (BadRequest ''server_ids must not be empty when provided'') else Inr (Some ids)))"

definition normalize_expires_at :: "string option \<Rightarrow> app_error + string option" where
  "normalize_expires_at v =
     (case v of None \<Rightarrow> Inr None
      | Some t \<Rightarrow>
          (let t' = trim t
           in if t' = [] then Inr None
              else if length t' > PAT_MAX_EXPIRES_AT_BYTES
              then Inl (BadRequest (''expires_at must be at most '' @ show_nat PAT_MAX_EXPIRES_AT_BYTES @ '' bytes''))
              else Inr (Some t')))"

definition normalize_create_pat_request ::
  "(string \<Rightarrow> u128 option) \<Rightarrow> (u128 \<Rightarrow> string) \<Rightarrow> create_pat_request \<Rightarrow> app_error + create_pat_request" where
  "normalize_create_pat_request up us req =
     and_then (normalize_required_text (cp_name req) PAT_MAX_NAME_BYTES ''name'') (\<lambda>name.
     and_then (normalize_scopes (cp_scopes req)) (\<lambda>scopes.
     and_then (normalize_server_ids up us (cp_server_ids req)) (\<lambda>server_ids.
     and_then (normalize_expires_at (cp_expires_at req)) (\<lambda>expires_at.
       Inr \<lparr>cp_name = name, cp_scopes = scopes, cp_server_ids = server_ids, cp_expires_at = expires_at\<rparr>))))"

definition normalize_pat_resource_uuid ::
  "(string \<Rightarrow> u128 option) \<Rightarrow> (u128 \<Rightarrow> string) \<Rightarrow> string \<Rightarrow> string \<Rightarrow> app_error + string" where
  "normalize_pat_resource_uuid up us v field =
     (if v = [] then Inl (BadRequest (field @ '' is required''))
      else if length v \<noteq> PAT_RESOURCE_UUID_TEXT_LEN then Inl (BadRequest (field @ '' must be a canonical UUID''))
      else case up v of
        None \<Rightarrow> Inl (BadRequest (field @ '' must be a canonical UUID''))
      | Some parsed \<Rightarrow>
          if us parsed \<noteq> v then Inl (BadRequest (field @ '' must be a canonical UUID'')) else Inr (us parsed))"

definition pat_days :: "int \<Rightarrow> int" where
  "pat_days n = n * 86400 * 1000000000"

definition resolve_pat_expires_at ::
  "(string \<Rightarrow> datetime option) \<Rightarrow> string option \<Rightarrow> datetime \<Rightarrow> app_error + datetime" where
  "resolve_pat_expires_at parse_rfc3339 input now =
     and_then
       (case (case input of None \<Rightarrow> None | Some t \<Rightarrow> if trim t = [] then None else Some (trim t)) of
          Some t \<Rightarrow> ok_or (parse_rfc3339 t) (BadRequest ''Invalid expires_at'')
        | None \<Rightarrow> Inr (now + pat_days DEFAULT_PAT_TTL_DAYS))
       (\<lambda>expires_at.
          if expires_at \<le> now then Inl (BadRequest ''expires_at must be in the future'')
          else if expires_at > now + pat_days MAX_PAT_TTL_DAYS
          then Inl (BadRequest (''expires_at must be within '' @ show_nat (nat MAX_PAT_TTL_DAYS) @ '' days''))
          else Inr expires_at)"

section \<open>The table\<close>

datatype pat_json = JArray "pat_json list" | JString string | JOther

record pat_row =
  pr_id :: u128
  pr_user_id :: u128
  pr_name :: string
  pr_token_hash :: string
  pr_scopes :: pat_json
  pr_server_ids :: "pat_json option"
  pr_expires_at :: "datetime option"
  pr_last_used_at :: "datetime option"
  pr_last_used_ip :: "string option"
  pr_created_at :: datetime
  pr_revoked_at :: "datetime option"

record personal_access_token =
  pat_id :: string
  pat_user_id :: u128
  pat_name :: string
  pat_token_hash :: string
  pat_scopes :: "string list"
  pat_server_ids :: "string list option"
  pat_expires_at :: "datetime option"
  pat_last_used_at :: "datetime option"
  pat_last_used_ip :: "string option"
  pat_created_at :: datetime
  pat_revoked_at :: "datetime option"

record create_pat_input =
  ci_user_id :: u128
  ci_name :: string
  ci_scopes :: "string list"
  ci_server_ids :: "string list option"
  ci_expires_at :: "datetime option"

definition PAT_RUNTIME_SCOPES_JSON_MAX_BYTES :: nat where [limit_simps]: "PAT_RUNTIME_SCOPES_JSON_MAX_BYTES = 16 * 1024"
definition PAT_RUNTIME_SERVER_IDS_JSON_MAX_BYTES :: nat where [limit_simps]: "PAT_RUNTIME_SERVER_IDS_JSON_MAX_BYTES = 8 * 1024"

definition string_array :: "string list \<Rightarrow> pat_json" where
  "string_array xs = JArray (map JString xs)"

definition repo_create ::
  "(u128 \<Rightarrow> string) \<Rightarrow> u128 \<Rightarrow> datetime \<Rightarrow> create_pat_input \<Rightarrow> string \<Rightarrow> pat_row list
    \<Rightarrow> (app_error + personal_access_token) \<times> pat_row list" where
  "repo_create us new_id now input token_hash rows =
     (if list_ex (\<lambda>r. pr_token_hash r = token_hash \<or> pr_id r = new_id) rows then (Inl DatabaseError, rows)
      else
        (Inr \<lparr>pat_id = us new_id, pat_user_id = ci_user_id input, pat_name = ci_name input,
              pat_token_hash = token_hash, pat_scopes = ci_scopes input, pat_server_ids = ci_server_ids input,
              pat_expires_at = ci_expires_at input, pat_last_used_at = None, pat_last_used_ip = None,
              pat_created_at = now, pat_revoked_at = None\<rparr>,
         rows @ [\<lparr>pr_id = new_id, pr_user_id = ci_user_id input, pr_name = ci_name input,
              pr_token_hash = token_hash, pr_scopes = string_array (ci_scopes input),
              pr_server_ids = map_option string_array (ci_server_ids input),
              pr_expires_at = ci_expires_at input, pr_last_used_at = None, pr_last_used_ip = None,
              pr_created_at = now, pr_revoked_at = None\<rparr>]))"

fun collect_strings :: "nat \<Rightarrow> nat \<Rightarrow> nat \<Rightarrow> pat_json list \<Rightarrow> string list option" where
  "collect_strings max_bytes max_item_bytes used [] = Some []"
| "collect_strings max_bytes max_item_bytes used (v # vs) =
     (case v of
        JString s \<Rightarrow>
          if length s > max_item_bytes then None
          else (let used' = sat_add64 (sat_add64 used (length s)) 3
                in if used' > max_bytes then None
                   else map_option (\<lambda>out. s # out) (collect_strings max_bytes max_item_bytes used' vs))
      | _ \<Rightarrow> None)"

definition parse_string_array_value :: "pat_json \<Rightarrow> nat \<Rightarrow> nat \<Rightarrow> nat \<Rightarrow> string list option" where
  "parse_string_array_value v max_bytes max_items max_item_bytes =
     (case v of
        JArray vs \<Rightarrow> if length vs > max_items then None else collect_strings max_bytes max_item_bytes 2 vs
      | _ \<Rightarrow> None)"

definition row_to_pat ::
  "(string \<Rightarrow> u128 option) \<Rightarrow> (u128 \<Rightarrow> string) \<Rightarrow> pat_row \<Rightarrow> personal_access_token option" where
  "row_to_pat up us r =
     (case parse_string_array_value (pr_scopes r) PAT_RUNTIME_SCOPES_JSON_MAX_BYTES
             PAT_RUNTIME_MAX_SCOPES PAT_RUNTIME_MAX_SCOPE_BYTES of
        None \<Rightarrow> None
      | Some scopes \<Rightarrow>
          (case (case pr_server_ids r of
                   None \<Rightarrow> Some None
                 | Some v \<Rightarrow> map_option Some (parse_string_array_value v PAT_RUNTIME_SERVER_IDS_JSON_MAX_BYTES
                              PAT_RUNTIME_MAX_SERVER_IDS PAT_RUNTIME_MAX_SERVER_ID_BYTES)) of
             None \<Rightarrow> None
           | Some server_ids \<Rightarrow>
               if is_ok (validate_pat_policy_resource_limits up us scopes server_ids) then
                 Some \<lparr>pat_id = us (pr_id r), pat_user_id = pr_user_id r, pat_name = pr_name r,
                       pat_token_hash = pr_token_hash r, pat_scopes = scopes, pat_server_ids = server_ids,
                       pat_expires_at = pr_expires_at r, pat_last_used_at = pr_last_used_at r,
                       pat_last_used_ip = pr_last_used_ip r, pat_created_at = pr_created_at r,
                       pat_revoked_at = pr_revoked_at r\<rparr>
               else None))"

definition repo_find_by_token_hash ::
  "(string \<Rightarrow> u128 option) \<Rightarrow> (u128 \<Rightarrow> string) \<Rightarrow> string \<Rightarrow> pat_row list \<Rightarrow> personal_access_token option" where
  "repo_find_by_token_hash up us token_hash rows =
     (case find (\<lambda>r. pr_token_hash r = token_hash \<and> pr_revoked_at r = None) rows of
        None \<Rightarrow> None
      | Some r \<Rightarrow> row_to_pat up us r)"

definition repo_mark_used ::
  "(string \<Rightarrow> u128 option) \<Rightarrow> datetime \<Rightarrow> string \<Rightarrow> string option \<Rightarrow> pat_row list \<Rightarrow> app_error + pat_row list" where
  "repo_mark_used up now pid ip rows =
     (case up pid of None \<Rightarrow> Inl DatabaseError
      | Some i \<Rightarrow>
          Inr (update_where (\<lambda>r. pr_id r = i \<and> pr_revoked_at r = None)
                 (\<lambda>r. r\<lparr>pr_last_used_at := Some now, pr_last_used_ip := ip\<rparr>) rows))"

definition repo_revoke ::
  "(string \<Rightarrow> u128 option) \<Rightarrow> datetime \<Rightarrow> string \<Rightarrow> u128 \<Rightarrow> pat_row list \<Rightarrow> (app_error + bool) \<times> pat_row list" where
  "repo_revoke up now pid user_id rows =
     (case up pid of None \<Rightarrow> (Inl DatabaseError, rows)
      | Some i \<Rightarrow>
          (let hit = (\<lambda>r. pr_id r = i \<and> pr_user_id r = user_id \<and> pr_revoked_at r = None)
           in (Inr (list_ex hit rows), update_where hit (\<lambda>r. r\<lparr>pr_revoked_at := Some now\<rparr>) rows)))"

definition repo_revoke_all_for_user :: "datetime \<Rightarrow> u128 \<Rightarrow> pat_row list \<Rightarrow> nat \<times> pat_row list" where
  "repo_revoke_all_for_user now user_id rows =
     (let hit = (\<lambda>r. pr_user_id r = user_id \<and> pr_revoked_at r = None)
      in (length (filter hit rows), update_where hit (\<lambda>r. r\<lparr>pr_revoked_at := Some now\<rparr>) rows))"

section \<open>Handlers\<close>

text \<open>
  \<open>create_pat\<close>: only from a cookie session, after the second factor (\<open>totp\<close> is the answer of
  \<open>require_sensitive_totp\<close>). The result is the new row and the token shown once.
\<close>

definition check_create_pat ::
  "(string \<Rightarrow> u128 option) \<Rightarrow> (u128 \<Rightarrow> string) \<Rightarrow> (string \<Rightarrow> datetime option)
    \<Rightarrow> (u128 \<Rightarrow> app_error + agent_row option) \<Rightarrow> app_error + unit \<Rightarrow> datetime \<Rightarrow> auth_session
    \<Rightarrow> create_pat_request \<Rightarrow> app_error + create_pat_input" where
  "check_create_pat up us parse_time find_agent totp now session req =
     and_then (ensure (as_auth_kind session \<noteq> PersonalAccessToken) (Forbidden ''PAT cannot manage API tokens'')) (\<lambda>_.
     and_then totp (\<lambda>_.
     and_then (normalize_create_pat_request up us req) (\<lambda>req'.
     and_then (validate_scopes (cp_scopes req') (is_admin (as_role session))) (\<lambda>_.
     and_then (validate_servers up us (cp_server_ids req') (cp_scopes req') (is_admin (as_role session))) (\<lambda>_.
     and_then (validate_server_allowlist_ownership up find_agent (as_user_id session)
                (is_admin (as_role session)) (cp_server_ids req')) (\<lambda>_.
     and_then (resolve_pat_expires_at parse_time (cp_expires_at req') now) (\<lambda>expires_at.
       Inr \<lparr>ci_user_id = as_user_id session, ci_name = cp_name req', ci_scopes = cp_scopes req',
            ci_server_ids = cp_server_ids req', ci_expires_at = Some expires_at\<rparr>)))))))"

definition create_pat ::
  "(string \<Rightarrow> u128 option) \<Rightarrow> (u128 \<Rightarrow> string) \<Rightarrow> (string \<Rightarrow> datetime option)
    \<Rightarrow> (u8 list \<Rightarrow> string) \<Rightarrow> (u8 list \<Rightarrow> u8 list)
    \<Rightarrow> (u128 \<Rightarrow> app_error + agent_row option) \<Rightarrow> app_error + unit \<Rightarrow> u8 list \<Rightarrow> u128 \<Rightarrow> datetime
    \<Rightarrow> auth_session \<Rightarrow> create_pat_request \<Rightarrow> pat_row list
    \<Rightarrow> (app_error + personal_access_token \<times> string) \<times> pat_row list" where
  "create_pat up us parse_time hex sha256 find_agent totp draw new_id now session req rows =
     (case check_create_pat up us parse_time find_agent totp now session req of
        Inl e \<Rightarrow> (Inl e, rows)
      | Inr input \<Rightarrow>
          (case generate_pat hex sha256 draw of (token, token_hash) \<Rightarrow>
             (case repo_create us new_id now input token_hash rows of
                (Inl e, rows') \<Rightarrow> (Inl e, rows')
              | (Inr pat, rows') \<Rightarrow> (Inr (pat, token), rows'))))"

definition revoke_pat ::
  "(string \<Rightarrow> u128 option) \<Rightarrow> (u128 \<Rightarrow> string) \<Rightarrow> app_error + unit \<Rightarrow> datetime \<Rightarrow> auth_session \<Rightarrow> string
    \<Rightarrow> pat_row list \<Rightarrow> (app_error + unit) \<times> pat_row list" where
  "revoke_pat up us totp now session pid rows =
     (case (and_then (ensure (as_auth_kind session \<noteq> PersonalAccessToken) (Forbidden ''PAT cannot manage API tokens'')) (\<lambda>_.
            and_then totp (\<lambda>_. normalize_pat_resource_uuid up us pid ''token_id''))) of
        Inl e \<Rightarrow> (Inl e, rows)
      | Inr i \<Rightarrow>
          (case repo_revoke up now i (as_user_id session) rows of
             (Inl e, rows') \<Rightarrow> (Inl e, rows')
           | (Inr revoked, rows') \<Rightarrow>
               (ensure revoked (BadRequest ''Token not found or already revoked''), rows')))"

section \<open>Steps of the table\<close>

inductive pat_step :: "(u128 \<Rightarrow> string) \<Rightarrow> (string \<Rightarrow> u128 option) \<Rightarrow> pat_row list \<Rightarrow> pat_row list \<Rightarrow> bool"
  for us up where
  pat_create: "repo_create us i now input h rows = (res, rows') \<Longrightarrow> pat_step us up rows rows'"
| pat_mark: "repo_mark_used up now pid ip rows = Inr rows' \<Longrightarrow> pat_step us up rows rows'"
| pat_revoke: "repo_revoke up now pid u rows = (res, rows') \<Longrightarrow> pat_step us up rows rows'"
| pat_revoke_all: "repo_revoke_all_for_user now u rows = (n, rows') \<Longrightarrow> pat_step us up rows rows'"

definition pats_ok :: "pat_row list \<Rightarrow> bool" where
  "pats_ok rows \<longleftrightarrow> distinct (map pr_token_hash rows) \<and> distinct (map pr_id rows)"

definition token_dead :: "string \<Rightarrow> pat_row list \<Rightarrow> bool" where
  "token_dead h rows \<longleftrightarrow>
     (\<exists>r \<in> set rows. pr_token_hash r = h) \<and> (\<forall>r \<in> set rows. pr_token_hash r = h \<longrightarrow> pr_revoked_at r \<noteq> None)"

section \<open>Lemmas\<close>

lemmas repo_updates = repo_mark_used_def repo_revoke_def repo_revoke_all_for_user_def

lemma pat_step_ok: "pat_step us up rows rows' \<Longrightarrow> pats_ok rows \<Longrightarrow> pats_ok rows'"
proof (induction rule: pat_step.induct)
  case (pat_create i now input h rows res rows')
  then show ?case
    by (auto simp: repo_create_def pats_ok_def list_ex_iff split: if_splits)
qed (auto simp: repo_updates pats_ok_def Let_def map_update_where split: option.splits)

lemma token_dead_update:
  assumes "token_dead h rows" "\<And>r. pr_token_hash (f r) = pr_token_hash r"
    and "\<And>r. pr_revoked_at r \<noteq> None \<Longrightarrow> pr_revoked_at (f r) \<noteq> None"
  shows "token_dead h (update_where P f rows)"
proof -
  have hash: "pr_token_hash (if P r then f r else r) = pr_token_hash r" for r by (simp add: assms(2))
  from assms(1) obtain r where "r \<in> set rows" "pr_token_hash r = h" by (auto simp: token_dead_def)
  then have "\<exists>q \<in> set (update_where P f rows). pr_token_hash q = h"
    using hash [of r] unfolding in_update_where by (intro bexI [of _ "if P r then f r else r"]) (auto simp: in_update_where)
  moreover have "pr_revoked_at q \<noteq> None" if q: "q \<in> set (update_where P f rows)" "pr_token_hash q = h" for q
  proof -
    from q(1) obtain r where r: "r \<in> set rows" "q = (if P r then f r else r)" unfolding in_update_where by blast
    with q(2) hash [of r] have "pr_token_hash r = h" by simp
    with assms(1) r(1) have "pr_revoked_at r \<noteq> None" by (auto simp: token_dead_def)
    with r(2) assms(3) show ?thesis by simp
  qed
  ultimately show ?thesis unfolding token_dead_def by blast
qed

lemma pat_step_dead:
  assumes "pat_step us up rows rows'" "token_dead h rows"
  shows "token_dead h rows'"
  using assms
proof (induction rule: pat_step.induct)
  case (pat_create i now input k rows res rows')
  show ?case
  proof (cases "list_ex (\<lambda>r. pr_token_hash r = k \<or> pr_id r = i) rows")
    case True
    with pat_create show ?thesis by (simp add: repo_create_def)
  next
    case False
    with pat_create(2) have "k \<noteq> h" by (auto simp: token_dead_def list_ex_iff)
    with False pat_create show ?thesis by (auto simp: repo_create_def token_dead_def)
  qed
qed (auto simp: repo_updates Let_def token_dead_update split: option.splits)

lemma pat_steps_dead: "(pat_step us up)\<^sup>*\<^sup>* rows rows' \<Longrightarrow> token_dead h rows \<Longrightarrow> token_dead h rows'"
  by (induction rule: rtranclp_induct) (auto dest: pat_step_dead)

lemma dead_not_found:
  assumes "token_dead h rows"
  shows "repo_find_by_token_hash up us h rows = None"
proof -
  have "find (\<lambda>r. pr_token_hash r = h \<and> pr_revoked_at r = None) rows = None"
    using assms by (auto simp: token_dead_def find_None_iff)
  then show ?thesis by (simp add: repo_find_by_token_hash_def)
qed

lemma collect_strings_ok:
  assumes "list_all (\<lambda>s. length s \<le> m) xs" "used + (\<Sum>s\<leftarrow>xs. length s + 3) \<le> M" "M < u64_max"
  shows "collect_strings M m used (map JString xs) = Some xs"
  using assms
proof (induction xs arbitrary: used)
  case (Cons x xs)
  have "sat_add64 (sat_add64 used (length x)) 3 = used + length x + 3"
    using Cons.prems by (simp add: sat_add64_def)
  with Cons show ?case by (simp add: Let_def)
qed simp

lemma parse_string_array_ok:
  assumes "list_all (\<lambda>s. length s \<le> m) xs" "length xs \<le> n" "2 + n * (m + 3) \<le> M" "M < u64_max"
  shows "parse_string_array_value (string_array xs) M n m = Some xs"
proof -
  have "(\<Sum>s\<leftarrow>xs. length s + 3) \<le> (\<Sum>s\<leftarrow>xs. m + 3)"
    using assms(1) by (intro sum_list_mono) (auto simp: list_all_iff)
  also have "\<dots> = length xs * (m + 3)" by (simp add: sum_list_triv)
  also have "\<dots> \<le> n * (m + 3)" using assms(2) by (rule mult_le_mono1)
  finally have "2 + (\<Sum>s\<leftarrow>xs. length s + 3) \<le> M" using assms(3) by linarith
  then show ?thesis
    using assms by (simp add: parse_string_array_value_def string_array_def collect_strings_ok)
qed

lemma server_ids_short:
  "validate_server_ids up us (Some ids) = Inr u \<Longrightarrow> length ids \<le> 64 \<and> list_all (\<lambda>s. length s \<le> 64) ids"
  by (auto simp: validate_server_ids_def validate_each_ok validate_server_id_def limit_simps list_all_iff
       split: if_splits)

lemma scopes_short:
  "validate_pat_scope_resource_limits scopes = Inr u \<Longrightarrow> length scopes \<le> 64 \<and> list_all (\<lambda>s. length s \<le> 128) scopes"
  by (auto simp: validate_pat_scope_resource_limits_def limit_simps list_all_iff list_ex_iff not_less split: if_splits)

lemma created_row_loads:
  assumes "validate_pat_policy_resource_limits up us (ci_scopes input) (ci_server_ids input) = Inr ()"
    and "repo_create us i now input h rows = (Inr pat, rows')"
  shows "repo_find_by_token_hash up us h rows' = Some pat"
proof -
  let ?s = "ci_scopes input" and ?v = "ci_server_ids input"
  have lim: "validate_pat_scope_resource_limits ?s = Inr ()" "validate_server_ids up us ?v = Inr ()"
    using assms(1) by (auto simp: validate_pat_policy_resource_limits_def result_simps)
  have scopes: "parse_string_array_value (string_array ?s) 16384 64 128 = Some ?s"
    using scopes_short [OF lim(1)] by (intro parse_string_array_ok) (simp_all add: u64_max_def)
  have ids: "parse_string_array_value (string_array l) 8192 64 64 = Some l" if "?v = Some l" for l
    using server_ids_short [of up us l] lim(2) that
    by (intro parse_string_array_ok) (simp_all add: u64_max_def)
  have fresh: "find (\<lambda>r. pr_token_hash r = h \<and> pr_revoked_at r = None) rows = None"
    using assms(2) by (auto simp: repo_create_def find_None_iff list_ex_iff split: if_splits)
  show ?thesis
    using assms fresh scopes ids
    by (auto simp: repo_create_def repo_find_by_token_hash_def find_append_None row_to_pat_def limit_simps
        split: if_splits option.splits)
qed

text \<open>What normalisation keeps of a request.\<close>

lemma collect_scopes_set:
  "collect_scopes vs scopes = Inr out \<Longrightarrow> set out = set scopes \<union> (trim ` set vs - {[]})"
  by (induction vs scopes rule: collect_scopes.induct) (auto simp: Let_def split: if_splits)

lemma collect_server_ids_set:
  "collect_server_ids up us vs seen ids = Inr out \<Longrightarrow> set ids = us ` set seen \<Longrightarrow>
   set out = us ` (set seen \<union> {i. \<exists>v \<in> set vs. trim v \<noteq> [] \<and> up (trim v) = Some i})"
proof (induction up us vs seen ids rule: collect_server_ids.induct)
  case (2 up us v vs seen ids)
  show ?case
  proof (cases "trim v = []")
    case True
    then show ?thesis using 2 by (auto simp: Let_def)
  next
    case False
    then obtain i where "up (trim v) = Some i" using 2(4) by (auto simp: Let_def split: option.splits)
    then show ?thesis using 2 False by (cases "i \<in> set seen") (auto simp: Let_def)
  qed
qed simp

lemma normalized_request:
  assumes "normalize_create_pat_request up us req = Inr req'"
  shows "set (cp_scopes req') = trim ` set (cp_scopes req) - {[]}"
    and "case cp_server_ids req of
           None \<Rightarrow> cp_server_ids req' = None
         | Some vs \<Rightarrow> \<exists>ids. cp_server_ids req' = Some ids \<and> ids \<noteq> [] \<and>
             set ids = us ` {i. \<exists>v \<in> set vs. trim v \<noteq> [] \<and> up (trim v) = Some i}"
    and "cp_expires_at req' =
           (case cp_expires_at req of None \<Rightarrow> None | Some t \<Rightarrow> if trim t = [] then None else Some (trim t))"
proof -
  have parts: "normalize_scopes (cp_scopes req) = Inr (cp_scopes req')"
      "normalize_server_ids up us (cp_server_ids req) = Inr (cp_server_ids req')"
      "normalize_expires_at (cp_expires_at req) = Inr (cp_expires_at req')"
    using assms by (auto simp: normalize_create_pat_request_def result_simps)
  show "set (cp_scopes req') = trim ` set (cp_scopes req) - {[]}"
    using parts(1) collect_scopes_set [of "cp_scopes req" "[]"]
    by (auto simp: normalize_scopes_def result_simps split: if_splits)
  show "case cp_server_ids req of
           None \<Rightarrow> cp_server_ids req' = None
         | Some vs \<Rightarrow> \<exists>ids. cp_server_ids req' = Some ids \<and> ids \<noteq> [] \<and>
             set ids = us ` {i. \<exists>v \<in> set vs. trim v \<noteq> [] \<and> up (trim v) = Some i}"
    using parts(2) collect_server_ids_set [of up us _ "[]" "[]"]
    by (auto simp: normalize_server_ids_def result_simps eq_commute [of "Some _" "cp_server_ids req'"]
        split: if_splits option.splits)
  show "cp_expires_at req' =
           (case cp_expires_at req of None \<Rightarrow> None | Some t \<Rightarrow> if trim t = [] then None else Some (trim t))"
    using parts(3) by (auto simp: normalize_expires_at_def Let_def split: if_splits option.splits)
qed

lemma resolved_expiry:
  assumes "resolve_pat_expires_at pt (case v of None \<Rightarrow> None | Some t \<Rightarrow> if trim t = [] then None else Some (trim t)) now
      = Inr expires_at"
  shows "case v of
           None \<Rightarrow> expires_at = now + 90 * 86400 * 1000000000
         | Some text \<Rightarrow> if trim text = [] then expires_at = now + 90 * 86400 * 1000000000
                        else pt (trim text) = Some expires_at"
  using assms
  by (auto simp: resolve_pat_expires_at_def result_simps limit_simps pat_days_def
      split: if_splits option.splits)

lemma create_pat_cases:
  assumes "create_pat up us pt hex sha256 find_agent totp draw i now session req rows = (Inr (pat, token), rows')"
  obtains req' :: create_pat_request and expires_at :: datetime and input :: create_pat_input where
      "as_auth_kind session \<noteq> PersonalAccessToken" "totp = Inr ()"
      "normalize_create_pat_request up us req = Inr req'"
      "validate_scopes (cp_scopes req') (is_admin (as_role session)) = Inr ()"
      "validate_servers up us (cp_server_ids req') (cp_scopes req') (is_admin (as_role session)) = Inr ()"
      "validate_server_allowlist_ownership up find_agent (as_user_id session)
         (is_admin (as_role session)) (cp_server_ids req') = Inr ()"
      "resolve_pat_expires_at pt (cp_expires_at req') now = Inr expires_at"
      "input = \<lparr>ci_user_id = as_user_id session, ci_name = cp_name req', ci_scopes = cp_scopes req',
           ci_server_ids = cp_server_ids req', ci_expires_at = Some expires_at\<rparr>"
      "repo_create us i now input (hash_token hex sha256 token) rows = (Inr pat, rows')"
proof -
  obtain input where input: "check_create_pat up us pt find_agent totp now session req = Inr input"
      "repo_create us i now input (hash_token hex sha256 token) rows = (Inr pat, rows')"
    using assms by (auto simp: create_pat_def generate_pat_def Let_def split: sum.splits prod.splits)
  from input(1) obtain req' :: create_pat_request and expires_at where "as_auth_kind session \<noteq> PersonalAccessToken" "totp = Inr ()"
      "normalize_create_pat_request up us req = Inr req'"
      "validate_scopes (cp_scopes req') (is_admin (as_role session)) = Inr ()"
      "validate_servers up us (cp_server_ids req') (cp_scopes req') (is_admin (as_role session)) = Inr ()"
      "validate_server_allowlist_ownership up find_agent (as_user_id session)
         (is_admin (as_role session)) (cp_server_ids req') = Inr ()"
      "resolve_pat_expires_at pt (cp_expires_at req') now = Inr expires_at"
      "input = \<lparr>ci_user_id = as_user_id session, ci_name = cp_name req', ci_scopes = cp_scopes req',
           ci_server_ids = cp_server_ids req', ci_expires_at = Some expires_at\<rparr>"
    unfolding check_create_pat_def by (auto simp: result_simps)
  from that [OF this input(2)] show ?thesis .
qed

section \<open>Properties\<close>

text \<open>
  (C36) A created token is usable: only a cookie session can create one; the token the caller receives
  is found by its hash with exactly the scopes and servers stored, they pass the runtime policy
  and the ownership check applied on every later use, and it expires in the future, within a year.
  It is the token the request asked for: its scopes are the request's, its servers are the
  requested ones or all when none were given, and it expires at the requested time, or after 90
  days when none was given. White space around the texts and empty entries do not count.
\<close>

theorem created_token_usable:
  assumes "create_pat up us pt hex sha256 find_agent totp draw i now session req rows = (Inr (pat, token), rows')"
  shows "as_auth_kind session \<noteq> PersonalAccessToken \<and> totp = Inr () \<and>
     repo_find_by_token_hash up us (hash_token hex sha256 token) rows' = Some pat \<and>
     pat_user_id pat = as_user_id session \<and>
     validate_pat_runtime up us (pat_scopes pat) (is_admin (as_role session)) (pat_server_ids pat) = Inr () \<and>
     validate_server_allowlist_ownership up find_agent (as_user_id session) (is_admin (as_role session))
       (pat_server_ids pat) = Inr () \<and>
     (\<exists>t. pat_expires_at pat = Some t \<and> now < t \<and> t \<le> now + 365 * 86400 * 1000000000 \<and>
        (case cp_expires_at req of
           None \<Rightarrow> t = now + 90 * 86400 * 1000000000
         | Some text \<Rightarrow> if trim text = [] then t = now + 90 * 86400 * 1000000000
                        else pt (trim text) = Some t)) \<and>
     set (pat_scopes pat) = trim ` set (cp_scopes req) - {[]} \<and>
     (case cp_server_ids req of
        None \<Rightarrow> pat_server_ids pat = None
      | Some vs \<Rightarrow> \<exists>ids. pat_server_ids pat = Some ids \<and> ids \<noteq> [] \<and>
          set ids = us ` {i. \<exists>v \<in> set vs. trim v \<noteq> [] \<and> up (trim v) = Some i})"
proof -
  obtain req' :: create_pat_request and expires_at and input :: create_pat_input where
    checks: "as_auth_kind session \<noteq> PersonalAccessToken" "totp = Inr ()"
      "normalize_create_pat_request up us req = Inr req'"
      "validate_scopes (cp_scopes req') (is_admin (as_role session)) = Inr ()"
      "validate_servers up us (cp_server_ids req') (cp_scopes req') (is_admin (as_role session)) = Inr ()"
      "validate_server_allowlist_ownership up find_agent (as_user_id session)
         (is_admin (as_role session)) (cp_server_ids req') = Inr ()"
      "resolve_pat_expires_at pt (cp_expires_at req') now = Inr expires_at"
    and input: "input = \<lparr>ci_user_id = as_user_id session, ci_name = cp_name req', ci_scopes = cp_scopes req',
           ci_server_ids = cp_server_ids req', ci_expires_at = Some expires_at\<rparr>"
    and made: "repo_create us i now input (hash_token hex sha256 token) rows = (Inr pat, rows')"
    using assms
    by (elim create_pat_cases)
  have pat: "pat_scopes pat = cp_scopes req'" "pat_server_ids pat = cp_server_ids req'"
      "pat_user_id pat = as_user_id session" "pat_expires_at pat = Some expires_at"
    using made input by (auto simp: repo_create_def split: if_splits)
  have valid: "validate_pat_scopes (cp_scopes req') (is_admin (as_role session)) = Inr ()"
    using checks(4) by (auto simp: validate_scopes_def split: sum.splits)
  have servers: "validate_server_ids up us (cp_server_ids req') = Inr ()"
    using checks(5) by (auto simp: validate_servers_def split: sum.splits)
  have "validate_pat_policy_resource_limits up us (ci_scopes input) (ci_server_ids input) = Inr ()"
    using valid servers input
    by (auto simp: validate_pat_policy_resource_limits_def validate_pat_scopes_def result_simps)
  note loads = created_row_loads [OF this made]
  have policy: "validate_pat_runtime up us (pat_scopes pat) (is_admin (as_role session)) (pat_server_ids pat) = Inr ()"
    using checks(5) pat valid servers
    by (auto simp: validate_pat_runtime_def result_simps validate_servers_def split: sum.splits)
  have "now < expires_at \<and> expires_at \<le> now + 365 * 86400 * 1000000000"
    using checks(7) by (auto simp: resolve_pat_expires_at_def result_simps limit_simps pat_days_def split: if_splits)
  with resolved_expiry [OF checks(7) [unfolded normalized_request(3) [OF checks(3)]]]
  show ?thesis
    using loads checks(1,2,6) pat policy normalized_request(1,2) [OF checks(3)]
    by (simp split: option.splits)
qed

text \<open>
  (C37) Revocation is final: once its owner has revoked a token, no sequence of creations, uses and
  revocations makes its hash authenticate again; and a revocation request leaves every other
  user's tokens as they are.
\<close>

theorem revoked_token_stays_dead:
  assumes "pats_ok rows" "revoke_pat up us totp now session pid rows = (Inr (), rows')"
    and "r \<in> set rows" "up pid = Some (pr_id r)" "(pat_step us up)\<^sup>*\<^sup>* rows' rows''"
  shows "repo_find_by_token_hash up us (pr_token_hash r) rows'' = None \<and>
         pr_user_id r = as_user_id session \<and>
         (\<forall>q \<in> set rows. pr_user_id q \<noteq> as_user_id session \<longrightarrow> q \<in> set rows')"
proof -
  let ?hit = "\<lambda>q. pr_id q = pr_id r \<and> pr_user_id q = as_user_id session \<and> pr_revoked_at q = None"
  have "normalize_pat_resource_uuid up us pid ''token_id'' = Inr j \<Longrightarrow> up j = Some (pr_id r)" for j
    using assms(4) by (auto simp: normalize_pat_resource_uuid_def split: if_splits)
  then have hit: "list_ex ?hit rows" and rows': "rows' = update_where ?hit (\<lambda>q. q\<lparr>pr_revoked_at := Some now\<rparr>) rows"
    using assms(2) by (auto simp: revoke_pat_def repo_revoke_def result_simps Let_def
        split: sum.splits prod.splits option.splits)
  from hit obtain q where q: "q \<in> set rows" "?hit q" by (auto simp: list_ex_iff)
  then have "q = r" using assms(1,3) by (auto simp: pats_ok_def distinct_map inj_on_def)
  have same: "p = r" if "p \<in> set rows" "pr_token_hash p = pr_token_hash r" for p
    using assms(1,3) that by (auto simp: pats_ok_def distinct_map inj_on_def)
  have "token_dead (pr_token_hash r) rows'"
    unfolding token_dead_def
  proof (intro conjI ballI impI)
    show "\<exists>p \<in> set rows'. pr_token_hash p = pr_token_hash r"
      using assms(3) q \<open>q = r\<close> unfolding rows'
      by (intro bexI [of _ "r\<lparr>pr_revoked_at := Some now\<rparr>"]) (auto simp: in_update_where)
    fix p assume "p \<in> set rows'" "pr_token_hash p = pr_token_hash r"
    then obtain p0 where p0: "p0 \<in> set rows" "p = (if ?hit p0 then p0\<lparr>pr_revoked_at := Some now\<rparr> else p0)"
      unfolding rows' in_update_where by blast
    with \<open>pr_token_hash p = _\<close> have "p0 = r" by (intro same) (auto split: if_splits)
    with p0 q \<open>q = r\<close> show "pr_revoked_at p \<noteq> None" by simp
  qed
  from dead_not_found [OF pat_steps_dead [OF assms(5) this]] q \<open>q = r\<close> show ?thesis
    unfolding rows' by (auto simp: in_update_where)
qed

section \<open>Properties at concrete inputs\<close>

definition demo_hex :: "u8 list \<Rightarrow> string" where
  "demo_hex bytes = map (\<lambda>b. char_of (unat b)) bytes"

definition demo_cookie_session :: auth_session where
  "demo_cookie_session =
     \<lparr>as_session_id = ''s'', as_user_id = 1, as_username = ''u'', as_role = Admin, as_csrf_token = [],
      as_auth_kind = Session, as_scopes = [], as_server_ids = None, as_pat_id = None\<rparr>"

definition demo_pat_request :: create_pat_request where
  "demo_pat_request =
     \<lparr>cp_name = '' ci '', cp_scopes = [''server:read''], cp_server_ids = None, cp_expires_at = None\<rparr>"

abbreviation demo_create :: "(app_error + personal_access_token \<times> string) \<times> pat_row list" where
  "demo_create \<equiv> create_pat (\<lambda>_. None) (\<lambda>_. ''id'') (\<lambda>_. None) demo_hex id (\<lambda>_. Inr None) (Inr ()) [] 3 0
     demo_cookie_session demo_pat_request []"

lemma demo_created: "\<not> isl (fst demo_create) \<and> snd (projr (fst demo_create)) = ''xlp_''"
  by code_simp

theorem created_token_usable_witness:
  "\<exists>pat. repo_find_by_token_hash (\<lambda>_. None) (\<lambda>_. ''id'') (hash_token demo_hex id ''xlp_'') (snd demo_create) = Some pat"
proof -
  obtain pat token rows' where run: "demo_create = (Inr (pat, token), rows')"
    using demo_created by (cases demo_create; cases "fst demo_create") auto
  from created_token_usable [OF run] demo_created run show ?thesis by auto
qed

definition demo_rows :: "pat_row list" where
  "demo_rows =
     [\<lparr>pr_id = 3, pr_user_id = 1, pr_name = ''ci'', pr_token_hash = ''h'', pr_scopes = string_array [''server:read''],
       pr_server_ids = None, pr_expires_at = Some 9, pr_last_used_at = None, pr_last_used_ip = None,
       pr_created_at = 0, pr_revoked_at = None\<rparr>]"

theorem revoked_token_stays_dead_witness:
  "\<exists>rows'. revoke_pat (\<lambda>_. Some 3) (\<lambda>_. replicate 36 (CHR ''0'')) (Inr ()) 5 demo_cookie_session
       (replicate 36 (CHR ''0'')) demo_rows = (Inr (), rows') \<and>
     repo_find_by_token_hash (\<lambda>_. Some 3) (\<lambda>_. replicate 36 (CHR ''0'')) ''h'' rows' = None"
proof -
  let ?u = "replicate 36 (CHR ''0'')"
  have "fst (revoke_pat (\<lambda>_. Some 3) (\<lambda>_. ?u) (Inr ()) 5 demo_cookie_session ?u demo_rows) = Inr ()"
    by code_simp
  then obtain rows' where run: "revoke_pat (\<lambda>_. Some 3) (\<lambda>_. ?u) (Inr ()) 5 demo_cookie_session ?u demo_rows = (Inr (), rows')"
    by (cases "revoke_pat (\<lambda>_. Some 3) (\<lambda>_. ?u) (Inr ()) 5 demo_cookie_session ?u demo_rows") simp
  have "pats_ok demo_rows" by (simp add: pats_ok_def demo_rows_def)
  from revoked_token_stays_dead [OF this run, of "hd demo_rows" rows'] run show ?thesis
    by (auto simp: demo_rows_def)
qed

end
