(* ===== verification/Login_Sessions.thy ===== *)
theory Login_Sessions
  imports Pat_Store "HOL-Library.Product_Lexorder"
begin

text \<open>
  Browser sessions: \<open>SessionRepository\<close> (\<open>auth/session.rs\<close>) over the table \<open>sessions\<close>. The rows
  have the columns of the PostgreSQL schema; its unique indexes on the id and on the token hash
  make an insertion fail, which aborts the transaction. Times are kept exactly, and failures of
  the database itself are not modelled. \<open>new_id\<close> is the fresh UUID of the call.

  \<open>create\<close> is the PostgreSQL variant, which breaks ties of the creation time by id; the SQLite one
  breaks them by row number. Its transaction is one step: two logins that overlap in the database
  are taken one after the other.
\<close>

definition MAX_ACTIVE_SESSIONS_PER_USER :: nat where [limit_simps]: "MAX_ACTIVE_SESSIONS_PER_USER = 32"
definition MAX_RAW_SESSION_TOKEN_BYTES :: nat where [limit_simps]: "MAX_RAW_SESSION_TOKEN_BYTES = 128"
definition MAX_SESSION_TOKEN_HASH_BYTES :: nat where [limit_simps]: "MAX_SESSION_TOKEN_HASH_BYTES = 128"
definition MAX_SESSION_ID_BYTES :: nat where [limit_simps]: "MAX_SESSION_ID_BYTES = 64"
definition MAX_SESSION_IP_BYTES :: nat where [limit_simps]: "MAX_SESSION_IP_BYTES = 128"
definition MAX_SESSION_USER_AGENT_BYTES :: nat where [limit_simps]: "MAX_SESSION_USER_AGENT_BYTES = 512"

datatype session_error = InvalidTokenHash | ExpirationNotInFuture | InvalidSessionId | SessionInsertFailed

record session_row =
  sr_id :: u128
  sr_user_id :: u128
  sr_token_hash :: string
  sr_ip :: "string option"
  sr_user_agent :: "string option"
  sr_expires_at :: datetime
  sr_created_at :: datetime

record create_session_input =
  cs_user_id :: u128
  cs_ip :: "string option"
  cs_user_agent :: "string option"
  cs_expires_at :: datetime

section \<open>Checks\<close>

definition plain_token_text :: "string \<Rightarrow> bool" where
  "plain_token_text t = (is_ascii t \<and> \<not> list_ex (\<lambda>c. is_ascii_control c \<or> is_ascii_whitespace c) t)"

definition is_valid_raw_session_token :: "string \<Rightarrow> bool" where
  "is_valid_raw_session_token token =
     (token \<noteq> [] \<and> length token \<le> MAX_RAW_SESSION_TOKEN_BYTES \<and> plain_token_text token)"

definition validate_token_hash :: "string \<Rightarrow> session_error + string" where
  "validate_token_hash token_hash =
     (if token_hash = [] \<or> length token_hash > MAX_SESSION_TOKEN_HASH_BYTES \<or> \<not> plain_token_text token_hash
      then Inl InvalidTokenHash else Inr token_hash)"

definition sanitize_optional_metadata :: "string option \<Rightarrow> nat \<Rightarrow> string option" where
  "sanitize_optional_metadata v max_bytes =
     (case v of None \<Rightarrow> None
      | Some raw \<Rightarrow>
          (let trimmed = trim (strip_control raw)
           in if trimmed = [] then None
              else let e = boundary_at_or_before trimmed (min (length trimmed) max_bytes)
                   in if e = 0 then None else Some (take e trimmed)))"

section \<open>Operations\<close>

text \<open>The ids the second \<open>DELETE\<close> of \<open>create\<close> keeps: the newest live sessions of the user.\<close>

definition newest_ids :: "u128 \<Rightarrow> datetime \<Rightarrow> nat \<Rightarrow> session_row list \<Rightarrow> u128 list" where
  "newest_ids user_id now limit rows =
     map sr_id (take limit (rev (sort_key (\<lambda>r. (sr_created_at r, sr_id r))
       (filter (\<lambda>r. sr_user_id r = user_id \<and> sr_expires_at r > now) rows))))"

definition session_survivors :: "u128 \<Rightarrow> datetime \<Rightarrow> session_row list \<Rightarrow> session_row list" where
  "session_survivors user_id now rows =
     (let live = filter (\<lambda>r. \<not> sr_expires_at r \<le> now) rows;
          keep = newest_ids user_id now (MAX_ACTIVE_SESSIONS_PER_USER - 1) live
      in filter (\<lambda>r. \<not> (sr_user_id r = user_id \<and> sr_id r \<notin> set keep)) live)"

definition session_create ::
  "u128 \<Rightarrow> datetime \<Rightarrow> create_session_input \<Rightarrow> string \<Rightarrow> session_row list
    \<Rightarrow> (session_error + session_row) \<times> session_row list" where
  "session_create new_id now input token_hash rows =
     (case validate_token_hash token_hash of
        Inl e \<Rightarrow> (Inl e, rows)
      | Inr h \<Rightarrow>
          if cs_expires_at input \<le> now then (Inl ExpirationNotInFuture, rows)
          else
            (let row = \<lparr>sr_id = new_id, sr_user_id = cs_user_id input, sr_token_hash = h,
                   sr_ip = sanitize_optional_metadata (cs_ip input) MAX_SESSION_IP_BYTES,
                   sr_user_agent = sanitize_optional_metadata (cs_user_agent input) MAX_SESSION_USER_AGENT_BYTES,
                   sr_expires_at = cs_expires_at input, sr_created_at = now\<rparr>;
                 kept = session_survivors (cs_user_id input) now rows
             in if list_ex (\<lambda>r. sr_id r = new_id \<or> sr_token_hash r = h) kept
                then (Inl SessionInsertFailed, rows)
                else (Inr row, kept @ [row])))"

definition session_find_by_token_hash :: "datetime \<Rightarrow> string \<Rightarrow> session_row list \<Rightarrow> session_row option" where
  "session_find_by_token_hash now token_hash rows =
     (case validate_token_hash token_hash of
        Inl _ \<Rightarrow> None
      | Inr h \<Rightarrow>
          (case find (\<lambda>r. sr_token_hash r = h \<and> sr_expires_at r > now) rows of
             None \<Rightarrow> None
           | Some r \<Rightarrow> if sr_expires_at r > now then Some r else None))"

definition session_find_by_token ::
  "(u8 list \<Rightarrow> string) \<Rightarrow> (u8 list \<Rightarrow> u8 list) \<Rightarrow> datetime \<Rightarrow> string \<Rightarrow> session_row list \<Rightarrow> session_row option" where
  "session_find_by_token hex sha256 now token rows =
     (if \<not> is_valid_raw_session_token token then None
      else session_find_by_token_hash now (hash_token hex sha256 token) rows)"

definition session_find_by_id ::
  "(string \<Rightarrow> u128 option) \<Rightarrow> (u128 \<Rightarrow> string) \<Rightarrow> datetime \<Rightarrow> string \<Rightarrow> session_row list \<Rightarrow> session_row option" where
  "session_find_by_id up us now session_id rows =
     (if session_id = [] \<or> length session_id > MAX_SESSION_ID_BYTES then None
      else case up session_id of
        None \<Rightarrow> None
      | Some parsed \<Rightarrow>
          if us parsed \<noteq> session_id then None
          else (case find (\<lambda>r. sr_id r = parsed \<and> sr_expires_at r > now) rows of
                  None \<Rightarrow> None
                | Some r \<Rightarrow> if sr_expires_at r > now then Some r else None))"

definition session_delete ::
  "(string \<Rightarrow> u128 option) \<Rightarrow> string \<Rightarrow> session_row list \<Rightarrow> (session_error + unit) \<times> session_row list" where
  "session_delete up session_id rows =
     (if session_id = [] \<or> length session_id > MAX_SESSION_ID_BYTES then (Inl InvalidSessionId, rows)
      else case up session_id of
        None \<Rightarrow> (Inl InvalidSessionId, rows)
      | Some i \<Rightarrow> (Inr (), filter (\<lambda>r. sr_id r \<noteq> i) rows))"

definition session_delete_for_user :: "u128 \<Rightarrow> session_row list \<Rightarrow> nat \<times> session_row list" where
  "session_delete_for_user user_id rows =
     (length (filter (\<lambda>r. sr_user_id r = user_id) rows), filter (\<lambda>r. sr_user_id r \<noteq> user_id) rows)"

definition session_delete_expired :: "datetime \<Rightarrow> session_row list \<Rightarrow> nat \<times> session_row list" where
  "session_delete_expired now rows =
     (length (filter (\<lambda>r. sr_expires_at r \<le> now) rows), filter (\<lambda>r. \<not> sr_expires_at r \<le> now) rows)"

section \<open>Steps and invariant\<close>

inductive login_session_step :: "(string \<Rightarrow> u128 option) \<Rightarrow> session_row list \<Rightarrow> session_row list \<Rightarrow> bool" for up where
  step_create: "session_create i now input h rows = (res, rows') \<Longrightarrow> login_session_step up rows rows'"
| step_delete: "session_delete up sid rows = (res, rows') \<Longrightarrow> login_session_step up rows rows'"
| step_delete_user: "session_delete_for_user u rows = (n, rows') \<Longrightarrow> login_session_step up rows rows'"
| step_delete_expired: "session_delete_expired now rows = (n, rows') \<Longrightarrow> login_session_step up rows rows'"

definition sessions_of :: "u128 \<Rightarrow> session_row list \<Rightarrow> session_row list" where
  "sessions_of u rows = filter (\<lambda>r. sr_user_id r = u) rows"

definition sessions_ok :: "session_row list \<Rightarrow> bool" where
  "sessions_ok rows \<longleftrightarrow>
     distinct (map sr_id rows) \<and> distinct (map sr_token_hash rows) \<and>
     (\<forall>u. length (sessions_of u rows) \<le> MAX_ACTIVE_SESSIONS_PER_USER)"

section \<open>Lemmas\<close>

lemma distinct_map_sub: "distinct (map f xs) \<Longrightarrow> distinct (map f (filter P xs))"
  by (simp add: distinct_map_filter)

lemma sessions_of_filter: "sessions_of u (filter P rows) = filter P (sessions_of u rows)"
  by (simp add: sessions_of_def conj_commute)

lemma sessions_ok_filter: "sessions_ok rows \<Longrightarrow> sessions_ok (filter P rows)"
  unfolding sessions_ok_def sessions_of_filter
  by (meson distinct_map_sub le_trans length_filter_le)

lemma length_filter_keyed:
  assumes "distinct (map key xs)"
  shows "length (filter (\<lambda>x. key x \<in> set ks) xs) \<le> length ks"
proof -
  let ?ys = "filter (\<lambda>x. key x \<in> set ks) xs"
  have "length ?ys = card (set (map key ?ys))"
    using distinct_map_sub [OF assms, of "\<lambda>x. key x \<in> set ks"] distinct_card by fastforce
  also have "\<dots> \<le> card (set ks)" by (rule card_mono) auto
  also have "\<dots> \<le> length ks" by (rule card_length)
  finally show ?thesis .
qed

lemma session_create_ok:
  assumes "session_create i now input h rows = (Inr row, rows')"
  shows "rows' = session_survivors (cs_user_id input) now rows @ [row]"
    and "sr_id row = i" "sr_user_id row = cs_user_id input" "sr_token_hash row = h"
    and "sr_expires_at row = cs_expires_at input" "now < cs_expires_at input" "validate_token_hash h = Inr h"
    and "r \<in> set (session_survivors (cs_user_id input) now rows) \<Longrightarrow> sr_id r \<noteq> i \<and> sr_token_hash r \<noteq> h"
  using assms
  by (auto simp: session_create_def Let_def list_ex_iff validate_token_hash_def split: sum.splits if_splits)

lemma length_newest_ids: "length (newest_ids u now n rows) \<le> n"
  by (simp add: newest_ids_def)

lemma survivors_ok: "sessions_ok rows \<Longrightarrow> sessions_ok (session_survivors u now rows)"
  by (simp add: session_survivors_def Let_def sessions_ok_filter)

lemma survivors_bound:
  assumes "sessions_ok rows"
  shows "length (sessions_of u (session_survivors u now rows)) \<le> 31"
proof -
  let ?live = "filter (\<lambda>r. \<not> sr_expires_at r \<le> now) rows"
  let ?ids = "newest_ids u now 31 ?live"
  have "sessions_of u (session_survivors u now rows) = filter (\<lambda>r. sr_id r \<in> set ?ids) (sessions_of u ?live)"
    unfolding session_survivors_def Let_def sessions_of_def filter_filter limit_simps
    by (intro filter_cong) auto
  also have "length \<dots> \<le> length ?ids"
    using sessions_ok_filter [OF assms]
    by (intro length_filter_keyed) (auto simp: sessions_ok_def sessions_of_def intro: distinct_map_sub)
  also have "\<dots> \<le> 31" by (rule length_newest_ids)
  finally show ?thesis .
qed

lemma session_create_inv:
  assumes "sessions_ok rows" "session_create i now input h rows = (res, rows')"
  shows "sessions_ok rows'"
proof (cases res)
  case (Inl e)
  with assms show ?thesis by (auto simp: session_create_def Let_def split: sum.splits if_splits)
next
  case (Inr row)
  with assms(2) have "session_create i now input h rows = (Inr row, rows')" by simp
  note created = session_create_ok [OF this]
  let ?kept = "session_survivors (cs_user_id input) now rows"
  have ok: "sessions_ok ?kept" by (rule survivors_ok) (rule assms(1))
  have "length (sessions_of u (?kept @ [row])) \<le> 32" for u
    using ok survivors_bound [OF assms(1), of "cs_user_id input" now] created(3)
    by (cases "u = cs_user_id input") (auto simp: sessions_of_def sessions_ok_def limit_simps)
  moreover have "\<forall>r \<in> set ?kept. sr_id r \<noteq> sr_id row \<and> sr_token_hash r \<noteq> sr_token_hash row"
    using created(8) created(2,4) by blast
  then have "distinct (map sr_id (?kept @ [row]))" "distinct (map sr_token_hash (?kept @ [row]))"
    using ok by (auto simp: sessions_ok_def)
  ultimately show ?thesis unfolding created(1) sessions_ok_def limit_simps by blast
qed

lemma login_session_step_inv: "login_session_step up rows rows' \<Longrightarrow> sessions_ok rows \<Longrightarrow> sessions_ok rows'"
proof (induction rule: login_session_step.induct)
  case (step_create i now input h rows res rows')
  then show ?case using session_create_inv by blast
qed (auto simp: session_delete_def session_delete_for_user_def session_delete_expired_def
       intro: sessions_ok_filter split: option.splits if_splits)

lemma login_session_steps_inv: "(login_session_step up)\<^sup>*\<^sup>* rows rows' \<Longrightarrow> sessions_ok rows \<Longrightarrow> sessions_ok rows'"
  by (induction rule: rtranclp_induct) (auto intro: login_session_step_inv)

lemma find_created:
  assumes "session_create i now input h rows = (Inr row, rows')"
  shows "session_find_by_token_hash t h rows' = (if t < sr_expires_at row then Some row else None)"
proof -
  note created = session_create_ok [OF assms]
  have "find (\<lambda>r. sr_token_hash r = h \<and> sr_expires_at r > t) (session_survivors (cs_user_id input) now rows) = None"
    using created(8) by (auto simp: find_None_iff)
  with created show ?thesis by (simp add: session_find_by_token_hash_def find_append_None)
qed

text \<open>Membership in the first entries of a descending list, by counting the larger keys.\<close>

lemma in_take_descending:
  fixes key :: "'a \<Rightarrow> 'k::linorder"
  assumes "x \<in> set xs" "distinct (map key xs)" "length (filter (\<lambda>y. key x < key y) xs) < n"
  shows "x \<in> set (take n (rev (sort_key key xs)))"
proof -
  let ?ys = "rev (sort_key key xs)"
  obtain as bs where split: "?ys = as @ x # bs"
    using assms(1) by (metis set_rev set_sort split_list)
  have desc: "sorted_wrt (\<lambda>a b. key b \<le> key a) ?ys"
    using sorted_sort_key [of key xs] by (simp add: sorted_wrt_rev sorted_map)
  have dist: "distinct (map key ?ys)"
    using assms(2) by (metis distinct_map distinct_rev distinct_sort set_rev set_sort)
  have "key x < key a" if "a \<in> set as" for a
    using desc dist that unfolding split by (auto simp: sorted_wrt_append less_le)
  then have "filter (\<lambda>y. key x < key y) as = as" by simp
  then have "length as \<le> length (filter (\<lambda>y. key x < key y) ?ys)" unfolding split by simp
  also have "\<dots> = length (filter (\<lambda>y. key x < key y) xs)"
    by (simp only: rev_filter [symmetric] filter_sort length_rev length_sort)
  finally have "length as < n" using assms(3) by linarith
  then show ?thesis unfolding split by (cases "n - length as") auto
qed

section \<open>Properties\<close>

text \<open>
  (C38) No user collects sessions without bound: whatever sequence of logins, logouts and clean-ups
  the table has seen, it holds at most 32 sessions of any user, and no token hash twice.
\<close>

theorem sessions_per_user_bounded:
  assumes "(login_session_step up)\<^sup>*\<^sup>* [] rows"
  shows "length (sessions_of u rows) \<le> 32 \<and> distinct (map sr_token_hash rows)"
proof -
  have "sessions_ok []" by (simp add: sessions_ok_def sessions_of_def)
  from login_session_steps_inv [OF assms this] show ?thesis by (simp add: sessions_ok_def limit_simps)
qed

text \<open>
  A session works from its creation to its expiry: it is found by its token hash exactly while
  the clock is before the expiry; after it is deleted, or all sessions of its user are, it is
  found no more. Creating it spares every unexpired session of another user, and those of the
  same user with fewer than 31 more recent ones.
\<close>

theorem session_lifetime:
  assumes "sessions_ok rows" "session_create i now input h rows = (Inr row, rows')"
  shows "session_find_by_token_hash t h rows' = (if t < cs_expires_at input then Some row else None) \<and>
    session_find_by_token_hash t h (snd (session_delete_for_user (cs_user_id input) rows')) = None \<and>
    (up sid = Some i \<longrightarrow> sid \<noteq> [] \<longrightarrow> length sid \<le> 64 \<longrightarrow>
       session_find_by_token_hash t h (snd (session_delete up sid rows')) = None) \<and>
    (\<forall>r \<in> set rows. now < sr_expires_at r \<longrightarrow>
       sr_user_id r \<noteq> cs_user_id input \<or>
       length (filter (\<lambda>q. now < sr_expires_at q \<and>
         (sr_created_at r, sr_id r) < (sr_created_at q, sr_id q)) (sessions_of (cs_user_id input) rows)) < 31 \<longrightarrow>
       r \<in> set rows')"
proof (intro conjI impI ballI)
  note created = session_create_ok [OF assms(2)]
  let ?kept = "session_survivors (cs_user_id input) now rows"
  have other: "\<forall>r \<in> set ?kept. sr_token_hash r \<noteq> h" using created(8) by blast
  show "session_find_by_token_hash t h rows' = (if t < cs_expires_at input then Some row else None)"
    using find_created [OF assms(2)] created(5) by simp
  have gone: "session_find_by_token_hash t h (filter P ?kept) = None" for P
  proof -
    have "find (\<lambda>r. sr_token_hash r = h \<and> sr_expires_at r > t) (filter P ?kept) = None"
      using other by (auto simp: find_None_iff)
    then show ?thesis unfolding session_find_by_token_hash_def created(7) by simp
  qed
  show "session_find_by_token_hash t h (snd (session_delete_for_user (cs_user_id input) rows')) = None"
    using gone created(1,3) by (simp add: session_delete_for_user_def)
  show "session_find_by_token_hash t h (snd (session_delete up sid rows')) = None"
    if "up sid = Some i" "sid \<noteq> []" "length sid \<le> 64"
    using gone created(1,2) that by (simp add: session_delete_def limit_simps)
  fix r
  assume r: "r \<in> set rows" "now < sr_expires_at r"
    and keep: "sr_user_id r \<noteq> cs_user_id input \<or>
       length (filter (\<lambda>q. now < sr_expires_at q \<and>
         (sr_created_at r, sr_id r) < (sr_created_at q, sr_id q)) (sessions_of (cs_user_id input) rows)) < 31"
  let ?mine = "filter (\<lambda>q. sr_user_id q = cs_user_id input \<and> now < sr_expires_at q)
      (filter (\<lambda>q. \<not> sr_expires_at q \<le> now) rows)"
  have "sr_id r \<in> set (newest_ids (cs_user_id input) now 31 (filter (\<lambda>q. \<not> sr_expires_at q \<le> now) rows))"
    if mine: "sr_user_id r = cs_user_id input"
  proof -
    have "distinct (map (\<lambda>q. (sr_created_at q, sr_id q)) ?mine)"
      using assms(1) by (auto simp: sessions_ok_def distinct_map inj_on_def)
    moreover have "filter (\<lambda>q. (sr_created_at r, sr_id r) < (sr_created_at q, sr_id q)) ?mine =
        filter (\<lambda>q. now < sr_expires_at q \<and> (sr_created_at r, sr_id r) < (sr_created_at q, sr_id q))
          (sessions_of (cs_user_id input) rows)"
      unfolding sessions_of_def filter_filter by (intro filter_cong) auto
    ultimately have "r \<in> set (take 31 (rev (sort_key (\<lambda>q. (sr_created_at q, sr_id q)) ?mine)))"
      using keep mine r by (intro in_take_descending) auto
    then show ?thesis unfolding newest_ids_def by simp
  qed
  with r have "r \<in> set ?kept" by (auto simp: session_survivors_def Let_def limit_simps)
  with created(1) show "r \<in> set rows'" by simp
qed

definition demo_session_input :: create_session_input where
  "demo_session_input = \<lparr>cs_user_id = 1, cs_ip = None, cs_user_agent = None, cs_expires_at = 10\<rparr>"

lemma demo_session_created:
  "\<exists>row rows. session_create 5 0 demo_session_input ''h'' [] = (Inr row, rows)"
proof -
  have "validate_token_hash ''h'' = Inr ''h''" by code_simp
  then show ?thesis
    by (simp add: session_create_def demo_session_input_def Let_def session_survivors_def)
qed

theorem sessions_per_user_bounded_witness:
  "length (sessions_of 1 (snd (session_create 5 0 demo_session_input ''h'' []))) \<le> 32"
  by (rule sessions_per_user_bounded [THEN conjunct1, of "\<lambda>_. None"])
     (rule r_into_rtranclp, rule step_create, rule prod.collapse [symmetric])

theorem session_lifetime_witness:
  "\<exists>row rows. session_create 5 0 demo_session_input ''h'' [] = (Inr row, rows) \<and>
     session_find_by_token_hash 9 ''h'' rows = Some row \<and> session_find_by_token_hash 10 ''h'' rows = None"
proof -
  obtain row rows where run: "session_create 5 0 demo_session_input ''h'' [] = (Inr row, rows)"
    using demo_session_created by blast
  have "sessions_ok []" by (simp add: sessions_ok_def sessions_of_def)
  from session_lifetime [OF this run, of 9] session_lifetime [OF this run, of 10] run show ?thesis
    by (auto simp: demo_session_input_def)
qed

end
