(* ===== verification/Secret_Box.thy ===== *)
theory Secret_Box
  imports Auth_Tokens
begin

text \<open>
  Encryption of the secrets kept in the database (\<open>secrets.rs\<close>): the checks on the master key,
  the text form \<open>xlsec:v1:<nonce>:<ciphertext>\<close>, and the migration of rows that still hold plain
  text (\<open>migrate_totp_secrets\<close>, \<open>migrate_ddns_secrets\<close>).

  Parameters: \<open>hkdf\<close> derives the key (ring's HKDF-SHA256 with the constant salt and info, \<open>None\<close>
  when it refuses), \<open>seal\<close> and \<open>open\<close> are AES-256-GCM under the constant associated data
  (\<open>None\<close> on failure), \<open>hex\<close> and \<open>unhex\<close> the hex crate, \<open>draw\<close> the random nonce, and \<open>is_text\<close> the
  check of \<open>String::from_utf8\<close>. The process-wide key is \<open>None\<close> until it is initialised.
\<close>

section \<open>Constants and errors\<close>

definition PREFIX :: string where "PREFIX = ''xlsec:v1:''"
definition NONCE_LEN :: nat where [limit_simps]: "NONCE_LEN = 12"
definition TAG_LEN :: nat where [limit_simps]: "TAG_LEN = 16"
definition NONCE_HEX_LEN :: nat where [limit_simps]: "NONCE_HEX_LEN = NONCE_LEN * 2"
definition MIN_CIPHERTEXT_HEX_LEN :: nat where [limit_simps]: "MIN_CIPHERTEXT_HEX_LEN = TAG_LEN * 2"
definition MAX_SECRET_PLAINTEXT_BYTES :: nat where [limit_simps]: "MAX_SECRET_PLAINTEXT_BYTES = 16 * 1024"
definition MAX_CIPHERTEXT_HEX_LEN :: nat where
  [limit_simps]: "MAX_CIPHERTEXT_HEX_LEN = (MAX_SECRET_PLAINTEXT_BYTES + TAG_LEN) * 2"
definition MAX_ENCRYPTED_SECRET_BYTES :: nat where
  [limit_simps]: "MAX_ENCRYPTED_SECRET_BYTES = length PREFIX + NONCE_HEX_LEN + 1 + MAX_CIPHERTEXT_HEX_LEN"
definition MIN_MASTER_KEY_BYTES :: nat where [limit_simps]: "MIN_MASTER_KEY_BYTES = 32"
definition MIN_MASTER_KEY_DISTINCT_BYTES :: nat where [limit_simps]: "MIN_MASTER_KEY_DISTINCT_BYTES = 4"

datatype secret_error =
    KeyTooShort | KeyInsecureDefault | KeyLowEntropy | KeyDerivationFailed | NotInitialized
  | SecretTooLarge | EncryptFailed | EncryptedTooLarge | NotEncrypted | PayloadMalformed
  | NonceLength | CiphertextLength | NonceNotHex | CiphertextNotHex | DecryptFailed | NotUtf8

type_synonym crypto_key = "u8 list"
type_synonym seal = "crypto_key \<Rightarrow> u8 list \<Rightarrow> u8 list \<Rightarrow> u8 list option"

section \<open>The key\<close>

definition secret_crypto_new :: "(u8 list \<Rightarrow> crypto_key option) \<Rightarrow> string \<Rightarrow> secret_error + crypto_key" where
  "secret_crypto_new hkdf master_key =
     (let k = trim master_key
      in if length k < MIN_MASTER_KEY_BYTES then Inl KeyTooShort
         else if k \<in> set weak_defaults then Inl KeyInsecureDefault
         else if length (remdups (as_bytes k)) < MIN_MASTER_KEY_DISTINCT_BYTES then Inl KeyLowEntropy
         else ok_or (hkdf (as_bytes k)) KeyDerivationFailed)"

text \<open>\<open>init_secret_crypto\<close>: the cell is set once; a later call leaves it as it is.\<close>

definition init_secret_crypto ::
  "(u8 list \<Rightarrow> crypto_key option) \<Rightarrow> string \<Rightarrow> crypto_key option \<Rightarrow> (secret_error + unit) \<times> crypto_key option" where
  "init_secret_crypto hkdf master_key cell =
     (case secret_crypto_new hkdf master_key of
        Inl e \<Rightarrow> (Inl e, cell)
      | Inr k \<Rightarrow> (Inr (), (case cell of None \<Rightarrow> Some k | Some c \<Rightarrow> Some c)))"

definition active_crypto :: "crypto_key option \<Rightarrow> secret_error + crypto_key" where
  "active_crypto cell = ok_or cell NotInitialized"

section \<open>Encryption\<close>

definition crypto_encrypt :: "seal \<Rightarrow> (u8 list \<Rightarrow> string) \<Rightarrow> u8 list \<Rightarrow> crypto_key \<Rightarrow> string \<Rightarrow> secret_error + string" where
  "crypto_encrypt seal hex draw key plaintext =
     (if length plaintext > MAX_SECRET_PLAINTEXT_BYTES then Inl SecretTooLarge
      else case seal key draw (as_bytes plaintext) of
        None \<Rightarrow> Inl EncryptFailed
      | Some sealed \<Rightarrow> Inr (PREFIX @ hex draw @ '':'' @ hex sealed))"

definition as_text :: "u8 list \<Rightarrow> string" where
  "as_text bytes = map (\<lambda>b. char_of (unat b)) bytes"

definition crypto_decrypt ::
  "seal \<Rightarrow> (string \<Rightarrow> u8 list option) \<Rightarrow> (u8 list \<Rightarrow> bool) \<Rightarrow> crypto_key \<Rightarrow> string \<Rightarrow> secret_error + string" where
  "crypto_decrypt opn unhex is_text key encrypted =
     (if length encrypted > MAX_ENCRYPTED_SECRET_BYTES then Inl EncryptedTooLarge
      else case strip_prefix PREFIX encrypted of
        None \<Rightarrow> Inl NotEncrypted
      | Some payload \<Rightarrow>
          (case split_once CHR '':'' payload of
             None \<Rightarrow> Inl PayloadMalformed
           | Some (nonce_hex, ciphertext_hex) \<Rightarrow>
               if length nonce_hex \<noteq> NONCE_HEX_LEN then Inl NonceLength
               else if length ciphertext_hex < MIN_CIPHERTEXT_HEX_LEN
                 \<or> length ciphertext_hex > MAX_CIPHERTEXT_HEX_LEN
                 \<or> length ciphertext_hex mod 2 \<noteq> 0 then Inl CiphertextLength
               else
                 and_then (ok_or (unhex nonce_hex) NonceNotHex) (\<lambda>nonce.
                 and_then (ok_or (unhex ciphertext_hex) CiphertextNotHex) (\<lambda>sealed.
                 and_then (ok_or (opn key nonce sealed) DecryptFailed) (\<lambda>plain.
                   if is_text plain then Inr (as_text plain) else Inl NotUtf8)))))"

definition is_encrypted_secret :: "string \<Rightarrow> bool" where
  "is_encrypted_secret v = starts_with PREFIX v"

definition encrypt_secret ::
  "seal \<Rightarrow> (u8 list \<Rightarrow> string) \<Rightarrow> u8 list \<Rightarrow> crypto_key option \<Rightarrow> string \<Rightarrow> secret_error + string" where
  "encrypt_secret seal hex draw cell v = and_then (active_crypto cell) (\<lambda>key. crypto_encrypt seal hex draw key v)"

definition decrypt_secret_if_needed ::
  "seal \<Rightarrow> (string \<Rightarrow> u8 list option) \<Rightarrow> (u8 list \<Rightarrow> bool) \<Rightarrow> crypto_key option \<Rightarrow> string \<Rightarrow> secret_error + string" where
  "decrypt_secret_if_needed opn unhex is_text cell v =
     (if is_encrypted_secret v
      then and_then (active_crypto cell) (\<lambda>key. crypto_decrypt opn unhex is_text key v)
      else if length v > MAX_SECRET_PLAINTEXT_BYTES then Inl SecretTooLarge else Inr v)"

definition encrypt_optional_secret ::
  "seal \<Rightarrow> (u8 list \<Rightarrow> string) \<Rightarrow> u8 list \<Rightarrow> crypto_key option \<Rightarrow> string option \<Rightarrow> secret_error + string option" where
  "encrypt_optional_secret seal hex draw cell v =
     (case v of
        None \<Rightarrow> Inr None
      | Some s \<Rightarrow> if trim s = [] \<or> is_encrypted_secret s then Inr (Some s)
                  else and_then (encrypt_secret seal hex draw cell s) (\<lambda>e. Inr (Some e)))"

definition decrypt_optional_secret ::
  "seal \<Rightarrow> (string \<Rightarrow> u8 list option) \<Rightarrow> (u8 list \<Rightarrow> bool) \<Rightarrow> crypto_key option \<Rightarrow> string option
    \<Rightarrow> secret_error + string option" where
  "decrypt_optional_secret opn unhex is_text cell v =
     (case v of
        None \<Rightarrow> Inr None
      | Some s \<Rightarrow> and_then (decrypt_secret_if_needed opn unhex is_text cell s) (\<lambda>d. Inr (Some d)))"

section \<open>Migration of plain-text rows\<close>

text \<open>
  The queries select rows whose secret is not blank; SQL's \<open>TRIM\<close> removes spaces only. The rows
  are updated one statement at a time, so a failure keeps the updates made before it. The i-th
  row draws its nonces from \<open>draws i\<close>.
\<close>

definition sql_blank :: "string \<Rightarrow> bool" where
  "sql_blank s = list_all (\<lambda>c. c = CHR '' '') s"

type_synonym totp_secret_row = "u128 \<times> string option"

fun migrate_totp_secrets ::
  "seal \<Rightarrow> (u8 list \<Rightarrow> string) \<Rightarrow> (nat \<Rightarrow> u8 list) \<Rightarrow> crypto_key option \<Rightarrow> totp_secret_row list
    \<Rightarrow> (secret_error + nat) \<times> totp_secret_row list" where
  "migrate_totp_secrets seal hex draws cell [] = (Inr 0, [])"
| "migrate_totp_secrets seal hex draws cell ((i, secret) # rows) =
     (let rest = migrate_totp_secrets seal hex (\<lambda>n. draws (Suc n)) cell rows;
          skip = (fst rest, (i, secret) # snd rest)
      in case secret of
           None \<Rightarrow> skip
         | Some s \<Rightarrow>
             if sql_blank s \<or> is_encrypted_secret s then skip
             else (case encrypt_secret seal hex (draws 0) cell s of
                     Inl e \<Rightarrow> (Inl e, (i, secret) # rows)
                   | Inr c \<Rightarrow> (and_then (fst rest) (\<lambda>n. Inr (Suc n)), (i, Some c) # snd rest)))"

record ddns_secret_columns =
  dc_api_token :: "string option"
  dc_api_key :: "string option"
  dc_api_secret :: "string option"
  dc_webhook_url :: "string option"

definition ddns_encrypted ::
  "seal \<Rightarrow> (u8 list \<Rightarrow> string) \<Rightarrow> (nat \<Rightarrow> u8 list) \<Rightarrow> crypto_key option \<Rightarrow> ddns_secret_columns
    \<Rightarrow> secret_error + ddns_secret_columns" where
  "ddns_encrypted seal hex draw cell c =
     and_then (encrypt_optional_secret seal hex (draw 0) cell (dc_api_token c)) (\<lambda>t.
     and_then (encrypt_optional_secret seal hex (draw 1) cell (dc_api_key c)) (\<lambda>k.
     and_then (encrypt_optional_secret seal hex (draw 2) cell (dc_api_secret c)) (\<lambda>s.
     and_then (encrypt_optional_secret seal hex (draw 3) cell (dc_webhook_url c)) (\<lambda>w.
       Inr \<lparr>dc_api_token = t, dc_api_key = k, dc_api_secret = s, dc_webhook_url = w\<rparr>))))"

fun migrate_ddns_secrets ::
  "seal \<Rightarrow> (u8 list \<Rightarrow> string) \<Rightarrow> (nat \<Rightarrow> nat \<Rightarrow> u8 list) \<Rightarrow> crypto_key option \<Rightarrow> (u128 \<times> ddns_secret_columns) list
    \<Rightarrow> (secret_error + nat) \<times> (u128 \<times> ddns_secret_columns) list" where
  "migrate_ddns_secrets seal hex draws cell [] = (Inr 0, [])"
| "migrate_ddns_secrets seal hex draws cell ((i, current) # rows) =
     (case ddns_encrypted seal hex (draws 0) cell current of
        Inl e \<Rightarrow> (Inl e, (i, current) # rows)
      | Inr encrypted \<Rightarrow>
          (let rest = migrate_ddns_secrets seal hex (\<lambda>n. draws (Suc n)) cell rows
           in if encrypted \<noteq> current
              then (and_then (fst rest) (\<lambda>n. Inr (Suc n)), (i, encrypted) # snd rest)
              else (fst rest, (i, current) # snd rest)))"

section \<open>What the crates promise\<close>

definition aead_law :: "seal \<Rightarrow> seal \<Rightarrow> bool" where
  "aead_law seal opn \<longleftrightarrow>
     (\<forall>k n p c. seal k n p = Some c \<longrightarrow> opn k n c = Some p \<and> length c = length p + 16)"

definition hex_law :: "(u8 list \<Rightarrow> string) \<Rightarrow> (string \<Rightarrow> u8 list option) \<Rightarrow> bool" where
  "hex_law hex unhex \<longleftrightarrow>
     (\<forall>b. unhex (hex b) = Some b \<and> length (hex b) = 2 * length b \<and> list_all is_ascii_hexdigit (hex b))"

text \<open>A column holds text, so its bytes are valid UTF-8.\<close>

definition text_column :: "(u8 list \<Rightarrow> bool) \<Rightarrow> string option \<Rightarrow> bool" where
  "text_column is_text v \<longleftrightarrow> (\<forall>s. v = Some s \<longrightarrow> is_text (as_bytes s))"

section \<open>Lemmas\<close>

lemma as_text_bytes [simp]: "as_text (as_bytes s) = s"
  by (induction s) (simp_all add: as_text_def as_bytes_def unat_of_nat take_bit_eq_mod)

lemma length_as_bytes [simp]: "length (as_bytes s) = length s"
  by (simp add: as_bytes_def)

lemma hex_no_colon: "hex_law hex unhex \<Longrightarrow> CHR '':'' \<notin> set (hex b)"
proof
  assume "hex_law hex unhex" "CHR '':'' \<in> set (hex b)"
  then have "is_ascii_hexdigit CHR '':''" by (auto simp: hex_law_def list_all_iff)
  moreover have "\<not> is_ascii_hexdigit CHR '':''" by code_simp
  ultimately show False by blast
qed

lemma split_once_at: "d \<notin> set a \<Longrightarrow> split_once d (a @ d # b) = Some (a, b)"
  by (induction a) (auto simp: split_once_def)

lemma PREFIX_strip [simp]: "strip_prefix PREFIX (PREFIX @ s) = Some s" "is_encrypted_secret (PREFIX @ s)" "length PREFIX = 9"
  by (simp_all add: strip_prefix_def starts_with_def is_encrypted_secret_def PREFIX_def)

lemma crypto_roundtrip:
  assumes "aead_law seal opn" "hex_law hex unhex" "length draw = 12" "is_text (as_bytes s)"
    and "crypto_encrypt seal hex draw key s = Inr e"
  shows "crypto_decrypt opn unhex is_text key e = Inr s \<and> is_encrypted_secret e \<and> length e \<le> MAX_ENCRYPTED_SECRET_BYTES"
proof -
  from assms(5) obtain c where c: "length s \<le> 16384" "seal key draw (as_bytes s) = Some c"
      "e = PREFIX @ hex draw @ '':'' @ hex c"
    by (auto simp: crypto_encrypt_def limit_simps split: if_splits option.splits)
  from c(2) assms(1) have opened: "opn key draw c = Some (as_bytes s)" "length c = length s + 16"
    by (auto simp: aead_law_def)
  have len: "length (hex b) = 2 * length b" "unhex (hex b) = Some b" for b
    using assms(2) by (auto simp: hex_law_def)
  have "split_once CHR '':'' (hex draw @ CHR '':'' # hex c) = Some (hex draw, hex c)"
    by (intro split_once_at hex_no_colon [OF assms(2)])
  with c opened len assms(3,4) show ?thesis
    by (simp add: crypto_decrypt_def limit_simps ok_or_def)
qed

lemma encrypt_secret_roundtrip:
  assumes "aead_law seal opn" "hex_law hex unhex" "length draw = 12" "is_text (as_bytes s)"
    and "encrypt_secret seal hex draw cell s = Inr e"
  shows "decrypt_secret_if_needed opn unhex is_text cell e = Inr s \<and> is_encrypted_secret e \<and>
    length e \<le> MAX_ENCRYPTED_SECRET_BYTES \<and> length s \<le> MAX_SECRET_PLAINTEXT_BYTES"
proof -
  from assms(5) obtain key where key: "cell = Some key" "crypto_encrypt seal hex draw key s = Inr e"
    by (auto simp: encrypt_secret_def active_crypto_def result_simps)
  moreover from key(2) have "length s \<le> MAX_SECRET_PLAINTEXT_BYTES"
    by (auto simp: crypto_encrypt_def split: if_splits)
  ultimately show ?thesis
    using crypto_roundtrip [where is_text = is_text, OF assms(1-4) key(2)]
    by (simp add: decrypt_secret_if_needed_def active_crypto_def ok_or_def)
qed

lemma encrypt_optional_roundtrip:
  assumes "aead_law seal opn" "hex_law hex unhex" "length draw = 12" "text_column is_text v"
    and "encrypt_optional_secret seal hex draw cell v = Inr e"
  shows "decrypt_optional_secret opn unhex is_text cell e = decrypt_optional_secret opn unhex is_text cell v"
proof (cases "\<exists>s c. v = Some s \<and> trim s \<noteq> [] \<and> \<not> is_encrypted_secret s \<and> e = Some c \<and>
    encrypt_secret seal hex draw cell s = Inr c")
  case True
  then obtain s c where sc: "v = Some s" "\<not> is_encrypted_secret s" "e = Some c"
      "encrypt_secret seal hex draw cell s = Inr c" by blast
  moreover from sc(1) assms(4) have "is_text (as_bytes s)" by (simp add: text_column_def)
  note encrypt_secret_roundtrip [where is_text = is_text, OF assms(1-3) this sc(4)]
  ultimately show ?thesis
    by (simp add: decrypt_optional_secret_def decrypt_secret_if_needed_def [of _ _ _ _ s])
next
  case False
  with assms(5) have "e = v"
    by (auto simp: encrypt_optional_secret_def result_simps split: option.splits if_splits)
  then show ?thesis by simp
qed

lemma encrypt_optional_done:
  "encrypt_optional_secret seal hex draw cell v = Inr e \<Longrightarrow> aead_law seal opn \<Longrightarrow> hex_law hex unhex \<Longrightarrow>
   length draw = 12 \<Longrightarrow> text_column is_text v \<Longrightarrow> encrypt_optional_secret seal hex draw' cell e = Inr e"
proof (cases "\<exists>s c. v = Some s \<and> e = Some c \<and> encrypt_secret seal hex draw cell s = Inr c")
  case True
  moreover assume laws: "aead_law seal opn" "hex_law hex unhex" "length draw = 12" "text_column is_text v"
  ultimately show ?thesis
    using encrypt_secret_roundtrip [where is_text = is_text, OF laws(1-3)]
    by (auto simp: encrypt_optional_secret_def text_column_def)
next
  case False
  moreover assume "encrypt_optional_secret seal hex draw cell v = Inr e"
  ultimately show ?thesis
    by (auto simp: encrypt_optional_secret_def result_simps split: option.splits if_splits)
qed

lemma ddns_encrypted_ok:
  assumes "aead_law seal opn" "hex_law hex unhex" "\<forall>n. length (draw n) = 12"
    and "ddns_encrypted seal hex draw cell c = Inr e"
    and "f \<in> {dc_api_token, dc_api_key, dc_api_secret, dc_webhook_url}" "text_column is_text (f c)"
  shows "decrypt_optional_secret opn unhex is_text cell (f e) = decrypt_optional_secret opn unhex is_text cell (f c)"
proof -
  from assms(4,5) obtain n where "encrypt_optional_secret seal hex (draw n) cell (f c) = Inr (f e)"
    by (auto simp: ddns_encrypted_def result_simps)
  with assms show ?thesis by (intro encrypt_optional_roundtrip) auto
qed

section \<open>Properties\<close>

text \<open>
  (C13) Encryption loses nothing: what \<open>encrypt_secret\<close> returns is marked as encrypted, stays within
  the size the reader accepts, and is read back as the text it was made of.
\<close>

theorem secret_roundtrip:
  assumes "aead_law seal opn" "hex_law hex unhex" "length draw = 12" "is_text (as_bytes s)"
    and "encrypt_secret seal hex draw cell s = Inr e"
  shows "decrypt_secret_if_needed opn unhex is_text cell e = Inr s \<and> is_encrypted_secret e \<and>
    length e \<le> MAX_ENCRYPTED_SECRET_BYTES"
  using encrypt_secret_roundtrip [where is_text = is_text, OF assms] by blast

definition same_secret ::
  "seal \<Rightarrow> (string \<Rightarrow> u8 list option) \<Rightarrow> (u8 list \<Rightarrow> bool) \<Rightarrow> crypto_key option
    \<Rightarrow> totp_secret_row \<Rightarrow> totp_secret_row \<Rightarrow> bool" where
  "same_secret opn unhex is_text cell r q \<longleftrightarrow> fst q = fst r \<and>
     decrypt_optional_secret opn unhex is_text cell (snd q) = decrypt_optional_secret opn unhex is_text cell (snd r)"

definition secret_migrated :: "totp_secret_row \<Rightarrow> bool" where
  "secret_migrated r \<longleftrightarrow> (\<forall>s. snd r = Some s \<longrightarrow> sql_blank s \<or> is_encrypted_secret s)"

lemma same_secret_refl: "list_all2 (same_secret opn unhex is_text cell) rows rows"
  by (simp add: same_secret_def list_all2_same)

lemma migrate_done: "list_all secret_migrated rows \<Longrightarrow> migrate_totp_secrets seal hex draws cell rows = (Inr 0, rows)"
proof (induction rows arbitrary: draws)
  case (Cons r rows)
  then show ?case by (cases r; cases "snd r") (auto simp: secret_migrated_def Let_def)
qed simp

lemma migrate_totp_run:
  assumes "aead_law seal opn" "hex_law hex unhex" "\<forall>n. length (draws n) = 12"
    and "\<forall>r \<in> set rows. text_column is_text (snd r)"
    and "migrate_totp_secrets seal hex draws cell rows = (res, rows')"
  shows "list_all2 (same_secret opn unhex is_text cell) rows rows' \<and> (is_ok res \<longrightarrow> list_all secret_migrated rows')"
  using assms(3-)
proof (induction rows arbitrary: draws res rows')
  case (Cons row rows)
  obtain i secret where row: "row = (i, secret)" by fastforce
  obtain rest rows2 where tail: "migrate_totp_secrets seal hex (\<lambda>n. draws (Suc n)) cell rows = (rest, rows2)"
    by fastforce
  have IH: "list_all2 (same_secret opn unhex is_text cell) rows rows2 \<and> (is_ok rest \<longrightarrow> list_all secret_migrated rows2)"
    using Cons.prems(1,2) tail by (intro Cons.IH [of "\<lambda>n. draws (Suc n)"]) auto
  show ?case
  proof (cases "secret_migrated row")
    case True
    with Cons.prems(3) tail row have "res = rest" "rows' = row # rows2"
      by (auto simp: secret_migrated_def Let_def split: option.splits)
    moreover have "same_secret opn unhex is_text cell row row" by (simp add: same_secret_def)
    ultimately show ?thesis using IH True by simp
  next
    case False
    with row obtain s where s: "secret = Some s" "\<not> sql_blank s" "\<not> is_encrypted_secret s"
      by (auto simp: secret_migrated_def)
    show ?thesis
    proof (cases "encrypt_secret seal hex (draws 0) cell s")
      case (Inl e)
      with Cons.prems(3) tail row s have "res = Inl e" "rows' = row # rows" by (auto simp: Let_def)
      then show ?thesis using same_secret_refl by (metis is_ok_simps(2))
    next
      case (Inr c)
      with Cons.prems(3) tail row s have "res = and_then rest (\<lambda>n. Inr (Suc n))" "rows' = (i, Some c) # rows2"
        by (auto simp: Let_def)
      moreover have "is_text (as_bytes s)" using Cons.prems(2) row s(1) by (simp add: text_column_def)
      note encrypt_secret_roundtrip [where is_text = is_text, OF assms(1,2) Cons.prems(1) [rule_format] this Inr]
      then have "same_secret opn unhex is_text cell row (i, Some c)" "secret_migrated (i, Some c)"
        using s row by (simp_all add: same_secret_def secret_migrated_def decrypt_optional_secret_def
              decrypt_secret_if_needed_def [of _ _ _ _ s])
      ultimately show ?thesis using IH by (auto simp: result_simps)
    qed
  qed
qed simp

text \<open>
  The migration of plain-text TOTP secrets changes no secret: whether it succeeds or stops at a
  failure, every row keeps its id and reads as before. When it succeeds every secret that is not
  blank is encrypted, and running it again changes nothing.
\<close>

theorem migration_preserves_secrets:
  assumes "aead_law seal opn" "hex_law hex unhex" "\<forall>n. length (draws n) = 12"
    and "\<forall>r \<in> set rows. text_column is_text (snd r)"
    and "migrate_totp_secrets seal hex draws cell rows = (res, rows')"
  shows "list_all2 (same_secret opn unhex is_text cell) rows rows' \<and>
    (is_ok res \<longrightarrow> list_all secret_migrated rows' \<and>
       migrate_totp_secrets seal hex draws' cell rows' = (Inr 0, rows'))"
  using migrate_totp_run [where is_text = is_text, OF assms] migrate_done by blast

definition same_ddns_secrets ::
  "seal \<Rightarrow> (string \<Rightarrow> u8 list option) \<Rightarrow> (u8 list \<Rightarrow> bool) \<Rightarrow> crypto_key option
    \<Rightarrow> u128 \<times> ddns_secret_columns \<Rightarrow> u128 \<times> ddns_secret_columns \<Rightarrow> bool" where
  "same_ddns_secrets opn unhex is_text cell r q \<longleftrightarrow> fst q = fst r \<and>
     (\<forall>f \<in> {dc_api_token, dc_api_key, dc_api_secret, dc_webhook_url}.
        text_column is_text (f (snd r)) \<longrightarrow>
        decrypt_optional_secret opn unhex is_text cell (f (snd q)) =
        decrypt_optional_secret opn unhex is_text cell (f (snd r)))"

text \<open>
  The same for the credentials of the dynamic DNS providers: whatever the outcome, each row keeps
  its id and each of its four columns reads as before.
\<close>

theorem ddns_migration_preserves_secrets:
  assumes "aead_law seal opn" "hex_law hex unhex" "\<forall>i n. length (draws i n) = 12"
    and "migrate_ddns_secrets seal hex draws cell rows = (res, rows')"
  shows "list_all2 (same_ddns_secrets opn unhex is_text cell) rows rows'"
  using assms(3-)
proof (induction rows arbitrary: draws res rows')
  case (Cons row rows)
  obtain i current where row: "row = (i, current)" by fastforce
  have refl: "list_all2 (same_ddns_secrets opn unhex is_text cell) rs rs" for rs
    by (auto simp: same_ddns_secrets_def list_all2_same)
  show ?case
  proof (cases "ddns_encrypted seal hex (draws 0) cell current")
    case (Inl e)
    with Cons.prems(2) row refl [of "row # rows"] show ?thesis by simp
  next
    case (Inr enc)
    obtain rest rows2 where tail: "migrate_ddns_secrets seal hex (\<lambda>n. draws (Suc n)) cell rows = (rest, rows2)"
      by fastforce
    have "list_all2 (same_ddns_secrets opn unhex is_text cell) rows rows2"
      using Cons.prems(1) tail by (intro Cons.IH [of "\<lambda>n. draws (Suc n)"]) auto
    moreover have "same_ddns_secrets opn unhex is_text cell row (i, enc)"
      unfolding same_ddns_secrets_def row using Cons.prems(1) Inr
      by (intro conjI ballI impI) (simp, auto intro!: ddns_encrypted_ok [OF assms(1,2)])
    moreover have "rows' = (i, enc) # rows2"
      using Cons.prems(2) row Inr tail by (auto simp: Let_def split: if_splits)
    ultimately show ?thesis by simp
  qed
qed simp

section \<open>Witnesses\<close>

text \<open>A cipher that appends sixteen zero bytes, and two hexadecimal digits per byte.\<close>

definition demo_seal :: seal where
  "demo_seal key nonce p = Some (p @ replicate 16 0)"

definition demo_open :: seal where
  "demo_open key nonce c = Some (take (length c - 16) c)"

fun demo_digit :: "nat \<Rightarrow> char" where
  "demo_digit n = (if n < 10 then char_of (48 + n) else char_of (87 + n))"

definition demo_undigit :: "char \<Rightarrow> nat" where
  "demo_undigit c = (if byte c < 58 then byte c - 48 else byte c - 87)"

fun demo_hex2 :: "u8 list \<Rightarrow> string" where
  "demo_hex2 [] = []"
| "demo_hex2 (b # bs) = demo_digit (unat b div 16) # demo_digit (unat b mod 16) # demo_hex2 bs"

fun demo_unhex2 :: "string \<Rightarrow> u8 list option" where
  "demo_unhex2 (a # b # cs) = map_option ((#) (word_of_nat (demo_undigit a * 16 + demo_undigit b))) (demo_unhex2 cs)"
| "demo_unhex2 [] = Some []"
| "demo_unhex2 [a] = None"

lemma demo_aead: "aead_law demo_seal demo_open"
  by (auto simp: aead_law_def demo_seal_def demo_open_def)

lemma demo_digit_ok: "n < 16 \<Longrightarrow> demo_undigit (demo_digit n) = n \<and> is_ascii_hexdigit (demo_digit n)"
  by (auto simp: demo_undigit_def is_ascii_hexdigit_def is_digit_def)

lemma demo_hex_law: "hex_law demo_hex2 demo_unhex2"
proof -
  have "demo_unhex2 (demo_hex2 bs) = Some bs \<and> length (demo_hex2 bs) = 2 * length bs \<and>
      list_all is_ascii_hexdigit (demo_hex2 bs)" for bs
  proof (induction bs)
    case (Cons b bs)
    have "unat b < 256" using unsigned_less [of b] by simp
    then have "unat b div 16 < 16" "unat b mod 16 < 16" by auto
    then have "demo_undigit (demo_digit (unat b div 16)) = unat b div 16"
        "demo_undigit (demo_digit (unat b mod 16)) = unat b mod 16"
        "is_ascii_hexdigit (demo_digit (unat b div 16))" "is_ascii_hexdigit (demo_digit (unat b mod 16))"
      using demo_digit_ok by blast+
    then show ?case using Cons by (simp del: demo_digit.simps)
  qed simp
  then show ?thesis by (simp add: hex_law_def)
qed

theorem secret_roundtrip_witness:
  "\<exists>e. encrypt_secret demo_seal demo_hex2 (replicate 12 7) (Some []) ''token'' = Inr e \<and>
     decrypt_secret_if_needed demo_open demo_unhex2 (\<lambda>_. True) (Some []) e = Inr ''token''"
proof -
  obtain e where e: "encrypt_secret demo_seal demo_hex2 (replicate 12 7) (Some []) ''token'' = Inr e"
    by (simp add: encrypt_secret_def active_crypto_def ok_or_def crypto_encrypt_def demo_seal_def limit_simps)
  from secret_roundtrip [OF demo_aead demo_hex_law _ _ e, of "\<lambda>_. True"] e show ?thesis by auto
qed

theorem migration_preserves_secrets_witness:
  "\<exists>rows'. migrate_totp_secrets demo_seal demo_hex2 (\<lambda>_. replicate 12 7) (Some []) [(1, Some ''ABC''), (2, None)]
       = (Inr 1, rows') \<and> list_all secret_migrated rows' \<and>
     list_all2 (same_secret demo_open demo_unhex2 (\<lambda>_. True) (Some [])) [(1, Some ''ABC''), (2, None)] rows'"
proof -
  let ?rows = "[(1, Some ''ABC''), (2, None)] :: totp_secret_row list"
  have "fst (migrate_totp_secrets demo_seal demo_hex2 (\<lambda>_. replicate 12 7) (Some []) ?rows) = Inr 1" by code_simp
  then obtain rows' where run:
      "migrate_totp_secrets demo_seal demo_hex2 (\<lambda>_. replicate 12 7) (Some []) ?rows = (Inr 1, rows')"
    by (metis prod.collapse)
  have "\<forall>n. length ((\<lambda>_. replicate 12 7 :: u8 list) (n::nat)) = 12" "\<forall>r \<in> set ?rows. text_column (\<lambda>_. True) (snd r)"
    by (auto simp: text_column_def)
  from migration_preserves_secrets [OF demo_aead demo_hex_law this run] run show ?thesis by auto
qed

end
