(* ===== verification/User_Store.thy ===== *)
theory User_Store
  imports Login_Sessions Secret_Box "HOL-Library.Code_Target_Nat"
begin

text \<open>
  The table \<open>users\<close> behind \<open>UserRepository\<close> (\<open>db/repository/user.rs\<close>), on PostgreSQL rows. The
  schema makes ids and names unique and the token version a 32-bit integer, whose overflow is an
  error of the statement. Failures of the database itself are not modelled.

  The record \<open>crates\<close> collects the third-party functions the authentication code calls: hex,
  SHA-256, HMAC-SHA1, AES-GCM, Argon2 (hashing under a random salt, and verification, \<open>None\<close> when
  the stored hash cannot be parsed), UTF-8 validity and the text form of UUIDs.
\<close>

record crates =
  hex_encode :: "u8 list \<Rightarrow> string"
  hex_decode :: "string \<Rightarrow> u8 list option"
  sha256 :: "u8 list \<Rightarrow> u8 list"
  hmac_sha1 :: "u8 list \<Rightarrow> u8 list \<Rightarrow> u8 list"
  aes_seal :: seal
  aes_open :: seal
  argon_hash :: "u8 list \<Rightarrow> string \<Rightarrow> string option"
  argon_verify :: "string \<Rightarrow> string \<Rightarrow> bool option"
  from_utf8 :: "u8 list \<Rightarrow> bool"
  uuid_parse :: "string \<Rightarrow> u128 option"
  uuid_show :: "u128 \<Rightarrow> string"

definition USER_LIST_MAX_LIMIT :: int where [limit_simps]: "USER_LIST_MAX_LIMIT = 500"
definition USER_PASSWORD_MAX_BYTES :: nat where [limit_simps]: "USER_PASSWORD_MAX_BYTES = 1024"
definition USER_USERNAME_MAX_BYTES :: nat where [limit_simps]: "USER_USERNAME_MAX_BYTES = 255"

record user_row =
  ur_id :: u128
  ur_username :: string
  ur_password_hash :: string
  ur_role :: string
  ur_token_version :: int
  ur_totp_secret :: "string option"
  ur_totp_enabled :: bool
  ur_created_at :: datetime
  ur_updated_at :: datetime

record user =
  us_id :: u128
  us_username :: string
  us_password_hash :: string
  us_role :: user_role
  us_token_version :: int
  us_created_at :: datetime
  us_updated_at :: datetime

record create_user_input =
  cu_username :: string
  cu_password :: string
  cu_role :: user_role

section \<open>Checks\<close>

definition nul :: char where "nul = char_of (0::nat)"

definition validate_username :: "string \<Rightarrow> app_error + unit" where
  "validate_username username =
     (if trim username = [] then Inl DatabaseError
      else if length username > USER_USERNAME_MAX_BYTES then Inl DatabaseError
      else if nul \<in> set username then Inl DatabaseError else Inr ())"

definition validate_user_password :: "string \<Rightarrow> app_error + unit" where
  "validate_user_password password =
     (if password = [] then Inl DatabaseError
      else if length password > USER_PASSWORD_MAX_BYTES then Inl DatabaseError
      else if nul \<in> set password then Inl DatabaseError else Inr ())"

definition hash_password :: "crates \<Rightarrow> u8 list \<Rightarrow> string \<Rightarrow> app_error + string" where
  "hash_password c salt password =
     and_then (validate_user_password password) (\<lambda>_. ok_or (argon_hash c salt password) DatabaseError)"

definition verify_password :: "crates \<Rightarrow> user \<Rightarrow> string \<Rightarrow> app_error + bool" where
  "verify_password c u password =
     (if \<not> is_ok (validate_user_password password) then Inr False
      else ok_or (argon_verify c (us_password_hash u) password) DatabaseError)"

definition postgres_user_from_row :: "user_row \<Rightarrow> string + user" where
  "postgres_user_from_row r =
     and_then (role_parse (ur_role r)) (\<lambda>role.
       Inr \<lparr>us_id = ur_id r, us_username = ur_username r, us_password_hash = ur_password_hash r, us_role = role,
            us_token_version = ur_token_version r, us_created_at = ur_created_at r, us_updated_at = ur_updated_at r\<rparr>)"

section \<open>Queries\<close>

text \<open>A row whose role cannot be read is treated as absent.\<close>

definition user_of :: "user_row option \<Rightarrow> user option" where
  "user_of row =
     (case row of None \<Rightarrow> None
      | Some r \<Rightarrow> (case postgres_user_from_row r of Inl _ \<Rightarrow> None | Inr u \<Rightarrow> Some u))"

definition find_by_username :: "string \<Rightarrow> user_row list \<Rightarrow> user option" where
  "find_by_username username rows = user_of (find (\<lambda>r. ur_username r = username) rows)"

definition find_by_id :: "u128 \<Rightarrow> user_row list \<Rightarrow> user option" where
  "find_by_id user_id rows = user_of (find (\<lambda>r. ur_id r = user_id) rows)"

definition count_admins :: "user_row list \<Rightarrow> nat" where
  "count_admins rows = length (filter (\<lambda>r. ur_role r = ''admin'') rows)"

definition clamp :: "int \<Rightarrow> int \<Rightarrow> int \<Rightarrow> int" where
  "clamp lo hi x = (if x < lo then lo else if hi < x then hi else x)"

definition list_users :: "int \<Rightarrow> int \<Rightarrow> user_row list \<Rightarrow> user list \<times> nat" where
  "list_users limit offset rows =
     (let page = take (nat (clamp 1 USER_LIST_MAX_LIMIT limit)) (drop (nat (max offset 0)) (sort_key ur_created_at rows))
      in (List.map_filter (\<lambda>r. user_of (Some r)) page, length rows))"

definition totp_config ::
  "crates \<Rightarrow> crypto_key option \<Rightarrow> u128 \<Rightarrow> user_row list \<Rightarrow> app_error + string option \<times> bool" where
  "totp_config c cell user_id rows =
     (let (secret, enabled) = (case find (\<lambda>r. ur_id r = user_id) rows of
            None \<Rightarrow> (None, False)
          | Some r \<Rightarrow> (ur_totp_secret r, ur_totp_enabled r))
      in case decrypt_optional_secret (aes_open c) (hex_decode c) (from_utf8 c) cell secret of
           Inl _ \<Rightarrow> Inl DatabaseError
         | Inr plain \<Rightarrow> Inr (plain, enabled))"

section \<open>Updates\<close>

definition user_create ::
  "crates \<Rightarrow> u128 \<Rightarrow> u8 list \<Rightarrow> datetime \<Rightarrow> create_user_input \<Rightarrow> user_row list \<Rightarrow> (app_error + user) \<times> user_row list" where
  "user_create c new_id salt now input rows =
     (case and_then (validate_username (cu_username input)) (\<lambda>_. hash_password c salt (cu_password input)) of
        Inl e \<Rightarrow> (Inl e, rows)
      | Inr password_hash \<Rightarrow>
          if list_ex (\<lambda>r. ur_id r = new_id \<or> ur_username r = cu_username input) rows then (Inl DatabaseError, rows)
          else
            (Inr \<lparr>us_id = new_id, us_username = cu_username input, us_password_hash = password_hash,
                  us_role = cu_role input, us_token_version = 0, us_created_at = now, us_updated_at = now\<rparr>,
             rows @ [\<lparr>ur_id = new_id, ur_username = cu_username input, ur_password_hash = password_hash,
                  ur_role = role_text (cu_role input), ur_token_version = 0, ur_totp_secret = None,
                  ur_totp_enabled = False, ur_created_at = now, ur_updated_at = now\<rparr>]))"

definition update_role :: "datetime \<Rightarrow> u128 \<Rightarrow> user_role \<Rightarrow> user_row list \<Rightarrow> user option \<times> user_row list" where
  "update_role now user_id role rows =
     (let rows' = update_where (\<lambda>r. ur_id r = user_id) (\<lambda>r. r\<lparr>ur_role := role_text role, ur_updated_at := now\<rparr>) rows
      in (find_by_id user_id rows', rows'))"

definition reset_password ::
  "crates \<Rightarrow> u8 list \<Rightarrow> datetime \<Rightarrow> u128 \<Rightarrow> string \<Rightarrow> user_row list \<Rightarrow> (app_error + user option) \<times> user_row list" where
  "reset_password c salt now user_id password rows =
     (case hash_password c salt password of
        Inl e \<Rightarrow> (Inl e, rows)
      | Inr h \<Rightarrow>
          if list_ex (\<lambda>r. ur_id r = user_id \<and> ur_token_version r = 2147483647) rows then (Inl DatabaseError, rows)
          else
            (let rows' = update_where (\<lambda>r. ur_id r = user_id)
                   (\<lambda>r. r\<lparr>ur_password_hash := h, ur_token_version := ur_token_version r + 1, ur_updated_at := now\<rparr>) rows
             in (Inr (find_by_id user_id rows'), rows')))"

definition set_totp_secret ::
  "crates \<Rightarrow> crypto_key option \<Rightarrow> u8 list \<Rightarrow> datetime \<Rightarrow> u128 \<Rightarrow> string \<Rightarrow> bool \<Rightarrow> user_row list
    \<Rightarrow> (app_error + unit) \<times> user_row list" where
  "set_totp_secret c cell draw now user_id secret enabled rows =
     (case encrypt_secret (aes_seal c) (hex_encode c) draw cell secret of
        Inl _ \<Rightarrow> (Inl DatabaseError, rows)
      | Inr e \<Rightarrow>
          (Inr (), update_where (\<lambda>r. ur_id r = user_id)
             (\<lambda>r. r\<lparr>ur_totp_secret := Some e, ur_totp_enabled := enabled, ur_updated_at := now\<rparr>) rows))"

definition set_totp_enabled :: "datetime \<Rightarrow> u128 \<Rightarrow> bool \<Rightarrow> user_row list \<Rightarrow> user_row list" where
  "set_totp_enabled now user_id enabled rows =
     update_where (\<lambda>r. ur_id r = user_id) (\<lambda>r. r\<lparr>ur_totp_enabled := enabled, ur_updated_at := now\<rparr>) rows"

definition repo_disable_totp :: "datetime \<Rightarrow> u128 \<Rightarrow> user_row list \<Rightarrow> user_row list" where
  "repo_disable_totp now user_id rows =
     update_where (\<lambda>r. ur_id r = user_id)
       (\<lambda>r. r\<lparr>ur_totp_secret := None, ur_totp_enabled := False, ur_updated_at := now\<rparr>) rows"

definition user_delete :: "u128 \<Rightarrow> user_row list \<Rightarrow> bool \<times> user_row list" where
  "user_delete user_id rows =
     (list_ex (\<lambda>r. ur_id r = user_id) rows, filter (\<lambda>r. ur_id r \<noteq> user_id) rows)"

section \<open>What the uuid crate promises\<close>

definition uuid_law :: "crates \<Rightarrow> bool" where
  "uuid_law c \<longleftrightarrow>
     (\<forall>u. length (uuid_show c u) = 36 \<and> uuid_parse c (uuid_show c u) = Some u \<and>
          list_all (\<lambda>d. is_ascii_hexdigit d \<or> d = CHR ''-'') (uuid_show c u))"

lemma uuid_show_trim: "uuid_law c \<Longrightarrow> trim (uuid_show c u) = uuid_show c u"
proof (rule trim_ascii)
  assume "uuid_law c"
  then have "\<forall>d \<in> set (uuid_show c u). is_ascii_hexdigit d \<or> d = CHR ''-''"
    by (simp add: uuid_law_def list_all_iff)
  moreover have "33 \<le> byte d \<and> byte d < 128" if "is_ascii_hexdigit d \<or> d = CHR ''-''" for d
    using that by (auto simp: is_ascii_hexdigit_def is_digit_def)
  ultimately show "list_all (\<lambda>d. 33 \<le> byte d \<and> byte d < 128) (uuid_show c u)"
    unfolding list_all_iff by blast
qed

lemma uuid_show_length: "uuid_law c \<Longrightarrow> length (uuid_show c u) = 36"
  by (simp add: uuid_law_def)

lemma uuid_show_inj: "uuid_law c \<Longrightarrow> uuid_show c u = uuid_show c v \<longleftrightarrow> u = v"
  by (metis option.inject uuid_law_def)

section \<open>Concrete crates\<close>

text \<open>
  A toy instance that satisfies the laws above, for the witnesses of the theories that follow:
  constant hashes, a cipher that appends its tag, and UUIDs as digits after four hyphens.
\<close>

fun demo_digits :: "nat \<Rightarrow> nat \<Rightarrow> string" where
  "demo_digits 0 n = []"
| "demo_digits (Suc k) n = demo_digit (n mod 16) # demo_digits k (n div 16)"

fun demo_undigits :: "string \<Rightarrow> nat" where
  "demo_undigits [] = 0"
| "demo_undigits (d # ds) = demo_undigit d + 16 * demo_undigits ds"

definition demo_sha256 :: "u8 list \<Rightarrow> u8 list" where "demo_sha256 m = replicate 32 0"
definition demo_hmac :: "u8 list \<Rightarrow> u8 list \<Rightarrow> u8 list" where "demo_hmac k m = replicate 20 0"
definition demo_hmac256 :: "u8 list \<Rightarrow> u8 list \<Rightarrow> u8 list" where "demo_hmac256 k m = replicate 32 0"
definition demo_argon_hash :: "u8 list \<Rightarrow> string \<Rightarrow> string option" where "demo_argon_hash salt p = Some p"
definition demo_argon_verify :: "string \<Rightarrow> string \<Rightarrow> bool option" where "demo_argon_verify h p = Some (h = p)"
definition demo_is_text :: "u8 list \<Rightarrow> bool" where "demo_is_text b = True"
definition demo_uuid_show :: "u128 \<Rightarrow> string" where "demo_uuid_show u = ''----'' @ demo_digits 32 (unat u)"
definition demo_uuid_parse :: "string \<Rightarrow> u128 option" where
  "demo_uuid_parse s = (if length s = 36 then Some (word_of_nat (demo_undigits (drop 4 s))) else None)"

definition demo_crates :: crates where
  "demo_crates =
     \<lparr>hex_encode = demo_hex2, hex_decode = demo_unhex2, sha256 = demo_sha256, hmac_sha1 = demo_hmac,
      aes_seal = demo_seal, aes_open = demo_open, argon_hash = demo_argon_hash, argon_verify = demo_argon_verify,
      from_utf8 = demo_is_text, uuid_parse = demo_uuid_parse, uuid_show = demo_uuid_show\<rparr>"

lemma demo_digits_ok:
  "demo_undigits (demo_digits k n) = n mod 16 ^ k \<and> length (demo_digits k n) = k \<and>
   list_all is_ascii_hexdigit (demo_digits k n)"
proof (induction k arbitrary: n)
  case (Suc k)
  have "n mod 16 < 16" by simp
  from demo_digit_ok [OF this] Suc show ?case
    by (auto simp del: demo_digit.simps simp: mod_mult2_eq)
qed simp

lemma demo_uuid_law: "uuid_law demo_crates"
proof -
  have "unat u mod 16 ^ 32 = unat u" for u :: u128
    using unsigned_less [of u, where 'a = nat] by simp
  then show ?thesis
    using demo_digits_ok by (auto simp: uuid_law_def demo_crates_def demo_uuid_show_def demo_uuid_parse_def list_all_iff)
qed

end
