(* ===== verification/Waf_Guard.thy ===== *)
theory Waf_Guard
  imports User_Store Security
begin

text \<open>
  The brute-force guard of \<open>api/v1/auth.rs\<close>: the tables \<open>waf_events\<close> and \<open>waf_bans\<close>, the four
  \<open>register_*_failure\<close> functions, and the second factor (\<open>verify_and_consume_user_totp\<close>,
  \<open>require_sensitive_totp\<close>).

  \<open>clk i\<close> is the i-th reading of the clock a call makes and \<open>ids i\<close> the i-th fresh id. The table
  of events only grows: no statement of the server deletes from it. The region guarded by
  \<open>totp_verification_lock\<close> is one function; the time it is given was read before the lock was
  taken, so it may be older than the last event of the table.
\<close>

section \<open>Tables\<close>

definition LOGIN_FAILURE_THRESHOLD :: nat where [limit_simps]: "LOGIN_FAILURE_THRESHOLD = 5"
definition LOGIN_FAILURE_WINDOW_MINUTES :: int where [limit_simps]: "LOGIN_FAILURE_WINDOW_MINUTES = 15"
definition LOGIN_BAN_MINUTES :: int where [limit_simps]: "LOGIN_BAN_MINUTES = 30"
definition TOTP_REPLAY_HORIZON_MINUTES :: int where [limit_simps]: "TOTP_REPLAY_HORIZON_MINUTES = 3"
definition SENSITIVE_TOTP_HEADER :: string where "SENSITIVE_TOTP_HEADER = ''x-totp-code''"

definition minutes :: "int \<Rightarrow> int" where
  [limit_simps]: "minutes n = n * 60 * 1000000000"

record waf_event_row =
  we_id :: string
  we_ip :: string
  we_username :: "string option"
  we_outcome :: string
  we_reason :: "string option"
  we_created_at :: datetime

record waf_ban_row =
  wb_id :: string
  wb_ip :: string
  wb_reason :: string
  wb_failed_count :: nat
  wb_banned_until :: datetime
  wb_created_at :: datetime
  wb_updated_at :: datetime

definition record_waf_event ::
  "string \<Rightarrow> datetime \<Rightarrow> string \<Rightarrow> string option \<Rightarrow> string \<Rightarrow> string option \<Rightarrow> waf_event_row list \<Rightarrow> waf_event_row list" where
  "record_waf_event i now ip username outcome reason events =
     (let name = (case username of None \<Rightarrow> None
            | Some v \<Rightarrow> (let t = take_chars 255 (trim v) in if t = [] then None else Some t))
      in events @ [\<lparr>we_id = i, we_ip = ip, we_username = name, we_outcome = outcome, we_reason = reason,
                    we_created_at = now\<rparr>])"

definition auth_failure_outcomes :: "string list" where
  "auth_failure_outcomes = [''login_failed'', ''oauth_failed'', ''pat_failed'', ''agent_auth_failed'']"

definition count_recent_auth_failures :: "string \<Rightarrow> datetime \<Rightarrow> waf_event_row list \<Rightarrow> nat" where
  "count_recent_auth_failures ip since events =
     length (filter (\<lambda>e. we_ip e = ip \<and> we_outcome e \<in> set auth_failure_outcomes \<and> we_created_at e \<ge> since) events)"

definition upsert_waf_ban ::
  "string \<Rightarrow> datetime \<Rightarrow> string \<Rightarrow> string \<Rightarrow> nat \<Rightarrow> datetime \<Rightarrow> waf_ban_row list \<Rightarrow> waf_ban_row list" where
  "upsert_waf_ban i now ip reason failed_count banned_until bans =
     (if list_ex (\<lambda>b. wb_ip b = ip) bans
      then update_where (\<lambda>b. wb_ip b = ip)
             (\<lambda>b. b\<lparr>wb_reason := reason, wb_failed_count := failed_count, wb_banned_until := banned_until,
                   wb_updated_at := now\<rparr>) bans
      else bans @ [\<lparr>wb_id = i, wb_ip = ip, wb_reason = reason, wb_failed_count = failed_count,
                    wb_banned_until = banned_until, wb_created_at = now, wb_updated_at = now\<rparr>])"

definition active_waf_ban :: "datetime \<Rightarrow> string \<Rightarrow> waf_ban_row list \<Rightarrow> waf_ban_row option" where
  "active_waf_ban now ip bans = find (\<lambda>b. wb_ip b = ip \<and> wb_banned_until b > now) bans"

type_synonym waf_tables = "waf_event_row list \<times> waf_ban_row list"

text \<open>The body the four registration functions share; they differ in the outcome and the reason.\<close>

definition register_failure ::
  "string \<Rightarrow> string \<Rightarrow> (nat \<Rightarrow> datetime) \<Rightarrow> (nat \<Rightarrow> string) \<Rightarrow> string \<Rightarrow> string option \<Rightarrow> string
    \<Rightarrow> waf_tables \<Rightarrow> waf_tables" where
  "register_failure outcome ban_reason clk ids ip who reason tables =
     (let events = record_waf_event (ids 0) (clk 0) ip who outcome (Some reason) (fst tables);
          since = clk 1 - minutes LOGIN_FAILURE_WINDOW_MINUTES;
          failures = count_recent_auth_failures ip since events
      in if failures \<ge> LOGIN_FAILURE_THRESHOLD
         then (events, upsert_waf_ban (ids 1) (clk 3) ip ban_reason failures
                         (clk 2 + minutes LOGIN_BAN_MINUTES) (snd tables))
         else (events, snd tables))"

definition register_login_failure ::
  "(nat \<Rightarrow> datetime) \<Rightarrow> (nat \<Rightarrow> string) \<Rightarrow> string \<Rightarrow> string \<Rightarrow> string \<Rightarrow> waf_tables \<Rightarrow> waf_tables" where
  "register_login_failure clk ids ip username reason =
     register_failure ''login_failed'' ''too many failed login attempts'' clk ids ip (Some username) reason"

definition register_oauth_failure ::
  "(nat \<Rightarrow> datetime) \<Rightarrow> (nat \<Rightarrow> string) \<Rightarrow> string \<Rightarrow> string option \<Rightarrow> string \<Rightarrow> waf_tables \<Rightarrow> waf_tables" where
  "register_oauth_failure clk ids ip provider reason =
     register_failure ''oauth_failed'' ''too many failed authentication attempts'' clk ids ip provider reason"

definition register_pat_failure ::
  "(nat \<Rightarrow> datetime) \<Rightarrow> (nat \<Rightarrow> string) \<Rightarrow> string \<Rightarrow> string option \<Rightarrow> string \<Rightarrow> waf_tables \<Rightarrow> waf_tables" where
  "register_pat_failure clk ids ip token_ref reason =
     register_failure ''pat_failed'' ''too many failed authentication attempts'' clk ids ip token_ref reason"

definition register_agent_auth_failure ::
  "(nat \<Rightarrow> datetime) \<Rightarrow> (nat \<Rightarrow> string) \<Rightarrow> string \<Rightarrow> string option \<Rightarrow> string \<Rightarrow> waf_tables \<Rightarrow> waf_tables" where
  "register_agent_auth_failure clk ids ip agent_ref reason =
     register_failure ''agent_auth_failed'' ''too many failed authentication attempts'' clk ids ip agent_ref reason"

section \<open>The second factor\<close>

datatype totp_verification_error = RateLimited | InvalidCode | TotpDatabase

definition count_recent_user_totp_failures :: "string \<Rightarrow> datetime \<Rightarrow> waf_event_row list \<Rightarrow> nat" where
  "count_recent_user_totp_failures user_key since events =
     length (filter (\<lambda>e. we_username e = Some user_key \<and> we_outcome e = ''totp_failed'' \<and> we_created_at e \<ge> since) events)"

definition used_step :: "string \<Rightarrow> string option \<Rightarrow> int option" where
  "used_step step_prefix reason = Option.bind (Option.bind reason (strip_prefix step_prefix)) parse_i64"

definition is_totp_step_replayed ::
  "string \<Rightarrow> string \<Rightarrow> int \<Rightarrow> datetime \<Rightarrow> waf_event_row list \<Rightarrow> bool" where
  "is_totp_step_replayed user_key step_prefix matched_step since events =
     list_ex (\<lambda>e. case used_step step_prefix (we_reason e) of None \<Rightarrow> False | Some used \<Rightarrow> used \<ge> matched_step)
       (filter (\<lambda>e. we_username e = Some user_key \<and> we_outcome e = ''totp_used'' \<and> we_created_at e \<ge> since) events)"

text \<open>The first sixteen digits of the secret's hash name the secret in the recorded steps.\<close>

definition totp_step_prefix :: "crates \<Rightarrow> string \<Rightarrow> string" where
  "totp_step_prefix c secret = ''step:'' @ take 16 (hash_token (hex_encode c) (sha256 c) secret) @ '':''"

definition verify_and_consume_user_totp ::
  "crates \<Rightarrow> datetime \<Rightarrow> string \<Rightarrow> u128 \<Rightarrow> string \<Rightarrow> string \<Rightarrow> datetime \<Rightarrow> waf_event_row list
    \<Rightarrow> (totp_verification_error + unit) \<times> waf_event_row list" where
  "verify_and_consume_user_totp c stamp i user_id secret code now events =
     (let user_key = uuid_show c user_id;
          note = (\<lambda>outcome reason. record_waf_event i stamp ''totp'' (Some user_key) outcome (Some reason) events)
      in if count_recent_user_totp_failures user_key (now - minutes LOGIN_FAILURE_WINDOW_MINUTES) events
              \<ge> LOGIN_FAILURE_THRESHOLD
         then (Inl RateLimited, note ''totp_blocked'' ''too many failed totp attempts'')
         else case verify_totp_code_step (hmac_sha1 c) secret code now of
             None \<Rightarrow> (Inl InvalidCode, note ''totp_failed'' ''invalid totp'')
           | Some matched_step \<Rightarrow>
               (let step_prefix = totp_step_prefix c secret
                in if is_totp_step_replayed user_key step_prefix matched_step
                        (now - minutes TOTP_REPLAY_HORIZON_MINUTES) events
                   then (Inl InvalidCode, note ''totp_failed'' ''replayed totp'')
                   else (Inr (), note ''totp_used'' (step_prefix @ show_int matched_step))))"

definition header_value :: "header_decoder \<Rightarrow> header_map \<Rightarrow> string \<Rightarrow> string option" where
  "header_value to_str headers name =
     (case Option.bind (header_get headers name) to_str of
        None \<Rightarrow> None
      | Some v \<Rightarrow> if trim v = [] then None else Some (trim v))"

definition sensitive_totp_code_from_headers :: "header_decoder \<Rightarrow> header_map \<Rightarrow> string option" where
  "sensitive_totp_code_from_headers to_str headers =
     or_else (header_value to_str headers SENSITIVE_TOTP_HEADER) (header_value to_str headers ''x-sensitive-totp-code'')"

definition require_sensitive_totp ::
  "crates \<Rightarrow> crypto_key option \<Rightarrow> header_decoder \<Rightarrow> (nat \<Rightarrow> datetime) \<Rightarrow> string \<Rightarrow> u128 \<Rightarrow> header_map
    \<Rightarrow> user_row list \<Rightarrow> waf_event_row list \<Rightarrow> (app_error + unit) \<times> waf_event_row list" where
  "require_sensitive_totp c cell to_str clk i user_id headers users events =
     (case totp_config c cell user_id users of
        Inl e \<Rightarrow> (Inl e, events)
      | Inr (secret, enabled) \<Rightarrow>
          if \<not> enabled then (Inr (), events)
          else (case secret of
              None \<Rightarrow> (Inl (Forbidden ''TOTP secret is missing''), events)
            | Some s \<Rightarrow>
                (case sensitive_totp_code_from_headers to_str headers of
                   None \<Rightarrow> (Inl (Forbidden ''TOTP code is required''), events)
                 | Some code \<Rightarrow>
                     (case verify_and_consume_user_totp c (clk 1) i user_id s code (clk 0) events of
                        (Inr _, events') \<Rightarrow> (Inr (), events')
                      | (Inl RateLimited, events') \<Rightarrow> (Inl (TooManyRequests ''Too many failed TOTP attempts''), events')
                      | (Inl InvalidCode, events') \<Rightarrow> (Inl (Forbidden ''Invalid TOTP code''), events')
                      | (Inl TotpDatabase, events') \<Rightarrow> (Inl DatabaseError, events')))))"

definition map_totp_endpoint_error :: "totp_verification_error \<Rightarrow> app_error" where
  "map_totp_endpoint_error e =
     (case e of
        RateLimited \<Rightarrow> TooManyRequests ''Too many failed TOTP attempts''
      | InvalidCode \<Rightarrow> BadRequest ''Invalid TOTP code''
      | TotpDatabase \<Rightarrow> DatabaseError)"

section \<open>Lemmas\<close>

lemma record_waf_event_user:
  assumes "uuid_law c"
  shows "record_waf_event i now ip (Some (uuid_show c u)) outcome reason events =
    events @ [\<lparr>we_id = i, we_ip = ip, we_username = Some (uuid_show c u), we_outcome = outcome, we_reason = reason,
              we_created_at = now\<rparr>]"
proof -
  have "take_chars 255 (trim (uuid_show c u)) = uuid_show c u" "uuid_show c u \<noteq> []"
    using uuid_show_trim [OF assms, of u] uuid_show_length [OF assms, of u] by (auto simp: take_chars_short)
  then show ?thesis by (simp add: record_waf_event_def Let_def)
qed

text \<open>One verification, taken apart: the event it records and what it has seen before.\<close>

lemma verify_totp_cases:
  assumes "uuid_law c" "verify_and_consume_user_totp c stamp i u secret code now events = (res, events')"
  obtains outcome reason where
    "events' = events @ [\<lparr>we_id = i, we_ip = ''totp'', we_username = Some (uuid_show c u), we_outcome = outcome,
        we_reason = Some reason, we_created_at = stamp\<rparr>]"
    "outcome \<in> {''totp_failed'', ''totp_used''} \<Longrightarrow>
       count_recent_user_totp_failures (uuid_show c u) (now - minutes 15) events < 5"
    "res = Inr () \<longleftrightarrow> outcome = ''totp_used''"
    "outcome = ''totp_used'' \<Longrightarrow> \<exists>step. verify_totp_code_step (hmac_sha1 c) secret code now = Some step \<and>
       reason = totp_step_prefix c secret @ show_int step \<and>
       \<not> is_totp_step_replayed (uuid_show c u) (totp_step_prefix c secret) step (now - minutes 3) events"
proof -
  note parts = assms(2) [unfolded verify_and_consume_user_totp_def Let_def record_waf_event_user [OF assms(1)]
      LOGIN_FAILURE_THRESHOLD_def LOGIN_FAILURE_WINDOW_MINUTES_def TOTP_REPLAY_HORIZON_MINUTES_def]
  show ?thesis
  proof (cases "count_recent_user_totp_failures (uuid_show c u) (now - minutes 15) events \<ge> 5")
    case True
    with parts show ?thesis by (intro that [of "''totp_blocked''" "''too many failed totp attempts''"]) auto
  next
    case few: False
    show ?thesis
    proof (cases "verify_totp_code_step (hmac_sha1 c) secret code now")
      case None
      with few parts show ?thesis by (intro that [of "''totp_failed''" "''invalid totp''"]) auto
    next
      case (Some step)
      with few parts show ?thesis
        by (cases "is_totp_step_replayed (uuid_show c u) (totp_step_prefix c secret) step (now - minutes 3) events")
           (auto intro: that [of "''totp_failed''" "''replayed totp''"] that [of "''totp_used''"])
    qed
  qed
qed

lemma strip_prefix_append [simp]: "strip_prefix p (p @ s) = Some s"
  by (simp add: strip_prefix_def starts_with_def)

text \<open>Times of the chrono crate end in the year 262142.\<close>

definition chrono_time :: "datetime \<Rightarrow> bool" where
  "chrono_time t \<longleftrightarrow> \<bar>timestamp t\<bar> \<le> 8210266876799"

lemma totp_step_near:
  assumes "verify_totp_code_step hmac secret code now = Some step"
  shows "0 \<le> step \<and> \<bar>step - timestamp now div 30\<bar> \<le> 1"
proof -
  have "verify_totp_code_step hmac secret code now = Some step \<Longrightarrow>
      \<exists>key. match_steps hmac key (totp_normalized code) [timestamp now div 30 - 1 .. timestamp now div 30 + 1] None = Some step"
    by (auto simp: verify_totp_code_step_def totp_normalized_def Let_def limit_simps split: if_splits sum.splits)
  with assms show ?thesis unfolding match_steps_window totp_good_step_def by blast
qed

lemma used_step_recorded:
  assumes "0 \<le> step" "step < 2 ^ 63"
  shows "used_step p (Some (p @ show_int step)) = Some step"
  using parse_show_i64 [OF assms] by (simp add: used_step_def)

lemma replayedI:
  assumes "e \<in> set events" "we_username e = Some k" "we_outcome e = ''totp_used''" "since \<le> we_created_at e"
    and "used_step p (we_reason e) = Some used" "step \<le> used"
  shows "is_totp_step_replayed k p step since events"
  using assms by (auto simp: is_totp_step_replayed_def list_ex_iff intro!: bexI [of _ e])

section \<open>Properties\<close>

text \<open>
  (C5) A one-time code works once: when two calls for the same user and secret are accepted, in the
  order in which they hold the lock, the second was given a code of a strictly later time step.
  This holds whatever else is recorded in between and even when the second call read its clock
  before the first, as long as a call's record is not stamped before the time it started with.
\<close>

theorem totp_steps_increase:
  assumes "uuid_law c" "chrono_time now1" "now1 \<le> stamp1"
    and first: "verify_and_consume_user_totp c stamp1 i1 u secret code1 now1 events = (Inr (), events1)"
    and later: "set events1 \<subseteq> set events2"
    and second: "verify_and_consume_user_totp c stamp2 i2 u secret code2 now2 events2 = (Inr (), events3)"
  shows "\<exists>s1 s2. verify_totp_code_step (hmac_sha1 c) secret code1 now1 = Some s1 \<and>
    verify_totp_code_step (hmac_sha1 c) secret code2 now2 = Some s2 \<and> s1 < s2"
proof -
  obtain s1 where s1: "verify_totp_code_step (hmac_sha1 c) secret code1 now1 = Some s1"
    and rec1: "\<lparr>we_id = i1, we_ip = ''totp'', we_username = Some (uuid_show c u), we_outcome = ''totp_used'',
        we_reason = Some (totp_step_prefix c secret @ show_int s1), we_created_at = stamp1\<rparr> \<in> set events1"
    using first by (elim verify_totp_cases [OF assms(1)]) auto
  obtain s2 where s2: "verify_totp_code_step (hmac_sha1 c) secret code2 now2 = Some s2"
    and fresh: "\<not> is_totp_step_replayed (uuid_show c u) (totp_step_prefix c secret) s2 (now2 - minutes 3) events2"
    using second by (elim verify_totp_cases [OF assms(1)]) auto
  have near1: "0 \<le> s1" "\<bar>s1 - timestamp now1 div 30\<bar> \<le> 1" using totp_step_near [OF s1] by auto
  have near2: "\<bar>s2 - timestamp now2 div 30\<bar> \<le> 1" using totp_step_near [OF s2] by auto
  have "s1 < 2 ^ 63" using near1 assms(2) by (auto simp: chrono_time_def)
  note used = used_step_recorded [OF near1(1) this, of "totp_step_prefix c secret"]
  have "s1 < s2"
  proof (cases "stamp1 \<ge> now2 - minutes 3")
    case True
    have "\<not> s2 \<le> s1"
      using fresh replayedI [OF subsetD [OF later rec1], of "uuid_show c u" "now2 - minutes 3"] True used by auto
    then show ?thesis by simp
  next
    case False
    then have "now1 + 180 * 1000000000 \<le> now2" using assms(3) by (simp add: minutes_def)
    then have "timestamp now1 + 180 \<le> timestamp now2"
      using zdiv_mono1 [of "now1 + 180 * 1000000000" now2 1000000000] by (simp add: timestamp_def)
    then show ?thesis using near1(2) near2 by linarith
  qed
  with s1 s2 show ?thesis by blast
qed

text \<open>The growth of the table of events, and the times of the failed codes of a user.\<close>

inductive waf_event_step :: "crates \<Rightarrow> waf_event_row list \<Rightarrow> waf_event_row list \<Rightarrow> bool" for c where
  step_totp: "verify_and_consume_user_totp c stamp i u secret code now events = (res, events') \<Longrightarrow> now \<le> stamp \<Longrightarrow>
    waf_event_step c events events'"
| step_other: "outcome \<noteq> ''totp_failed'' \<Longrightarrow> events' = record_waf_event i now ip name outcome reason events \<Longrightarrow>
    waf_event_step c events events'"

definition totp_failures :: "string \<Rightarrow> waf_event_row list \<Rightarrow> datetime list" where
  "totp_failures k events =
     map we_created_at (filter (\<lambda>e. we_username e = Some k \<and> we_outcome e = ''totp_failed'') events)"

definition spaced :: "datetime list \<Rightarrow> bool" where
  "spaced ts \<longleftrightarrow> (\<forall>n < length ts. length (filter (\<lambda>t. ts ! n - minutes 15 \<le> t) (take n ts)) < 5)"

lemma spaced_snoc:
  "spaced ts \<Longrightarrow> length (filter (\<lambda>s. t - minutes 15 \<le> s) ts) < 5 \<Longrightarrow> spaced (ts @ [t])"
  by (auto simp: spaced_def nth_append less_Suc_eq)

lemma count_as_failures: "count_recent_user_totp_failures k since events = length (filter (\<lambda>t. since \<le> t) (totp_failures k events))"
  by (simp add: count_recent_user_totp_failures_def totp_failures_def filter_map o_def conj_assoc)

lemma filter_length_mono: "(\<And>x. P x \<Longrightarrow> Q x) \<Longrightarrow> length (filter P xs) \<le> length (filter Q xs)"
  by (induction xs) (auto simp: le_SucI)

lemma waf_event_step_spaced:
  assumes "waf_event_step c events events'" "uuid_law c" "spaced (totp_failures k events)"
  shows "spaced (totp_failures k events')"
  using assms
proof cases
  case (step_totp stamp i u secret code now res)
  from step_totp(1) show ?thesis
  proof (elim verify_totp_cases [OF assms(2)])
    fix outcome reason
    assume ev: "events' = events @ [\<lparr>we_id = i, we_ip = ''totp'', we_username = Some (uuid_show c u),
        we_outcome = outcome, we_reason = Some reason, we_created_at = stamp\<rparr>]"
      and few: "outcome \<in> {''totp_failed'', ''totp_used''} \<Longrightarrow>
        count_recent_user_totp_failures (uuid_show c u) (now - minutes 15) events < 5"
    show ?thesis
    proof (cases "outcome = ''totp_failed'' \<and> k = uuid_show c u")
      case True
      have "length (filter (\<lambda>t. stamp - minutes 15 \<le> t) (totp_failures k events)) \<le>
          length (filter (\<lambda>t. now - minutes 15 \<le> t) (totp_failures k events))"
        using step_totp(2) by (intro filter_length_mono) auto
      also have "\<dots> < 5" using few True by (simp add: count_as_failures)
      finally have "spaced (totp_failures k events @ [stamp])" by (rule spaced_snoc [OF assms(3)])
      with ev True show ?thesis by (simp add: totp_failures_def)
    next
      case False
      with ev assms(3) show ?thesis by (auto simp: totp_failures_def)
    qed
  qed
next
  case (step_other outcome i now ip name reason)
  with assms(3) show ?thesis by (simp add: record_waf_event_def totp_failures_def Let_def)
qed

lemma spaced_window: "spaced ts \<Longrightarrow> length (filter (\<lambda>t. a \<le> t \<and> t \<le> a + minutes 15) ts) \<le> 5"
proof (induction ts rule: rev_induct)
  case (snoc t ts)
  have "spaced ts" using snoc.prems by (auto simp: spaced_def nth_append split: if_splits)
  then have IH: "length (filter (\<lambda>t. a \<le> t \<and> t \<le> a + minutes 15) ts) \<le> 5" by (rule snoc.IH)
  have last: "length (filter (\<lambda>s. t - minutes 15 \<le> s) ts) < 5"
    using snoc.prems by (auto simp: spaced_def dest!: spec [of _ "length ts"])
  show ?case
  proof (cases "a \<le> t \<and> t \<le> a + minutes 15")
    case True
    then have "length (filter (\<lambda>s. a \<le> s \<and> s \<le> a + minutes 15) ts) \<le> length (filter (\<lambda>s. t - minutes 15 \<le> s) ts)"
      by (intro filter_length_mono) auto
    with last True show ?thesis by simp
  next
    case False
    then have "filter (\<lambda>s. a \<le> s \<and> s \<le> a + minutes 15) (ts @ [t]) = filter (\<lambda>s. a \<le> s \<and> s \<le> a + minutes 15) ts"
      by auto
    with IH show ?thesis by metis
  qed
qed simp

lemma waf_event_steps_spaced:
  "(waf_event_step c)\<^sup>*\<^sup>* events events' \<Longrightarrow> uuid_law c \<Longrightarrow> spaced (totp_failures k events) \<Longrightarrow> spaced (totp_failures k events')"
  by (induction rule: rtranclp_induct) (auto intro: waf_event_step_spaced)

text \<open>
  (C11) Guessing is bounded: whatever users, codes and other events the table has seen, it holds at
  most five failed codes of a user within any fifteen minutes, since a sixth guess is refused
  without looking at the code.
\<close>

theorem totp_guesses_bounded:
  assumes "uuid_law c" "(waf_event_step c)\<^sup>*\<^sup>* [] events"
  shows "length (filter (\<lambda>t. a \<le> t \<and> t \<le> a + minutes 15) (totp_failures (uuid_show c u) events)) \<le> 5"
  by (intro spaced_window waf_event_steps_spaced [OF assms(2,1)]) (simp add: spaced_def totp_failures_def)

section \<open>Witnesses\<close>

abbreviation demo_totp :: "string \<Rightarrow> datetime \<Rightarrow> waf_event_row list \<Rightarrow> (totp_verification_error + unit) \<times> waf_event_row list" where
  "demo_totp code now \<equiv> verify_and_consume_user_totp demo_crates now ''e'' 1 ''AA'' code now"

theorem totp_steps_increase_witness:
  "\<exists>s1 s2. verify_totp_code_step (hmac_sha1 demo_crates) ''AA'' ''000000'' 0 = Some s1 \<and>
     verify_totp_code_step (hmac_sha1 demo_crates) ''AA'' ''000000'' 60000000000 = Some s2 \<and> s1 < s2"
proof -
  have "fst (demo_totp ''000000'' 0 []) = Inr ()" by code_simp
  then have first: "demo_totp ''000000'' 0 [] = (Inr (), snd (demo_totp ''000000'' 0 []))" by (metis prod.collapse)
  have "fst (demo_totp ''000000'' 60000000000 (snd (demo_totp ''000000'' 0 []))) = Inr ()" by code_simp
  then obtain events where second: "demo_totp ''000000'' 60000000000 (snd (demo_totp ''000000'' 0 [])) = (Inr (), events)"
    by (metis prod.collapse)
  have "chrono_time 0" by code_simp
  from totp_steps_increase [OF demo_uuid_law this _ first _ second] show ?thesis by simp
qed

theorem totp_guesses_bounded_witness:
  "length (filter (\<lambda>t. 0 \<le> t \<and> t \<le> 0 + minutes 15)
     (totp_failures (uuid_show demo_crates 1) (snd (demo_totp ''000001'' 0 [])))) \<le> 5"
  by (rule totp_guesses_bounded [OF demo_uuid_law])
     (rule r_into_rtranclp, rule step_totp [OF prod.collapse [symmetric]], simp)

end
