(* ===== verification/Auth_Middleware.thy ===== *)
theory Auth_Middleware
  imports Waf_Guard
begin

text \<open>
  \<open>auth/middleware.rs\<close>: how a request becomes an authenticated one. \<open>session_middleware\<close> takes a
  personal access token from the \<open>Authorization\<close> header or else a session cookie, and refuses
  state-changing requests without credentials or, for cookies, without the CSRF token;
  \<open>csrf_middleware\<close> repeats the last check.

  The tables the authentication code shares are the record \<open>auth_db\<close>. \<open>faults q\<close> says that the
  query \<open>q\<close> of this request fails, which the middleware turns into "no such row"; the results of
  its own writes are ignored by the code and the writes are taken to succeed. The cookie jar is
  given as the value of the session cookie, \<open>hmac256\<close> is HMAC-SHA256, and \<open>clk\<close>, \<open>ids\<close> are the
  readings of the clock and the fresh ids, numbered along the longest path.
\<close>

section \<open>Requests and state\<close>

definition SESSION_COOKIE_NAME :: string where "SESSION_COOKIE_NAME = ''xlstatus_session''"
definition CSRF_COOKIE_NAME :: string where "CSRF_COOKIE_NAME = ''xlstatus_csrf''"
definition CSRF_HEADER_NAME :: string where "CSRF_HEADER_NAME = ''x-csrf-token''"
definition SESSION_TOKEN_BYTES :: nat where [limit_simps]: "SESSION_TOKEN_BYTES = 64"
definition PAT_PREFIX :: string where "PAT_PREFIX = ''xlp_''"
definition PAT_TOKEN_HEX_BYTES :: nat where [limit_simps]: "PAT_TOKEN_HEX_BYTES = 64"
definition PAT_TOKEN_BYTES :: nat where [limit_simps]: "PAT_TOKEN_BYTES = length PAT_PREFIX + PAT_TOKEN_HEX_BYTES"
definition PAT_AUTHORIZATION_HEADER_MAX_BYTES :: nat where
  [limit_simps]: "PAT_AUTHORIZATION_HEADER_MAX_BYTES = length ''Bearer '' + PAT_TOKEN_BYTES"
definition AUTHORIZATION_HEADER_MAX_BYTES :: nat where [limit_simps]: "AUTHORIZATION_HEADER_MAX_BYTES = 4096"

record auth_db =
  db_users :: "user_row list"
  db_sessions :: "session_row list"
  db_pats :: "pat_row list"
  db_events :: "waf_event_row list"
  db_bans :: "waf_ban_row list"
  db_agents :: "u128 \<Rightarrow> agent_row option"

datatype db_query = BanQuery | PatQuery | UserQuery | AgentQuery | SessionQuery

record request =
  rq_method :: string
  rq_headers :: header_map
  rq_peer :: "socket_addr option"
  rq_session_cookie :: "string option"

text \<open>\<open>AuthUser\<close>: the user together with what the session extension carries.\<close>

record auth_user =
  au_user :: user
  au_session :: auth_session

definition is_pat :: "auth_user \<Rightarrow> bool" where
  "is_pat au = (as_auth_kind (au_session au) = PersonalAccessToken)"

definition require_cookie_session :: "auth_user \<Rightarrow> status_code + unit" where
  "require_cookie_session au = (if is_pat au then Inl FORBIDDEN else Inr ())"

definition require_pat :: "auth_user \<Rightarrow> status_code + unit" where
  "require_pat au = (if is_pat au then Inr () else Inl FORBIDDEN)"

text \<open>\<open>FromRequestParts\<close>: both extensions have to be present.\<close>

definition auth_user_from_parts :: "auth_session option \<Rightarrow> user option \<Rightarrow> status_code + auth_user" where
  "auth_user_from_parts session u =
     and_then (ok_or session UNAUTHORIZED) (\<lambda>s.
     and_then (ok_or u UNAUTHORIZED) (\<lambda>v. Inr \<lparr>au_user = v, au_session = s\<rparr>))"

section \<open>Tokens in headers\<close>

definition pat_token_is_valid :: "string \<Rightarrow> bool" where
  "pat_token_is_valid token =
     (length token = PAT_TOKEN_BYTES \<and> starts_with PAT_PREFIX token \<and>
      list_all is_ascii_hexdigit (drop (length PAT_PREFIX) token))"

definition pat_bearer_token_from_headers :: "header_decoder \<Rightarrow> header_map \<Rightarrow> string + string option" where
  "pat_bearer_token_from_headers to_str headers =
     (case headers ''authorization'' of
        [] \<Rightarrow> Inr None
      | [raw] \<Rightarrow>
          if length raw > AUTHORIZATION_HEADER_MAX_BYTES then Inl ''bearer token too long''
          else (case to_str raw of
              None \<Rightarrow> Inl ''malformed bearer token''
            | Some text_value \<Rightarrow>
                (let v = trim text_value
                 in case or_else (strip_prefix ''Bearer '' v) (strip_prefix ''bearer '' v) of
                      None \<Rightarrow> Inr None
                    | Some rest \<Rightarrow>
                        (let token = trim rest
                         in if token = [] then Inr None
                            else if \<not> starts_with PAT_PREFIX token then Inr None
                            else if length v > PAT_AUTHORIZATION_HEADER_MAX_BYTES \<or> length token > PAT_TOKEN_BYTES
                            then Inl ''bearer token too long''
                            else if pat_token_is_valid token then Inr (Some token)
                            else Inl ''malformed PAT bearer token'')))
      | _ \<Rightarrow> Inl ''malformed bearer token'')"

definition session_cookie_token_is_valid :: "string \<Rightarrow> bool" where
  "session_cookie_token_is_valid token =
     (length token = SESSION_TOKEN_BYTES \<and> list_all is_ascii_hexdigit token)"

definition state_changing :: "string \<Rightarrow> bool" where
  "state_changing method = (method \<in> set [''POST'', ''PUT'', ''PATCH'', ''DELETE''])"

definition session_request_requires_csrf :: "string \<Rightarrow> auth_session option \<Rightarrow> bool" where
  "session_request_requires_csrf method session =
     (state_changing method \<and> (case session of None \<Rightarrow> False | Some s \<Rightarrow> as_auth_kind s = Session))"

definition csrf_token_matches :: "string option \<Rightarrow> string \<Rightarrow> bool" where
  "csrf_token_matches csrf_header expected =
     (case csrf_header of
        None \<Rightarrow> False
      | Some h \<Rightarrow>
          (let provided = trim h
           in if length expected \<noteq> SESSION_TOKEN_BYTES \<or> length provided \<noteq> SESSION_TOKEN_BYTES
                \<or> \<not> list_all is_ascii_hexdigit provided then False
              else constant_time_eq (as_bytes provided) (as_bytes expected)))"

definition derive_csrf_token :: "crates \<Rightarrow> (u8 list \<Rightarrow> u8 list \<Rightarrow> u8 list) \<Rightarrow> string \<Rightarrow> string" where
  "derive_csrf_token c hmac256 token_hash = hex_encode c (hmac256 (as_bytes token_hash) (as_bytes ''xlstatus-csrf-token-v1''))"

definition csrf_header_of :: "header_decoder \<Rightarrow> header_map \<Rightarrow> string option" where
  "csrf_header_of to_str headers = Option.bind (header_get headers CSRF_HEADER_NAME) to_str"

section \<open>The middleware\<close>

datatype credentials = Anonymous | Authenticated auth_session user
datatype pat_outcome = PatBlocked | PatDenied | PatGranted auth_session user
datatype verdict = Reject status_code | Forward credentials

definition fail_pat ::
  "(nat \<Rightarrow> datetime) \<Rightarrow> (nat \<Rightarrow> string) \<Rightarrow> string \<Rightarrow> string option \<Rightarrow> string \<Rightarrow> auth_db \<Rightarrow> auth_db" where
  "fail_pat clk ids client_ip token_ref reason db =
     (case register_pat_failure clk ids client_ip token_ref reason (db_events db, db_bans db) of
        (events, bans) \<Rightarrow> db\<lparr>db_events := events, db_bans := bans\<rparr>)"

definition pat_session :: "personal_access_token \<Rightarrow> user \<Rightarrow> auth_session" where
  "pat_session pat u =
     \<lparr>as_session_id = pat_id pat, as_user_id = us_id u, as_username = us_username u, as_role = us_role u,
      as_csrf_token = [], as_auth_kind = PersonalAccessToken, as_scopes = pat_scopes pat,
      as_server_ids = pat_server_ids pat, as_pat_id = Some (pat_id pat)\<rparr>"

text \<open>The checks on a token row: its age, its user, its policy and its allow list.\<close>

definition find_agent :: "(db_query \<Rightarrow> bool) \<Rightarrow> auth_db \<Rightarrow> u128 \<Rightarrow> app_error + agent_row option" where
  "find_agent faults db a = (if faults AgentQuery then Inl DatabaseError else Inr (db_agents db a))"

definition use_pat ::
  "crates \<Rightarrow> (db_query \<Rightarrow> bool) \<Rightarrow> (nat \<Rightarrow> datetime) \<Rightarrow> (nat \<Rightarrow> string) \<Rightarrow> string \<Rightarrow> personal_access_token
    \<Rightarrow> auth_db \<Rightarrow> pat_outcome \<times> auth_db" where
  "use_pat c faults clk ids client_ip pat db =
     (let deny = (\<lambda>reason. (PatDenied, fail_pat (\<lambda>i. clk (i + 1)) ids client_ip (Some (pat_id pat)) reason db))
      in if (case pat_expires_at pat of None \<Rightarrow> True | Some t \<Rightarrow> t \<le> clk 0) then deny ''expired token''
         else if faults UserQuery then (PatDenied, db)
         else (case find_by_id (pat_user_id pat) (db_users db) of
             None \<Rightarrow> deny ''token user not found''
           | Some u \<Rightarrow>
               (case validate_pat_runtime (uuid_parse c) (uuid_show c) (pat_scopes pat) (is_admin (us_role u)) (pat_server_ids pat) of
                  Inl reason \<Rightarrow> deny (''invalid token policy: '' @ reason)
                | Inr _ \<Rightarrow>
                    (case validate_server_allowlist_ownership (uuid_parse c) (find_agent faults db) (us_id u)
                            (is_admin (us_role u)) (pat_server_ids pat) of
                       Inl _ \<Rightarrow> deny ''invalid token server allowlist''
                     | Inr _ \<Rightarrow>
                         (PatGranted (pat_session pat u) u,
                          (case repo_mark_used (uuid_parse c) (clk 1) (pat_id pat) (Some client_ip) (db_pats db) of
                             Inl _ \<Rightarrow> db | Inr pats \<Rightarrow> db\<lparr>db_pats := pats\<rparr>))))))"

definition authenticate_pat ::
  "crates \<Rightarrow> (db_query \<Rightarrow> bool) \<Rightarrow> (nat \<Rightarrow> datetime) \<Rightarrow> (nat \<Rightarrow> string) \<Rightarrow> string \<Rightarrow> string \<Rightarrow> auth_db
    \<Rightarrow> pat_outcome \<times> auth_db" where
  "authenticate_pat c faults clk ids client_ip token db =
     (if \<not> faults BanQuery \<and> active_waf_ban (clk 0) client_ip (db_bans db) \<noteq> None
      then (PatBlocked, db\<lparr>db_events := record_waf_event (ids 0) (clk 1) client_ip None ''pat_blocked''
              (Some ''active WAF ban'') (db_events db)\<rparr>)
      else if faults PatQuery then (PatDenied, db)
      else (case repo_find_by_token_hash (uuid_parse c) (uuid_show c) (hash_token (hex_encode c) (sha256 c) token) (db_pats db) of
              None \<Rightarrow> (PatDenied, fail_pat (\<lambda>i. clk (i + 1)) ids client_ip None ''invalid token'' db)
            | Some pat \<Rightarrow> use_pat c faults (\<lambda>i. clk (i + 1)) ids client_ip pat db))"

definition authenticate_cookie ::
  "crates \<Rightarrow> (u8 list \<Rightarrow> u8 list \<Rightarrow> u8 list) \<Rightarrow> (db_query \<Rightarrow> bool) \<Rightarrow> datetime \<Rightarrow> string option \<Rightarrow> auth_db \<Rightarrow> credentials" where
  "authenticate_cookie c hmac256 faults now cookie db =
     (case cookie of
        None \<Rightarrow> Anonymous
      | Some token \<Rightarrow>
          if \<not> session_cookie_token_is_valid token \<or> faults SessionQuery then Anonymous
          else (let token_hash = hash_token (hex_encode c) (sha256 c) token
                in case session_find_by_token_hash now token_hash (db_sessions db) of
                     None \<Rightarrow> Anonymous
                   | Some session \<Rightarrow>
                       if faults UserQuery then Anonymous
                       else (case find_by_id (sr_user_id session) (db_users db) of
                           None \<Rightarrow> Anonymous
                         | Some u \<Rightarrow>
                             Authenticated
                               \<lparr>as_session_id = uuid_show c (sr_id session), as_user_id = us_id u, as_username = us_username u,
                                as_role = us_role u, as_csrf_token = derive_csrf_token c hmac256 token_hash,
                                as_auth_kind = Session, as_scopes = [], as_server_ids = None, as_pat_id = None\<rparr> u)))"

definition admit :: "header_decoder \<Rightarrow> request \<Rightarrow> credentials \<Rightarrow> verdict" where
  "admit to_str req cred =
     (if state_changing (rq_method req)
      then (case cred of
          Anonymous \<Rightarrow> Reject UNAUTHORIZED
        | Authenticated s u \<Rightarrow>
            if session_request_requires_csrf (rq_method req) (Some s)
               \<and> \<not> csrf_token_matches (csrf_header_of to_str (rq_headers req)) (as_csrf_token s)
            then Reject FORBIDDEN else Forward cred)
      else Forward cred)"

definition session_middleware ::
  "crates \<Rightarrow> (u8 list \<Rightarrow> u8 list \<Rightarrow> u8 list) \<Rightarrow> env \<Rightarrow> header_decoder \<Rightarrow> (db_query \<Rightarrow> bool) \<Rightarrow> (nat \<Rightarrow> datetime)
    \<Rightarrow> (nat \<Rightarrow> string) \<Rightarrow> request \<Rightarrow> auth_db \<Rightarrow> verdict \<times> auth_db" where
  "session_middleware c hmac256 env to_str faults clk ids req db =
     (let client_ip = client_ip_from_headers_and_peer env to_str (rq_headers req) (rq_peer req)
      in case pat_bearer_token_from_headers to_str (rq_headers req) of
           Inl reason \<Rightarrow> (admit to_str req Anonymous, fail_pat clk ids client_ip None reason db)
         | Inr (Some token) \<Rightarrow>
             (case authenticate_pat c faults clk ids client_ip token db of
                (PatBlocked, db') \<Rightarrow> (Reject FORBIDDEN, db')
              | (PatDenied, db') \<Rightarrow> (admit to_str req Anonymous, db')
              | (PatGranted s u, db') \<Rightarrow> (admit to_str req (Authenticated s u), db'))
         | Inr None \<Rightarrow> (admit to_str req (authenticate_cookie c hmac256 faults (clk 0) (rq_session_cookie req) db), db))"

definition csrf_middleware :: "header_decoder \<Rightarrow> request \<Rightarrow> auth_session option \<Rightarrow> status_code + unit" where
  "csrf_middleware to_str req session =
     (case session of
        None \<Rightarrow> Inr ()
      | Some s \<Rightarrow>
          if session_request_requires_csrf (rq_method req) session
             \<and> \<not> csrf_token_matches (csrf_header_of to_str (rq_headers req)) (as_csrf_token s)
          then Inl FORBIDDEN else Inr ())"

section \<open>Specification vocabulary\<close>

text \<open>The one \<open>Authorization\<close> header reads \<open>Bearer\<close> followed by \<open>token\<close>.\<close>

definition presents_bearer :: "header_decoder \<Rightarrow> header_map \<Rightarrow> string \<Rightarrow> bool" where
  "presents_bearer to_str headers token \<longleftrightarrow>
     (\<exists>raw line rest. headers ''authorization'' = [raw] \<and> length raw \<le> 4096 \<and> to_str raw = Some line \<and>
        (trim line = ''Bearer '' @ rest \<or> trim line = ''bearer '' @ rest) \<and> trim rest = token)"

text \<open>
  No personal access token was presented, not even a malformed one: there is no \<open>Authorization\<close>
  header, or a single short readable one that is no bearer text starting with \<open>xlp_\<close>.
\<close>

definition no_pat_presented :: "header_decoder \<Rightarrow> header_map \<Rightarrow> bool" where
  "no_pat_presented to_str headers \<longleftrightarrow>
     (headers ''authorization'' = [] \<or>
      (\<exists>raw line. headers ''authorization'' = [raw] \<and> length raw \<le> 4096 \<and> to_str raw = Some line)) \<and>
     (\<forall>token. presents_bearer to_str headers token \<longrightarrow> \<not> starts_with ''xlp_'' token)"

section \<open>Lemmas\<close>

lemma csrf_token_matches_iff:
  "csrf_token_matches h expected \<longleftrightarrow>
     (\<exists>v. h = Some v \<and> trim v = expected \<and> length expected = 64 \<and> list_all is_ascii_hexdigit expected)"
  by (auto simp: csrf_token_matches_def Let_def constant_time_eq_iff limit_simps split: option.splits)

lemma admit_forward:
  "admit to_str req cred = Forward cred' \<longleftrightarrow>
     cred' = cred \<and>
     (state_changing (rq_method req) \<longrightarrow>
        (\<exists>s u. cred = Authenticated s u \<and> csrf_middleware to_str req (Some s) = Inr ()))"
  by (auto simp: admit_def csrf_middleware_def split: credentials.splits if_splits)

lemma strip_prefix_Some: "strip_prefix p s = Some r \<longleftrightarrow> s = p @ r"
  by (auto simp: strip_prefix_def starts_with_def) (metis append_take_drop_id)

lemma bearer_rest:
  "or_else (strip_prefix ''Bearer '' v) (strip_prefix ''bearer '' v) = Some rest \<longleftrightarrow>
     v = ''Bearer '' @ rest \<or> v = ''bearer '' @ rest"
proof (cases "strip_prefix ''Bearer '' v")
  case None
  then have "v \<noteq> ''Bearer '' @ rest" using strip_prefix_Some by (metis option.distinct(1))
  with None strip_prefix_Some [of "''bearer ''" v rest] show ?thesis by (simp add: or_else_def)
next
  case (Some r)
  then have "v = ''Bearer '' @ r" by (simp only: strip_prefix_Some)
  with Some show ?thesis by (auto simp: or_else_def)
qed

lemma starts_with_append: "starts_with p s \<longleftrightarrow> (\<exists>r. s = p @ r)"
  by (auto simp: starts_with_def) (metis append_take_drop_id)

lemma pat_token_shape:
  "pat_token_is_valid token \<longleftrightarrow> (\<exists>hex. token = ''xlp_'' @ hex \<and> length hex = 64 \<and> list_all is_ascii_hexdigit hex)"
proof -
  have four: "length ''xlp_'' = 4" "drop 4 (''xlp_'' @ hex) = hex" for hex :: string by simp_all
  show ?thesis
    unfolding pat_token_is_valid_def starts_with_append PAT_TOKEN_BYTES_def PAT_TOKEN_HEX_BYTES_def PAT_PREFIX_def
    by (metis four add_left_cancel length_append)
qed

lemma pat_bearer_Some:
  assumes "pat_bearer_token_from_headers to_str headers = Inr (Some token)"
  shows "presents_bearer to_str headers token \<and> pat_token_is_valid token"
proof -
  from assms obtain raw line where head: "headers ''authorization'' = [raw]" "length raw \<le> 4096" "to_str raw = Some line"
    by (auto simp: pat_bearer_token_from_headers_def Let_def limit_simps split: list.splits if_splits option.splits)
  with assms obtain rest where "or_else (strip_prefix ''Bearer '' (trim line)) (strip_prefix ''bearer '' (trim line)) = Some rest"
      "trim rest = token" "pat_token_is_valid token"
    by (auto simp: pat_bearer_token_from_headers_def Let_def limit_simps split: if_splits option.splits)
  with head show ?thesis unfolding bearer_rest presents_bearer_def by blast
qed

lemma pat_bearer_None:
  assumes "pat_bearer_token_from_headers to_str headers = Inr None"
  shows "no_pat_presented to_str headers"
proof (cases "headers ''authorization''")
  case Nil
  then show ?thesis by (simp add: no_pat_presented_def presents_bearer_def)
next
  case (Cons raw others)
  with assms obtain line where head: "headers ''authorization'' = [raw]" "length raw \<le> 4096" "to_str raw = Some line"
    by (auto simp: pat_bearer_token_from_headers_def Let_def limit_simps split: list.splits if_splits option.splits)
  have "\<not> starts_with ''xlp_'' (trim rest)"
    if "trim line = ''Bearer '' @ rest \<or> trim line = ''bearer '' @ rest" for rest
    using assms head that unfolding bearer_rest [symmetric]
    by (auto simp: pat_bearer_token_from_headers_def Let_def limit_simps PAT_PREFIX_def starts_with_def split: if_splits)
  with head show ?thesis by (auto simp: no_pat_presented_def presents_bearer_def)
qed

lemma repo_find_row:
  assumes "repo_find_by_token_hash up us h rows = Some pat"
  shows "\<exists>row \<in> set rows. pr_token_hash row = h \<and> pr_revoked_at row = None \<and> row_to_pat up us row = Some pat"
  using assms find_SomeD [of _ rows] by (fastforce simp: repo_find_by_token_hash_def split: option.splits)

lemma row_to_pat_columns:
  assumes "row_to_pat up us row = Some pat"
  shows "pat_user_id pat = pr_user_id row" "pat_expires_at pat = pr_expires_at row" "pat_id pat = us (pr_id row)"
  using assms by (auto simp: row_to_pat_def split: option.splits if_splits)

lemma use_pat_granted:
  assumes "use_pat c faults clk ids ip pat db = (PatGranted s u, db')"
  shows "s = pat_session pat u" "\<exists>t. pat_expires_at pat = Some t \<and> clk 0 < t"
    "find_by_id (pat_user_id pat) (db_users db) = Some u"
    "validate_pat_runtime (uuid_parse c) (uuid_show c) (pat_scopes pat) (is_admin (us_role u)) (pat_server_ids pat) = Inr ()"
    "validate_server_allowlist_ownership (uuid_parse c) (find_agent faults db) (us_id u) (is_admin (us_role u))
       (pat_server_ids pat) = Inr ()"
  using assms by (auto simp: use_pat_def Let_def split: if_splits option.splits sum.splits)

lemma authenticate_pat_granted:
  assumes "authenticate_pat c faults clk ids ip token db = (PatGranted s u, db')"
  shows "\<not> faults BanQuery \<longrightarrow> active_waf_ban (clk 0) ip (db_bans db) = None"
    and "\<exists>pat. repo_find_by_token_hash (uuid_parse c) (uuid_show c) (hash_token (hex_encode c) (sha256 c) token) (db_pats db)
           = Some pat \<and> use_pat c faults (\<lambda>i. clk (i + 1)) ids ip pat db = (PatGranted s u, db')"
  using assms by (auto simp: authenticate_pat_def split: if_splits option.splits)

lemma session_middleware_cases:
  assumes "session_middleware c hmac256 env to_str faults clk ids req db = (Forward (Authenticated s u), db')"
  obtains
    (pat) token where "pat_bearer_token_from_headers to_str (rq_headers req) = Inr (Some token)"
      "authenticate_pat c faults clk ids (client_ip_from_headers_and_peer env to_str (rq_headers req) (rq_peer req)) token db
         = (PatGranted s u, db')"
  | (cookie) "pat_bearer_token_from_headers to_str (rq_headers req) = Inr None"
      "authenticate_cookie c hmac256 faults (clk 0) (rq_session_cookie req) db = Authenticated s u" "db' = db"
proof (cases "pat_bearer_token_from_headers to_str (rq_headers req)")
  case (Inl e)
  with assms show ?thesis by (auto simp: session_middleware_def Let_def admit_forward)
next
  case (Inr found)
  show ?thesis
  proof (cases found)
    case None
    with Inr assms show ?thesis by (intro cookie) (auto simp: session_middleware_def Let_def admit_forward)
  next
    case (Some token)
    let ?run = "authenticate_pat c faults clk ids (client_ip_from_headers_and_peer env to_str (rq_headers req) (rq_peer req)) token db"
    obtain out db2 where run: "?run = (out, db2)" by fastforce
    with Inr Some assms have "out = PatGranted s u" "db2 = db'"
      by (cases out; auto simp: session_middleware_def Let_def admit_forward)+
    with run Inr Some show ?thesis by (intro pat) auto
  qed
qed

lemma pat_session_kind [simp]: "as_auth_kind (pat_session pat u) = PersonalAccessToken"
  by (simp add: pat_session_def)

lemma check_allowlisted_ok:
  assumes "check_allowlisted_server up fa uid admin sid = Inr ()"
  shows "\<exists>a agent. up sid = Some a \<and> fa a = Inr (Some agent) \<and> ag_revoked_at agent = None \<and>
    (admin \<or> ag_owner_user_id agent = uid)"
proof -
  from assms obtain a where a: "up sid = Some a" by (auto simp: check_allowlisted_server_def split: option.splits)
  with assms obtain found where "fa a = Inr found"
    by (cases "fa a") (auto simp: check_allowlisted_server_def)
  with assms a show ?thesis
    by (auto simp: check_allowlisted_server_def result_simps split: option.splits if_splits)
qed

lemma allowlist_owned:
  assumes "validate_server_allowlist_ownership up (find_agent faults db) uid admin (Some ids) = Inr ()" "sid \<in> set ids"
  shows "\<exists>a agent. up sid = Some a \<and> db_agents db a = Some agent \<and> ag_revoked_at agent = None \<and>
    (admin \<or> ag_owner_user_id agent = uid)"
proof -
  have "check_allowlisted_server up (find_agent faults db) uid admin sid = Inr ()"
    using assms by (simp add: validate_server_allowlist_ownership_def validate_each_ok)
  from check_allowlisted_ok [OF this] show ?thesis by (auto simp: find_agent_def split: if_splits)
qed

section \<open>Properties\<close>

text \<open>
  (C6) No unauthenticated change: a \<open>POST\<close>, \<open>PUT\<close>, \<open>PATCH\<close> or \<open>DELETE\<close> request that the session
  middleware hands on carries an authenticated session, and when that session comes from a
  cookie, the request repeats its 64-digit CSRF token in the header; the CSRF middleware behind
  it never refuses such a request.
\<close>

theorem state_change_authenticated:
  assumes "session_middleware c hmac256 env to_str faults clk ids req db = (Forward cred, db')"
    and "state_changing (rq_method req)"
  shows "\<exists>s u. cred = Authenticated s u \<and> csrf_middleware to_str req (Some s) = Inr () \<and>
    (as_auth_kind s = Session \<longrightarrow>
       (\<exists>h. csrf_header_of to_str (rq_headers req) = Some h \<and> trim h = as_csrf_token s \<and> length (as_csrf_token s) = 64))"
proof -
  have "\<exists>cred'. admit to_str req cred' = Forward cred"
    using assms(1) by (auto simp: session_middleware_def Let_def split: sum.splits option.splits prod.splits pat_outcome.splits)
  then obtain s u where su: "cred = Authenticated s u" "csrf_middleware to_str req (Some s) = Inr ()"
    using assms(2) by (auto simp: admit_forward)
  with assms(2) show ?thesis
    by (auto simp: csrf_middleware_def session_request_requires_csrf_def csrf_token_matches_iff split: if_splits)
qed

text \<open>
  (C3) What a token session rests on: the bearer text of the request's one \<open>Authorization\<close> header is
  \<open>xlp_\<close> with 64 hexadecimal digits, and the hash of this very text is in the table unrevoked and
  unexpired, owned by the user the session names; the stored scopes pass the runtime policy for
  the user's present role, and every allow-listed server exists, is not revoked and, unless the
  user is an administrator, belongs to the user. Unless the query for bans fails, the client
  address has no active ban; when it fails, the code lets the token through. No other failing
  query can grant a session.
\<close>

theorem token_session_sound:
  assumes "session_middleware c hmac256 env to_str faults clk ids req db = (Forward (Authenticated s u), db')"
    and "as_auth_kind s = PersonalAccessToken"
  shows "\<exists>token row. presents_bearer to_str (rq_headers req) token \<and>
    (\<exists>hex. token = ''xlp_'' @ hex \<and> length hex = 64 \<and> list_all is_ascii_hexdigit hex) \<and>
    row \<in> set (db_pats db) \<and> pr_token_hash row = hash_token (hex_encode c) (sha256 c) token \<and>
    pr_revoked_at row = None \<and> (\<exists>t. pr_expires_at row = Some t \<and> clk 1 < t) \<and>
    find_by_id (pr_user_id row) (db_users db) = Some u \<and> as_user_id s = us_id u \<and> as_role s = us_role u \<and>
    validate_pat_runtime (uuid_parse c) (uuid_show c) (as_scopes s) (is_admin (as_role s)) (as_server_ids s) = Inr () \<and>
    (\<forall>server_ids. as_server_ids s = Some server_ids \<longrightarrow>
       (\<forall>sid \<in> set server_ids. \<exists>a agent. uuid_parse c sid = Some a \<and> db_agents db a = Some agent \<and>
          ag_revoked_at agent = None \<and> (is_admin (as_role s) \<or> ag_owner_user_id agent = as_user_id s))) \<and>
    (\<not> faults BanQuery \<longrightarrow>
       active_waf_ban (clk 0) (client_ip_from_headers_and_peer env to_str (rq_headers req) (rq_peer req)) (db_bans db) = None)"
  using assms(1)
proof (cases rule: session_middleware_cases)
  case (pat token)
  from authenticate_pat_granted(2) [OF pat(2)] obtain p where p:
      "repo_find_by_token_hash (uuid_parse c) (uuid_show c) (hash_token (hex_encode c) (sha256 c) token) (db_pats db) = Some p"
      "use_pat c faults (\<lambda>i. clk (i + 1)) ids
         (client_ip_from_headers_and_peer env to_str (rq_headers req) (rq_peer req)) p db = (PatGranted s u, db')"
    by blast
  note granted = use_pat_granted [OF p(2)]
  from repo_find_row [OF p(1)] obtain row where row: "row \<in> set (db_pats db)"
      "pr_token_hash row = hash_token (hex_encode c) (sha256 c) token" "pr_revoked_at row = None"
      "row_to_pat (uuid_parse c) (uuid_show c) row = Some p" by blast
  note cols = row_to_pat_columns [OF row(4)]
  have fields: "as_user_id s = us_id u" "as_role s = us_role u" "as_scopes s = pat_scopes p" "as_server_ids s = pat_server_ids p"
    unfolding granted(1) by (simp_all add: pat_session_def)
  have owned: "\<forall>server_ids. pat_server_ids p = Some server_ids \<longrightarrow>
       (\<forall>sid \<in> set server_ids. \<exists>a agent. uuid_parse c sid = Some a \<and> db_agents db a = Some agent \<and>
          ag_revoked_at agent = None \<and> (is_admin (us_role u) \<or> ag_owner_user_id agent = us_id u))"
    using granted(5) allowlist_owned by metis
  show ?thesis unfolding fields
    by (rule exI [of _ token], rule exI [of _ row])
       (use row pat_bearer_Some [OF pat(1), unfolded pat_token_shape] granted(2-4) cols authenticate_pat_granted(1) [OF pat(2)] owned in simp)
next
  case cookie
  then show ?thesis using assms(2)
    by (auto simp: authenticate_cookie_def Let_def split: option.splits if_splits)
qed

text \<open>
  (C12) What a cookie session rests on: the request carries no \<open>Authorization\<close> header, or a single
  readable one of at most 4096 bytes whose bearer text, if it has one, does not start with \<open>xlp_\<close>
  (so no personal access token, well-formed or not, falls back to the cookie, while bearer text of
  another kind does); and the cookie's hash is that of an unexpired row of the session table whose
  user exists. The session acts with the user's present role. The tables are left as they were.
\<close>

theorem cookie_session_sound:
  assumes "session_middleware c hmac256 env to_str faults clk ids req db = (Forward (Authenticated s u), db')"
    and "as_auth_kind s = Session"
  shows "no_pat_presented to_str (rq_headers req) \<and> db' = db \<and>
    (\<exists>token row. rq_session_cookie req = Some token \<and> session_cookie_token_is_valid token \<and>
       row \<in> set (db_sessions db) \<and> sr_token_hash row = hash_token (hex_encode c) (sha256 c) token \<and>
       clk 0 < sr_expires_at row \<and> find_by_id (sr_user_id row) (db_users db) = Some u \<and>
       as_user_id s = us_id u \<and> as_role s = us_role u \<and>
       as_csrf_token s = derive_csrf_token c hmac256 (sr_token_hash row))"
  using assms(1)
proof (cases rule: session_middleware_cases)
  case (pat token)
  from authenticate_pat_granted(2) [OF pat(2)] obtain p ip where
      "use_pat c faults (\<lambda>i. clk (i + 1)) ids ip p db = (PatGranted s u, db')" by blast
  from use_pat_granted(1) [OF this] assms(2) show ?thesis by simp
next
  case cookie
  from cookie(2) obtain token row where
      t: "rq_session_cookie req = Some token" "session_cookie_token_is_valid token"
        "session_find_by_token_hash (clk 0) (hash_token (hex_encode c) (sha256 c) token) (db_sessions db) = Some row"
        "find_by_id (sr_user_id row) (db_users db) = Some u"
      and s: "as_user_id s = us_id u" "as_role s = us_role u"
        "as_csrf_token s = derive_csrf_token c hmac256 (hash_token (hex_encode c) (sha256 c) token)"
    by (auto simp: authenticate_cookie_def Let_def split: option.splits if_splits)
  have "row \<in> set (db_sessions db) \<and> sr_token_hash row = hash_token (hex_encode c) (sha256 c) token \<and> clk 0 < sr_expires_at row"
    using t(3) by (auto simp: session_find_by_token_hash_def validate_token_hash_def split: option.splits sum.splits if_splits dest: find_SomeD)
  with t s cookie(3) pat_bearer_None [OF cookie(1)] show ?thesis by metis
qed

section \<open>Witnesses\<close>

definition demo_user_row :: user_row where
  "demo_user_row =
     \<lparr>ur_id = 1, ur_username = ''root'', ur_password_hash = ''secret'', ur_role = ''admin'', ur_token_version = 0,
      ur_totp_secret = None, ur_totp_enabled = False, ur_created_at = 0, ur_updated_at = 0\<rparr>"

definition zeros :: string where "zeros = replicate 64 (CHR ''0'')"

definition demo_db :: auth_db where
  "demo_db =
     \<lparr>db_users = [demo_user_row],
      db_sessions = [\<lparr>sr_id = 5, sr_user_id = 1, sr_token_hash = zeros, sr_ip = None, sr_user_agent = None,
        sr_expires_at = 100, sr_created_at = 0\<rparr>],
      db_pats = [\<lparr>pr_id = 3, pr_user_id = 1, pr_name = ''ci'', pr_token_hash = zeros,
        pr_scopes = string_array [''server:read''], pr_server_ids = None, pr_expires_at = Some 100,
        pr_last_used_at = None, pr_last_used_ip = None, pr_created_at = 0, pr_revoked_at = None\<rparr>],
      db_events = [], db_bans = [], db_agents = (\<lambda>_. None)\<rparr>"

definition demo_cookie_request :: request where
  "demo_cookie_request =
     \<lparr>rq_method = ''POST'', rq_headers = (\<lambda>name. if name = ''x-csrf-token'' then [zeros] else []),
      rq_peer = None, rq_session_cookie = Some zeros\<rparr>"

definition demo_token_request :: request where
  "demo_token_request =
     \<lparr>rq_method = ''POST'', rq_headers = (\<lambda>name. if name = ''authorization'' then [''Bearer xlp_'' @ zeros] else []),
      rq_peer = None, rq_session_cookie = None\<rparr>"

abbreviation demo_middleware :: "request \<Rightarrow> verdict \<times> auth_db" where
  "demo_middleware req \<equiv>
     session_middleware demo_crates demo_hmac256 (\<lambda>_. None) Some (\<lambda>_. False) (\<lambda>_. 7) (\<lambda>_. ''i'') req demo_db"

fun forwarded_kind :: "verdict \<Rightarrow> auth_kind option" where
  "forwarded_kind (Forward (Authenticated s u)) = Some (as_auth_kind s)"
| "forwarded_kind v = None"

lemma forwarded_kind_Some: "forwarded_kind v = Some k \<longleftrightarrow> (\<exists>s u. v = Forward (Authenticated s u) \<and> as_auth_kind s = k)"
  by (cases v rule: forwarded_kind.cases) auto

lemma demo_runs:
  "forwarded_kind (fst (demo_middleware demo_cookie_request)) = Some Session"
  "forwarded_kind (fst (demo_middleware demo_token_request)) = Some PersonalAccessToken"
  by code_simp+

lemma demo_run_obtain:
  assumes "forwarded_kind (fst (demo_middleware req)) = Some k"
  obtains s u db' where "demo_middleware req = (Forward (Authenticated s u), db')" "as_auth_kind s = k"
  using assms unfolding forwarded_kind_Some by (metis prod.collapse)

text \<open>
  A bearer text that is no personal access token does fall back to the cookie, although the
  security documentation says that no invalid bearer header does.
\<close>

definition demo_foreign_request :: request where
  "demo_foreign_request =
     demo_cookie_request\<lparr>rq_headers := (\<lambda>name. if name = ''x-csrf-token'' then [zeros]
        else if name = ''authorization'' then [''Bearer oauth-token''] else [])\<rparr>"

theorem foreign_bearer_falls_back:
  "forwarded_kind (fst (demo_middleware demo_foreign_request)) = Some Session"
  by code_simp

theorem state_change_authenticated_witness:
  "\<exists>s u db'. demo_middleware demo_cookie_request = (Forward (Authenticated s u), db') \<and>
     csrf_middleware Some demo_cookie_request (Some s) = Inr ()"
proof -
  obtain s u db' where run: "demo_middleware demo_cookie_request = (Forward (Authenticated s u), db')"
    by (rule demo_run_obtain [OF demo_runs(1)])
  have "state_changing (rq_method demo_cookie_request)" by code_simp
  from state_change_authenticated [OF run this] run show ?thesis by auto
qed

theorem token_session_sound_witness:
  "\<exists>s u db'. demo_middleware demo_token_request = (Forward (Authenticated s u), db') \<and>
     find_by_id 1 (db_users demo_db) = Some u"
proof -
  obtain s u db' where run: "demo_middleware demo_token_request = (Forward (Authenticated s u), db')"
      and kind: "as_auth_kind s = PersonalAccessToken"
    by (rule demo_run_obtain [OF demo_runs(2)])
  from token_session_sound [OF run kind] have "find_by_id 1 (db_users demo_db) = Some u"
    by (auto simp: demo_db_def)
  with run show ?thesis by blast
qed

theorem cookie_session_sound_witness:
  "\<exists>s u. demo_middleware demo_cookie_request = (Forward (Authenticated s u), demo_db) \<and>
     find_by_id 1 (db_users demo_db) = Some u"
proof -
  obtain s u db' where run: "demo_middleware demo_cookie_request = (Forward (Authenticated s u), db')"
      and kind: "as_auth_kind s = Session"
    by (rule demo_run_obtain [OF demo_runs(1)])
  from cookie_session_sound [OF run kind] run show ?thesis by (auto simp: demo_db_def)
qed

end
