(* ===== verification/Login_Api.thy ===== *)
theory Login_Api
  imports Auth_Middleware
begin

text \<open>
  The account handlers of \<open>api/v1/auth.rs\<close> over the tables of \<open>auth_db\<close>: login and logout, user
  management, the second factor, session removal and manual bans. Each handler is one function
  from the tables to its result and the tables it leaves, with the partial effects of the
  statements before an error.

  The record \<open>call\<close> holds what a call draws from outside: its clock readings and fresh ids,
  numbered along the longest path, a fresh row id and random bytes. \<open>valid_header\<close> is
  \<open>HeaderValue::from_str\<close> of the http crate. Deleting a user removes its sessions, tokens and
  agents, as the foreign keys say.
\<close>

record call =
  cl_clk :: "nat \<Rightarrow> datetime"
  cl_ids :: "nat \<Rightarrow> string"
  cl_fresh :: u128
  cl_draw :: "u8 list"

record security_config =
  session_ttl_hours :: int
  cookie_secure :: bool

section \<open>Request fields\<close>

definition AUTH_MAX_USERNAME_BYTES :: nat where [limit_simps]: "AUTH_MAX_USERNAME_BYTES = 128"
definition AUTH_MIN_PASSWORD_BYTES :: nat where [limit_simps]: "AUTH_MIN_PASSWORD_BYTES = 8"
definition AUTH_MAX_PASSWORD_BYTES :: nat where [limit_simps]: "AUTH_MAX_PASSWORD_BYTES = 1024"
definition AUTH_MAX_ROLE_BYTES :: nat where [limit_simps]: "AUTH_MAX_ROLE_BYTES = 32"
definition AUTH_TOTP_CODE_BYTES :: nat where [limit_simps]: "AUTH_TOTP_CODE_BYTES = 6"
definition AUTH_MAX_WAF_BAN_IPS :: nat where [limit_simps]: "AUTH_MAX_WAF_BAN_IPS = 128"
definition AUTH_MAX_WAF_IP_FIELD_BYTES :: nat where [limit_simps]: "AUTH_MAX_WAF_IP_FIELD_BYTES = 4096"
definition AUTH_MAX_WAF_REASON_BYTES :: nat where [limit_simps]: "AUTH_MAX_WAF_REASON_BYTES = 255"
definition AUTH_MAX_WAF_BAN_MINUTES :: int where [limit_simps]: "AUTH_MAX_WAF_BAN_MINUTES = 43200"
definition AUTH_UUID_TEXT_LEN :: nat where [limit_simps]: "AUTH_UUID_TEXT_LEN = 36"

definition normalize_required_auth_text :: "string \<Rightarrow> nat \<Rightarrow> string \<Rightarrow> app_error + string" where
  "normalize_required_auth_text v max_bytes field =
     (let t = trim v
      in if t = [] then Inl (BadRequest (field @ '' is required''))
         else if length t > max_bytes
         then Inl (BadRequest (field @ '' must be at most '' @ show_nat max_bytes @ '' bytes''))
         else Inr t)"

definition normalize_username :: "string \<Rightarrow> app_error + string" where
  "normalize_username v = normalize_required_auth_text v AUTH_MAX_USERNAME_BYTES ''username''"

definition normalize_password :: "string \<Rightarrow> app_error + string" where
  "normalize_password v =
     (if length v > AUTH_MAX_PASSWORD_BYTES
      then Inl (BadRequest (''password must be at most '' @ show_nat AUTH_MAX_PASSWORD_BYTES @ '' bytes''))
      else if trim v = [] then Inl (BadRequest ''password is required'') else Inr v)"

definition normalize_new_password :: "string \<Rightarrow> app_error + string" where
  "normalize_new_password v =
     and_then (normalize_password v) (\<lambda>p.
       if length p < AUTH_MIN_PASSWORD_BYTES
       then Inl (BadRequest (''password must be at least '' @ show_nat AUTH_MIN_PASSWORD_BYTES @ '' bytes''))
       else Inr p)"

definition normalize_role :: "string \<Rightarrow> app_error + user_role" where
  "normalize_role v =
     and_then (normalize_required_auth_text v AUTH_MAX_ROLE_BYTES ''role'') (\<lambda>t.
       case role_parse t of Inl msg \<Rightarrow> Inl (BadRequest msg) | Inr r \<Rightarrow> Inr r)"

definition normalize_totp_code :: "string \<Rightarrow> app_error + string" where
  "normalize_totp_code v =
     (let t = trim v
      in if length t \<noteq> AUTH_TOTP_CODE_BYTES \<or> \<not> list_all is_digit t
         then Inl (BadRequest ''TOTP code must be 6 digits'') else Inr t)"

definition normalize_optional_totp_code :: "string option \<Rightarrow> app_error + string option" where
  "normalize_optional_totp_code v =
     (case v of None \<Rightarrow> Inr None | Some s \<Rightarrow> and_then (normalize_totp_code s) (\<lambda>t. Inr (Some t)))"

definition required_totp_code :: "string option \<Rightarrow> string \<Rightarrow> app_error + string" where
  "required_totp_code v missing =
     and_then (normalize_optional_totp_code v) (\<lambda>t. ok_or t (BadRequest missing))"

definition normalize_auth_resource_uuid :: "crates \<Rightarrow> string \<Rightarrow> string \<Rightarrow> app_error + string" where
  "normalize_auth_resource_uuid c i field =
     (if length i \<noteq> AUTH_UUID_TEXT_LEN then Inl (BadRequest (field @ '' must be a canonical UUID''))
      else case uuid_parse c i of
        None \<Rightarrow> Inl (BadRequest (field @ '' must be a canonical UUID''))
      | Some parsed \<Rightarrow>
          if uuid_show c parsed \<noteq> i then Inl (BadRequest (field @ '' must be a canonical UUID''))
          else Inr (uuid_show c parsed))"

text \<open>\<open>parse_user_id\<close> parses the canonical text again; the source calls that parse infallible.\<close>

definition parse_user_id :: "crates \<Rightarrow> string \<Rightarrow> app_error + u128" where
  "parse_user_id c i =
     and_then (normalize_auth_resource_uuid c i ''user id'') (\<lambda>t.
       ok_or (uuid_parse c t) (BadRequest ''canonical UUID must parse after validation''))"

section \<open>Guards\<close>

definition api_require_admin :: "auth_user \<Rightarrow> app_error + unit" where
  "api_require_admin au = ensure (is_admin (us_role (au_user au))) (Forbidden ''Admin role required'')"

definition api_require_cookie_session :: "auth_user \<Rightarrow> app_error + unit" where
  "api_require_cookie_session au = ensure (\<not> is_pat au) (Forbidden ''Cookie session required'')"

definition require_admin_cookie_session :: "auth_user \<Rightarrow> app_error + unit" where
  "require_admin_cookie_session au = and_then (api_require_admin au) (\<lambda>_. api_require_cookie_session au)"

text \<open>A guard followed by the second factor, which records its outcome in the events.\<close>

definition sensitive ::
  "crates \<Rightarrow> crypto_key option \<Rightarrow> header_decoder \<Rightarrow> call \<Rightarrow> app_error + unit \<Rightarrow> auth_user \<Rightarrow> header_map \<Rightarrow> auth_db
    \<Rightarrow> (app_error + unit) \<times> auth_db" where
  "sensitive c cell to_str k guard au headers db =
     (case guard of
        Inl e \<Rightarrow> (Inl e, db)
      | Inr _ \<Rightarrow>
          (case require_sensitive_totp c cell to_str (cl_clk k) (cl_ids k 0) (us_id (au_user au)) headers (db_users db) (db_events db) of
             (res, events) \<Rightarrow> (res, db\<lparr>db_events := events\<rparr>)))"

section \<open>Login and logout\<close>

record login_request =
  lr_username :: string
  lr_password :: string
  lr_totp_code :: "string option"

datatype login_response = MfaRequired | LoggedIn user string string

definition cookie_secure_attr :: "bool \<Rightarrow> string" where
  "cookie_secure_attr enabled = (if enabled then ''; Secure'' else [])"

definition session_cookie_text :: "security_config \<Rightarrow> string \<Rightarrow> int \<Rightarrow> string" where
  "session_cookie_text cfg token max_age =
     SESSION_COOKIE_NAME @ ''='' @ token @ ''; HttpOnly; SameSite=Lax; Path=/; Max-Age='' @ show_int max_age
       @ cookie_secure_attr (cookie_secure cfg)"

definition csrf_cookie_text :: "security_config \<Rightarrow> string \<Rightarrow> int \<Rightarrow> string" where
  "csrf_cookie_text cfg token max_age =
     CSRF_COOKIE_NAME @ ''='' @ token @ ''; SameSite=Lax; Path=/; Max-Age='' @ show_int max_age
       @ cookie_secure_attr (cookie_secure cfg)"

definition shift :: "nat \<Rightarrow> (nat \<Rightarrow> 'a) \<Rightarrow> nat \<Rightarrow> 'a" where
  "shift n f i = f (n + i)"

definition fail_login :: "nat \<Rightarrow> nat \<Rightarrow> call \<Rightarrow> string \<Rightarrow> string \<Rightarrow> string \<Rightarrow> auth_db \<Rightarrow> auth_db" where
  "fail_login t i k ip username reason db =
     (case register_login_failure (shift t (cl_clk k)) (shift i (cl_ids k)) ip username reason (db_events db, db_bans db) of
        (events, bans) \<Rightarrow> db\<lparr>db_events := events, db_bans := bans\<rparr>)"

definition login_totp_error :: "totp_verification_error \<Rightarrow> app_error" where
  "login_totp_error e =
     (case e of
        RateLimited \<Rightarrow> TooManyRequests ''Too many failed TOTP attempts''
      | InvalidCode \<Rightarrow> Unauthorized ''Invalid TOTP code''
      | TotpDatabase \<Rightarrow> DatabaseError)"

definition hours :: "int \<Rightarrow> int" where
  [limit_simps]: "hours n = n * 3600 * 1000000000"

text \<open>The end of \<open>login\<close>: the new session, its record and the two cookies.\<close>

definition start_session ::
  "crates \<Rightarrow> (u8 list \<Rightarrow> u8 list \<Rightarrow> u8 list) \<Rightarrow> (string \<Rightarrow> bool) \<Rightarrow> security_config \<Rightarrow> call \<Rightarrow> string \<Rightarrow> string option
    \<Rightarrow> string \<Rightarrow> user \<Rightarrow> auth_db \<Rightarrow> (app_error + login_response) \<times> auth_db" where
  "start_session c hmac256 valid_header cfg k client_ip user_agent username u db =
     (let session_token = generate_session_token (hex_encode c) (cl_draw k);
          token_hash = hash_token (hex_encode c) (sha256 c) session_token;
          input = \<lparr>cs_user_id = us_id u, cs_ip = Some client_ip, cs_user_agent = user_agent,
                   cs_expires_at = cl_clk k 3 + hours (session_ttl_hours cfg)\<rparr>
      in case session_create (cl_fresh k) (cl_clk k 4) input token_hash (db_sessions db) of
           (Inl _, sessions) \<Rightarrow> (Inl DatabaseError, db\<lparr>db_sessions := sessions\<rparr>)
         | (Inr _, sessions) \<Rightarrow>
             (let db' = db\<lparr>db_sessions := sessions,
                    db_events := record_waf_event (cl_ids k 1) (cl_clk k 5) client_ip (Some username) ''login_success'' None (db_events db)\<rparr>;
                  max_age = session_ttl_hours cfg * 3600;
                  session_cookie = session_cookie_text cfg session_token max_age;
                  csrf_cookie = csrf_cookie_text cfg (derive_csrf_token c hmac256 token_hash) max_age
              in if \<not> valid_header session_cookie then (Inl (BadRequest ''Invalid session cookie''), db')
                 else if \<not> valid_header csrf_cookie then (Inl (BadRequest ''Invalid session cookie''), db')
                 else (Inr (LoggedIn u session_cookie csrf_cookie), db')))"

definition check_login_request :: "login_request \<Rightarrow> app_error + string \<times> string \<times> string option" where
  "check_login_request req =
     and_then (normalize_username (lr_username req)) (\<lambda>username.
     and_then (normalize_password (lr_password req)) (\<lambda>password.
     and_then (normalize_optional_totp_code (lr_totp_code req)) (\<lambda>code. Inr (username, password, code))))"

text \<open>The second factor of a login; \<open>None\<close> asks the client for a code.\<close>

definition login_second_factor ::
  "crates \<Rightarrow> crypto_key option \<Rightarrow> call \<Rightarrow> string \<Rightarrow> string \<Rightarrow> string option \<Rightarrow> user \<Rightarrow> auth_db
    \<Rightarrow> (app_error + unit) option \<times> auth_db" where
  "login_second_factor c cell k client_ip username totp_code u db =
     (case totp_config c cell (us_id u) (db_users db) of
        Inl e \<Rightarrow> (Some (Inl e), db)
      | Inr (secret, enabled) \<Rightarrow>
          if \<not> enabled then (Some (Inr ()), db)
          else (case totp_code of
              None \<Rightarrow> (None, db)
            | Some code \<Rightarrow>
                (case secret of
                   None \<Rightarrow> (Some (Inl (Unauthorized ''Invalid credentials'')), db)
                 | Some s \<Rightarrow>
                     (case verify_and_consume_user_totp c (cl_clk k 2) (cl_ids k 0) (us_id u) s code (cl_clk k 1) (db_events db) of
                        (Inl err, events) \<Rightarrow>
                          (Some (Inl (login_totp_error err)),
                           fail_login 3 1 k client_ip username ''invalid totp'' (db\<lparr>db_events := events\<rparr>))
                      | (Inr _, events) \<Rightarrow> (Some (Inr ()), db\<lparr>db_events := events\<rparr>)))))"

definition login ::
  "crates \<Rightarrow> (u8 list \<Rightarrow> u8 list \<Rightarrow> u8 list) \<Rightarrow> crypto_key option \<Rightarrow> env \<Rightarrow> header_decoder \<Rightarrow> (string \<Rightarrow> bool)
    \<Rightarrow> security_config \<Rightarrow> call \<Rightarrow> socket_addr \<Rightarrow> header_map \<Rightarrow> login_request \<Rightarrow> auth_db
    \<Rightarrow> (app_error + login_response) \<times> auth_db" where
  "login c hmac256 cell env to_str valid_header cfg k peer headers req db =
     (case check_login_request req of
        Inl e \<Rightarrow> (Inl e, db)
      | Inr (username, password, totp_code) \<Rightarrow>
          (let client_ip = client_ip_from_headers_and_peer env to_str headers (Some peer);
               user_agent = header_value to_str headers ''user-agent''
           in if active_waf_ban (cl_clk k 0) client_ip (db_bans db) \<noteq> None
              then (Inl (Forbidden ''IP temporarily blocked by WAF''),
                    db\<lparr>db_events := record_waf_event (cl_ids k 0) (cl_clk k 1) client_ip (Some username) ''login_blocked''
                        (Some ''active WAF ban'') (db_events db)\<rparr>)
              else (case find_by_username username (db_users db) of
                  None \<Rightarrow> (Inl (Unauthorized ''Invalid credentials''), fail_login 1 0 k client_ip username ''unknown user'' db)
                | Some u \<Rightarrow>
                    (case verify_password c u password of
                       Inl e \<Rightarrow> (Inl e, db)
                     | Inr False \<Rightarrow>
                         (Inl (Unauthorized ''Invalid credentials''), fail_login 1 0 k client_ip username ''invalid password'' db)
                     | Inr True \<Rightarrow>
                         (case login_second_factor c cell k client_ip username totp_code u db of
                            (None, db') \<Rightarrow> (Inr MfaRequired, db')
                          | (Some (Inl e), db') \<Rightarrow> (Inl e, db')
                          | (Some (Inr _), db') \<Rightarrow>
                              start_session c hmac256 valid_header cfg k client_ip user_agent username u db')))))"

definition logout ::
  "crates \<Rightarrow> (string \<Rightarrow> bool) \<Rightarrow> security_config \<Rightarrow> auth_user \<Rightarrow> auth_db \<Rightarrow> (app_error + string \<times> string) \<times> auth_db" where
  "logout c valid_header cfg au db =
     (case session_delete (uuid_parse c) (as_session_id (au_session au)) (db_sessions db) of
        (Inl _, sessions) \<Rightarrow> (Inl DatabaseError, db\<lparr>db_sessions := sessions\<rparr>)
      | (Inr _, sessions) \<Rightarrow>
          (let db' = db\<lparr>db_sessions := sessions\<rparr>;
               session_cookie = session_cookie_text cfg [] 0;
               csrf_cookie = csrf_cookie_text cfg [] 0
           in if \<not> valid_header session_cookie then (Inl (BadRequest ''Invalid session cookie''), db')
              else if \<not> valid_header csrf_cookie then (Inl (BadRequest ''Invalid session cookie''), db')
              else (Inr (session_cookie, csrf_cookie), db')))"

definition delete_session ::
  "crates \<Rightarrow> crypto_key option \<Rightarrow> header_decoder \<Rightarrow> call \<Rightarrow> auth_user \<Rightarrow> header_map \<Rightarrow> string \<Rightarrow> auth_db
    \<Rightarrow> (app_error + string) \<times> auth_db" where
  "delete_session c cell to_str k au headers i db =
     (case and_then (api_require_cookie_session au) (\<lambda>_. normalize_auth_resource_uuid c i ''session id'') of
        Inl e \<Rightarrow> (Inl e, db)
      | Inr session_id \<Rightarrow>
          if \<not> is_admin (us_role (au_user au)) \<and> session_id \<noteq> as_session_id (au_session au)
          then (Inl (Forbidden ''cannot delete another user's session''), db)
          else (case sensitive c cell to_str k (Inr ()) au headers db of
              (Inl e, db') \<Rightarrow> (Inl e, db')
            | (Inr _, db') \<Rightarrow>
                (case session_delete (uuid_parse c) session_id (db_sessions db') of
                   (Inl _, sessions) \<Rightarrow> (Inl DatabaseError, db'\<lparr>db_sessions := sessions\<rparr>)
                 | (Inr _, sessions) \<Rightarrow> (Inr session_id, db'\<lparr>db_sessions := sessions\<rparr>))))"

section \<open>Users\<close>

record create_user_request =
  cr_username :: string
  cr_password :: string
  cr_role :: string

record update_user_request =
  uq_role :: "string option"
  uq_password :: "string option"

definition revoke_user_credentials :: "datetime \<Rightarrow> u128 \<Rightarrow> auth_db \<Rightarrow> auth_db" where
  "revoke_user_credentials now user_id db =
     db\<lparr>db_sessions := snd (session_delete_for_user user_id (db_sessions db)),
       db_pats := snd (repo_revoke_all_for_user now user_id (db_pats db))\<rparr>"

definition create_user ::
  "crates \<Rightarrow> crypto_key option \<Rightarrow> header_decoder \<Rightarrow> call \<Rightarrow> auth_user \<Rightarrow> header_map \<Rightarrow> create_user_request \<Rightarrow> auth_db
    \<Rightarrow> (app_error + user) \<times> auth_db" where
  "create_user c cell to_str k au headers req db =
     (case sensitive c cell to_str k (require_admin_cookie_session au) au headers db of
        (Inl e, db') \<Rightarrow> (Inl e, db')
      | (Inr _, db') \<Rightarrow>
          (case and_then (normalize_username (cr_username req)) (\<lambda>username.
                and_then (normalize_new_password (cr_password req)) (\<lambda>password.
                and_then (normalize_role (cr_role req)) (\<lambda>role.
                  Inr \<lparr>cu_username = username, cu_password = password, cu_role = role\<rparr>))) of
             Inl e \<Rightarrow> (Inl e, db')
           | Inr input \<Rightarrow>
               (case user_create c (cl_fresh k) (cl_draw k) (cl_clk k 2) input (db_users db') of
                  (res, users) \<Rightarrow> (res, db'\<lparr>db_users := users\<rparr>))))"

definition update_user_role ::
  "call \<Rightarrow> auth_user \<Rightarrow> user \<Rightarrow> string option \<Rightarrow> auth_db \<Rightarrow> (app_error + unit) \<times> auth_db" where
  "update_user_role k au existing role db =
     (case role of
        None \<Rightarrow> (Inr (), db)
      | Some text_role \<Rightarrow>
          (case normalize_role text_role of
             Inl e \<Rightarrow> (Inl e, db)
           | Inr next_role \<Rightarrow>
               if is_admin (us_role existing) \<and> \<not> is_admin next_role \<and> us_id existing = us_id (au_user au)
               then (Inl (BadRequest ''cannot demote your own admin account''), db)
               else if is_admin (us_role existing) \<and> \<not> is_admin next_role \<and> count_admins (db_users db) \<le> 1
               then (Inl (BadRequest ''cannot demote the last admin user''), db)
               else (case update_role (cl_clk k 2) (us_id existing) next_role (db_users db) of
                   (None, users) \<Rightarrow> (Inl (NotFound ''user not found''), db\<lparr>db_users := users\<rparr>)
                 | (Some _, users) \<Rightarrow>
                     (let db' = db\<lparr>db_users := users\<rparr>
                      in (Inr (), if us_role existing \<noteq> next_role
                                  then revoke_user_credentials (cl_clk k 3) (us_id existing) db' else db')))))"

definition update_user_password ::
  "crates \<Rightarrow> call \<Rightarrow> u128 \<Rightarrow> string option \<Rightarrow> auth_db \<Rightarrow> (app_error + unit) \<times> auth_db" where
  "update_user_password c k target_id password db =
     (case password of
        None \<Rightarrow> (Inr (), db)
      | Some p \<Rightarrow>
          (case normalize_new_password p of
             Inl e \<Rightarrow> (Inl e, db)
           | Inr p' \<Rightarrow>
               (case reset_password c (cl_draw k) (cl_clk k 4) target_id p' (db_users db) of
                  (Inl e, users) \<Rightarrow> (Inl e, db\<lparr>db_users := users\<rparr>)
                | (Inr None, users) \<Rightarrow> (Inl (NotFound ''user not found''), db\<lparr>db_users := users\<rparr>)
                | (Inr (Some _), users) \<Rightarrow>
                    (Inr (), revoke_user_credentials (cl_clk k 5) target_id (db\<lparr>db_users := users\<rparr>)))))"

definition update_user ::
  "crates \<Rightarrow> crypto_key option \<Rightarrow> header_decoder \<Rightarrow> call \<Rightarrow> auth_user \<Rightarrow> header_map \<Rightarrow> string \<Rightarrow> update_user_request
    \<Rightarrow> auth_db \<Rightarrow> (app_error + user) \<times> auth_db" where
  "update_user c cell to_str k au headers i req db =
     (case sensitive c cell to_str k (require_admin_cookie_session au) au headers db of
        (Inl e, db1) \<Rightarrow> (Inl e, db1)
      | (Inr _, db1) \<Rightarrow>
          (case and_then (parse_user_id c i) (\<lambda>target_id.
                  ok_or (find_by_id target_id (db_users db1)) (NotFound ''user not found'')) of
             Inl e \<Rightarrow> (Inl e, db1)
           | Inr existing \<Rightarrow>
               (case update_user_role k au existing (uq_role req) db1 of
                  (Inl e, db2) \<Rightarrow> (Inl e, db2)
                | (Inr _, db2) \<Rightarrow>
                    (case update_user_password c k (us_id existing) (uq_password req) db2 of
                       (Inl e, db3) \<Rightarrow> (Inl e, db3)
                     | (Inr _, db3) \<Rightarrow>
                         (ok_or (find_by_id (us_id existing) (db_users db3)) (NotFound ''user not found''), db3)))))"

text \<open>Deleting a user row takes along, by the foreign keys of the schema, the rows that name the user.\<close>

definition cascade_user :: "u128 \<Rightarrow> auth_db \<Rightarrow> auth_db" where
  "cascade_user user_id db =
     db\<lparr>db_users := snd (user_delete user_id (db_users db)),
       db_sessions := filter (\<lambda>r. sr_user_id r \<noteq> user_id) (db_sessions db),
       db_pats := filter (\<lambda>r. pr_user_id r \<noteq> user_id) (db_pats db),
       db_agents := (\<lambda>a. case db_agents db a of
           None \<Rightarrow> None
         | Some agent \<Rightarrow> if ag_owner_user_id agent = user_id then None else Some agent)\<rparr>"

definition delete_user ::
  "crates \<Rightarrow> crypto_key option \<Rightarrow> header_decoder \<Rightarrow> call \<Rightarrow> auth_user \<Rightarrow> header_map \<Rightarrow> string \<Rightarrow> auth_db
    \<Rightarrow> (app_error + unit) \<times> auth_db" where
  "delete_user c cell to_str k au headers i db =
     (case sensitive c cell to_str k (require_admin_cookie_session au) au headers db of
        (Inl e, db1) \<Rightarrow> (Inl e, db1)
      | (Inr _, db1) \<Rightarrow>
          (case and_then (parse_user_id c i) (\<lambda>target_id.
                and_then (ensure (target_id \<noteq> us_id (au_user au)) (BadRequest ''cannot delete your own account'')) (\<lambda>_.
                  ok_or (find_by_id target_id (db_users db1)) (NotFound ''user not found''))) of
             Inl e \<Rightarrow> (Inl e, db1)
           | Inr existing \<Rightarrow>
               if is_admin (us_role existing) \<and> count_admins (db_users db1) \<le> 1
               then (Inl (BadRequest ''cannot delete the last admin user''), db1)
               else (let db2 = revoke_user_credentials (cl_clk k 2) (us_id existing) db1
                     in if fst (user_delete (us_id existing) (db_users db2))
                        then (Inr (), cascade_user (us_id existing) db2)
                        else (Inl (NotFound ''user not found''), db2))))"

section \<open>Managing the second factor\<close>

text \<open>Changing an enabled second factor takes a current code.\<close>

definition confirm_totp ::
  "crates \<Rightarrow> call \<Rightarrow> auth_user \<Rightarrow> string option \<Rightarrow> bool \<Rightarrow> string option \<Rightarrow> string \<Rightarrow> waf_event_row list
    \<Rightarrow> (app_error + unit) \<times> waf_event_row list" where
  "confirm_totp c k au secret enabled code missing events =
     (if \<not> enabled then (Inr (), events)
      else case and_then (ok_or secret (BadRequest ''TOTP secret is missing'')) (\<lambda>s.
                and_then (required_totp_code code missing) (\<lambda>t. Inr (s, t))) of
             Inl e \<Rightarrow> (Inl e, events)
           | Inr (s, t) \<Rightarrow>
               (case verify_and_consume_user_totp c (cl_clk k 1) (cl_ids k 0) (us_id (au_user au)) s t (cl_clk k 0) events of
                  (Inl err, events') \<Rightarrow> (Inl (map_totp_endpoint_error err), events')
                | (Inr _, events') \<Rightarrow> (Inr (), events')))"

definition setup_totp ::
  "crates \<Rightarrow> crypto_key option \<Rightarrow> call \<Rightarrow> auth_user \<Rightarrow> string option \<Rightarrow> u8 list \<Rightarrow> auth_db \<Rightarrow> (app_error + string) \<times> auth_db" where
  "setup_totp c cell k au code nonce db =
     (case and_then (api_require_cookie_session au) (\<lambda>_. totp_config c cell (us_id (au_user au)) (db_users db)) of
        Inl e \<Rightarrow> (Inl e, db)
      | Inr (existing_secret, enabled) \<Rightarrow>
          (case confirm_totp c k au existing_secret enabled code ''Current TOTP code is required'' (db_events db) of
             (Inl e, events) \<Rightarrow> (Inl e, db\<lparr>db_events := events\<rparr>)
           | (Inr _, events) \<Rightarrow>
               (let secret = generate_totp_secret (cl_draw k)
                in case set_totp_secret c cell nonce (cl_clk k 2) (us_id (au_user au)) secret False (db_users db) of
                     (Inl e, users) \<Rightarrow> (Inl e, db\<lparr>db_events := events, db_users := users\<rparr>)
                   | (Inr _, users) \<Rightarrow> (Inr secret, db\<lparr>db_events := events, db_users := users\<rparr>))))"

definition enable_totp ::
  "crates \<Rightarrow> crypto_key option \<Rightarrow> call \<Rightarrow> auth_user \<Rightarrow> string option \<Rightarrow> auth_db \<Rightarrow> (app_error + unit) \<times> auth_db" where
  "enable_totp c cell k au code db =
     (case and_then (api_require_cookie_session au) (\<lambda>_.
           and_then (totp_config c cell (us_id (au_user au)) (db_users db)) (\<lambda>(secret, _).
           and_then (ok_or secret (BadRequest ''TOTP setup has not been started'')) (\<lambda>s.
           and_then (required_totp_code code ''TOTP code is required'') (\<lambda>t. Inr (s, t))))) of
        Inl e \<Rightarrow> (Inl e, db)
      | Inr (s, t) \<Rightarrow>
          (case verify_and_consume_user_totp c (cl_clk k 1) (cl_ids k 0) (us_id (au_user au)) s t (cl_clk k 0) (db_events db) of
             (Inl err, events) \<Rightarrow> (Inl (map_totp_endpoint_error err), db\<lparr>db_events := events\<rparr>)
           | (Inr _, events) \<Rightarrow>
               (Inr (), db\<lparr>db_events := events,
                  db_users := set_totp_enabled (cl_clk k 2) (us_id (au_user au)) True (db_users db)\<rparr>)))"

definition disable_totp ::
  "crates \<Rightarrow> crypto_key option \<Rightarrow> call \<Rightarrow> auth_user \<Rightarrow> string option \<Rightarrow> auth_db \<Rightarrow> (app_error + unit) \<times> auth_db" where
  "disable_totp c cell k au code db =
     (case and_then (api_require_cookie_session au) (\<lambda>_. totp_config c cell (us_id (au_user au)) (db_users db)) of
        Inl e \<Rightarrow> (Inl e, db)
      | Inr (secret, enabled) \<Rightarrow>
          (case confirm_totp c k au secret enabled code ''TOTP code is required'' (db_events db) of
             (Inl e, events) \<Rightarrow> (Inl e, db\<lparr>db_events := events\<rparr>)
           | (Inr _, events) \<Rightarrow>
               (Inr (), db\<lparr>db_events := events,
                  db_users := repo_disable_totp (cl_clk k 2) (us_id (au_user au)) (db_users db)\<rparr>)))"

section \<open>Manual bans\<close>

text \<open>\<open>split\<close> at commas, semicolons and white space, character by character.\<close>

function split_ban_field :: "string \<Rightarrow> string list" where
  "split_ban_field [] = [[]]"
| "split_ban_field (d # ds) =
     (if d = CHR '','' \<or> d = CHR '';'' then [] # split_ban_field ds
      else if 0 < ws_prefix (d # ds) then [] # split_ban_field (drop (ws_prefix (d # ds)) (d # ds))
      else (case split_ban_field ds of w # ws \<Rightarrow> (d # w) # ws | [] \<Rightarrow> [[d]]))"
  by pat_completeness auto
termination by (relation "measure length") auto

fun collect_ban_ips :: "string list \<Rightarrow> string list \<Rightarrow> app_error + string list" where
  "collect_ban_ips [] ips = Inr ips"
| "collect_ban_ips (v # vs) ips =
     (let t = trim v
      in if t = [] then collect_ban_ips vs ips
         else case parse_ip t of
             None \<Rightarrow> Inl (BadRequest (''invalid IP address: '' @ t))
           | Some a \<Rightarrow>
               if show_ip a \<in> set ips then collect_ban_ips vs ips
               else if length ips \<ge> AUTH_MAX_WAF_BAN_IPS
               then Inl (BadRequest (''ips must contain at most '' @ show_nat AUTH_MAX_WAF_BAN_IPS @ '' unique addresses''))
               else collect_ban_ips vs (ips @ [show_ip a]))"

fun collect_ban_fields :: "string list \<Rightarrow> string list \<Rightarrow> app_error + string list" where
  "collect_ban_fields [] ips = Inr ips"
| "collect_ban_fields (raw # raws) ips =
     (if length raw > AUTH_MAX_WAF_IP_FIELD_BYTES
      then Inl (BadRequest (''ip field must be at most '' @ show_nat AUTH_MAX_WAF_IP_FIELD_BYTES @ '' bytes''))
      else and_then (collect_ban_ips (split_ban_field raw) ips) (collect_ban_fields raws))"

definition parse_manual_ban_ips :: "string list \<Rightarrow> app_error + string list" where
  "parse_manual_ban_ips values =
     (if length values > AUTH_MAX_WAF_BAN_IPS
      then Inl (BadRequest (''ips must contain at most '' @ show_nat AUTH_MAX_WAF_BAN_IPS @ '' items''))
      else collect_ban_fields values [])"

text \<open>\<open>truncate_utf8_to_bytes\<close> of this file: whole characters as long as they fit.\<close>

function fitting_chars :: "nat \<Rightarrow> nat \<Rightarrow> string \<Rightarrow> nat" where
  "fitting_chars max_bytes idx [] = idx"
| "fitting_chars max_bytes idx (d # ds) =
     (let next = idx + Suc (length (takeWhile is_continuation ds))
      in if next > max_bytes then idx else fitting_chars max_bytes next (dropWhile is_continuation ds))"
  by pat_completeness auto
termination by (relation "measure (\<lambda>(m, i, s). length s)") (auto simp: le_imp_less_Suc length_dropWhile_le)

definition auth_truncate_utf8 :: "string \<Rightarrow> nat \<Rightarrow> string" where
  "auth_truncate_utf8 v max_bytes =
     (if length v \<le> max_bytes then v else take (fitting_chars max_bytes 0 v) v)"

definition normalize_waf_reason :: "string option \<Rightarrow> string" where
  "normalize_waf_reason v =
     (case v of
        None \<Rightarrow> ''manual WAF ban''
      | Some s \<Rightarrow> if trim s = [] then ''manual WAF ban'' else auth_truncate_utf8 (trim s) AUTH_MAX_WAF_REASON_BYTES)"

definition normalize_waf_minutes :: "int option \<Rightarrow> int" where
  "normalize_waf_minutes v =
     clamp 1 AUTH_MAX_WAF_BAN_MINUTES (case v of None \<Rightarrow> LOGIN_BAN_MINUTES | Some m \<Rightarrow> m)"

record create_waf_bans_request =
  wr_ips :: "string list"
  wr_reason :: "string option"
  wr_minutes :: "int option"

text \<open>One address: the ban, its record, and the row reported back. Three clock readings each.\<close>

fun apply_bans ::
  "(nat \<Rightarrow> datetime) \<Rightarrow> (nat \<Rightarrow> string) \<Rightarrow> string \<Rightarrow> string \<Rightarrow> datetime \<Rightarrow> string list \<Rightarrow> waf_tables
    \<Rightarrow> waf_ban_row list \<times> waf_tables" where
  "apply_bans t i admin_name reason until [] tables = ([], tables)"
| "apply_bans t i admin_name reason until (ip # rest) tables =
     (let bans = upsert_waf_ban (i 0) (t 0) ip reason 0 until (snd tables);
          events = record_waf_event (i 1) (t 1) ip (Some admin_name) ''manual_ban'' (Some reason) (fst tables);
          (views, tables') = apply_bans (shift 3 t) (shift 2 i) admin_name reason until rest (events, bans)
      in (case active_waf_ban (t 2) ip bans of None \<Rightarrow> views | Some b \<Rightarrow> b # views, tables'))"

definition create_waf_bans ::
  "crates \<Rightarrow> crypto_key option \<Rightarrow> header_decoder \<Rightarrow> call \<Rightarrow> auth_user \<Rightarrow> header_map \<Rightarrow> create_waf_bans_request \<Rightarrow> auth_db
    \<Rightarrow> (app_error + waf_ban_row list) \<times> auth_db" where
  "create_waf_bans c cell to_str k au headers req db =
     (case sensitive c cell to_str k (require_admin_cookie_session au) au headers db of
        (Inl e, db') \<Rightarrow> (Inl e, db')
      | (Inr _, db') \<Rightarrow>
          (case and_then (parse_manual_ban_ips (wr_ips req)) (\<lambda>ips.
                  if ips = [] then Inl (BadRequest ''at least one IP is required'') else Inr ips) of
             Inl e \<Rightarrow> (Inl e, db')
           | Inr ips \<Rightarrow>
               (let until = cl_clk k 2 + minutes (normalize_waf_minutes (wr_minutes req));
                    (views, events, bans) = apply_bans (shift 3 (cl_clk k)) (shift 1 (cl_ids k)) (us_username (au_user au))
                        (normalize_waf_reason (wr_reason req)) until ips (db_events db', db_bans db')
                in (Inr views, db'\<lparr>db_events := events, db_bans := bans\<rparr>))))"

definition delete_waf_ban ::
  "crates \<Rightarrow> crypto_key option \<Rightarrow> header_decoder \<Rightarrow> call \<Rightarrow> auth_user \<Rightarrow> header_map \<Rightarrow> string \<Rightarrow> auth_db
    \<Rightarrow> (app_error + string) \<times> auth_db" where
  "delete_waf_ban c cell to_str k au headers i db =
     (case sensitive c cell to_str k (require_admin_cookie_session au) au headers db of
        (Inl e, db') \<Rightarrow> (Inl e, db')
      | (Inr _, db') \<Rightarrow>
          (case normalize_auth_resource_uuid c i ''WAF ban id'' of
             Inl e \<Rightarrow> (Inl e, db')
           | Inr ban_id \<Rightarrow>
               if list_ex (\<lambda>b. wb_id b = ban_id) (db_bans db')
               then (Inr ban_id, db'\<lparr>db_bans := filter (\<lambda>b. wb_id b \<noteq> ban_id) (db_bans db')\<rparr>)
               else (Inl (NotFound ''WAF ban not found''), db')))"

section \<open>Well-formed tables\<close>

definition users_ok :: "user_row list \<Rightarrow> bool" where
  "users_ok rows \<longleftrightarrow> distinct (map ur_id rows) \<and> distinct (map ur_username rows) \<and>
     (\<forall>r \<in> set rows. ur_role r \<in> {''admin'', ''member''})"

lemma user_from_row_ok:
  assumes "ur_role r \<in> {''admin'', ''member''}"
  obtains u where "postgres_user_from_row r = Inr u" "us_id u = ur_id r" "us_username u = ur_username r"
    "is_admin (us_role u) \<longleftrightarrow> ur_role r = ''admin''"
  using assms that by (auto simp: postgres_user_from_row_def role_parse_def is_admin_def result_simps)

lemma user_of_Some:
  assumes "user_of (find P rows) = Some u"
  shows "\<exists>r \<in> set rows. P r \<and> postgres_user_from_row r = Inr u \<and> us_id u = ur_id r \<and> us_username u = ur_username r \<and>
    (is_admin (us_role u) \<longleftrightarrow> ur_role r = ''admin'')"
proof -
  from assms obtain r where r: "find P rows = Some r" "postgres_user_from_row r = Inr u"
    by (auto simp: user_of_def split: option.splits sum.splits)
  from r(2) have "us_id u = ur_id r" "us_username u = ur_username r" "is_admin (us_role u) \<longleftrightarrow> ur_role r = ''admin''"
    by (auto simp: postgres_user_from_row_def role_parse_def is_admin_def result_simps split: if_splits)
  with r find_SomeD [OF r(1)] show ?thesis by blast
qed

lemma find_unique:
  assumes "distinct (map f rows)" "r \<in> set rows"
  shows "find (\<lambda>q. f q = f r) rows = Some r"
  using assms by (induction rows) (auto simp: image_iff dest: sym)

lemma find_by_id_row:
  assumes "users_ok rows" "r \<in> set rows" "postgres_user_from_row r = Inr u"
  shows "find_by_id (ur_id r) rows = Some u"
  using find_unique [of ur_id rows r] assms by (simp add: find_by_id_def user_of_def users_ok_def)

lemma found_user_by_id:
  assumes "users_ok rows" "find_by_username name rows = Some u"
  shows "find_by_id (us_id u) rows = Some u"
  using user_of_Some [of "\<lambda>r. ur_username r = name" rows u] assms find_by_id_row
  by (fastforce simp: find_by_username_def)

lemma find_by_id_id: "find_by_id i rows = Some u \<Longrightarrow> us_id u = i"
  by (auto simp: find_by_id_def dest!: user_of_Some)

section \<open>Login\<close>

lemma shift_apply [simp]: "shift n f i = f (n + i)"
  by (simp add: shift_def)

lemma fail_login_users [simp]:
  "db_users (fail_login t i k ip name reason db) = db_users db"
  "db_sessions (fail_login t i k ip name reason db) = db_sessions db"
  "db_pats (fail_login t i k ip name reason db) = db_pats db"
  by (simp_all add: fail_login_def split: prod.splits)

lemma login_second_factor_passed:
  assumes "login_second_factor c cell k ip name code u db = (Some (Inr x), db')"
  shows "(\<exists>events. db' = db\<lparr>db_events := events\<rparr>) \<and>
    (\<exists>secret enabled. totp_config c cell (us_id u) (db_users db) = Inr (secret, enabled) \<and>
      (enabled \<longrightarrow> (\<exists>s d. secret = Some s \<and> code = Some d \<and>
         fst (verify_and_consume_user_totp c (cl_clk k 2) (cl_ids k 0) (us_id u) s d (cl_clk k 1) (db_events db)) = Inr ())))"
proof -
  obtain secret enabled where cfg: "totp_config c cell (us_id u) (db_users db) = Inr (secret, enabled)"
    using assms by (auto simp: login_second_factor_def split: sum.splits)
  show ?thesis
  proof (cases enabled)
    case False
    with cfg assms have "db' = db" by (simp add: login_second_factor_def)
    with cfg False show ?thesis by (auto intro: exI [of _ "db_events db"])
  next
    case True
    with cfg assms obtain s d where sd: "secret = Some s" "code = Some d"
      by (auto simp: login_second_factor_def split: option.splits)
    obtain res events where run:
        "verify_and_consume_user_totp c (cl_clk k 2) (cl_ids k 0) (us_id u) s d (cl_clk k 1) (db_events db) = (res, events)"
      by fastforce
    with cfg True sd assms have "res = Inr ()" "db' = db\<lparr>db_events := events\<rparr>"
      by (auto simp: login_second_factor_def split: sum.splits)
    with cfg sd run show ?thesis by auto
  qed
qed

text \<open>The session a successful login has created.\<close>

abbreviation login_token :: "crates \<Rightarrow> call \<Rightarrow> string" where
  "login_token c k \<equiv> generate_session_token (hex_encode c) (cl_draw k)"

abbreviation login_hash :: "crates \<Rightarrow> call \<Rightarrow> string" where
  "login_hash c k \<equiv> hash_token (hex_encode c) (sha256 c) (login_token c k)"

lemma start_session_logged_in:
  assumes "start_session c hmac256 valid_header cfg k ip agent name u db = (Inr (LoggedIn v sc cc), db')"
  obtains input row where "v = u" "cs_user_id input = us_id u"
    "cs_expires_at input = cl_clk k 3 + hours (session_ttl_hours cfg)"
    "session_create (cl_fresh k) (cl_clk k 4) input (login_hash c k) (db_sessions db) = (Inr row, db_sessions db')"
    "db_users db' = db_users db" "db_pats db' = db_pats db"
    "sc = session_cookie_text cfg (login_token c k) (session_ttl_hours cfg * 3600)"
    "cc = csrf_cookie_text cfg (derive_csrf_token c hmac256 (login_hash c k)) (session_ttl_hours cfg * 3600)"
proof -
  let ?input = "\<lparr>cs_user_id = us_id u, cs_ip = Some ip, cs_user_agent = agent,
      cs_expires_at = cl_clk k 3 + hours (session_ttl_hours cfg)\<rparr>"
  obtain res sessions where run: "session_create (cl_fresh k) (cl_clk k 4) ?input (login_hash c k) (db_sessions db) = (res, sessions)"
    by fastforce
  with assms obtain row where "res = Inr row"
    by (cases res) (auto simp: start_session_def Let_def)
  with assms run that [of ?input row] show ?thesis
    by (auto simp: start_session_def Let_def split: if_splits)
qed

lemma login_logged_in:
  assumes "login c hmac256 cell env to_str valid_header cfg k peer headers req db = (Inr (LoggedIn v sc cc), db')"
  obtains name password code db1 agent where
    "check_login_request req = Inr (name, password, code)"
    "active_waf_ban (cl_clk k 0) (client_ip_from_headers_and_peer env to_str headers (Some peer)) (db_bans db) = None"
    "find_by_username name (db_users db) = Some v" "verify_password c v password = Inr True"
    "login_second_factor c cell k (client_ip_from_headers_and_peer env to_str headers (Some peer)) name code v db
       = (Some (Inr ()), db1)"
    "start_session c hmac256 valid_header cfg k (client_ip_from_headers_and_peer env to_str headers (Some peer)) agent name v db1
       = (Inr (LoggedIn v sc cc), db')"
proof -
  let ?ip = "client_ip_from_headers_and_peer env to_str headers (Some peer)"
  obtain name password code where req: "check_login_request req = Inr (name, password, code)"
    using assms by (cases "check_login_request req") (auto simp: login_def)
  have ban: "active_waf_ban (cl_clk k 0) ?ip (db_bans db) = None"
    using assms req by (auto simp: login_def Let_def split: if_splits)
  obtain u where u: "find_by_username name (db_users db) = Some u"
    using assms req ban by (auto simp: login_def Let_def split: option.splits)
  have pw: "verify_password c u password = Inr True"
    using assms req ban u by (auto simp: login_def Let_def split: sum.splits bool.splits)
  obtain f db1 where f: "login_second_factor c cell k ?ip name code u db = (f, db1)" by fastforce
  have "f = Some (Inr ())"
    using assms req ban u pw f by (auto simp: login_def Let_def split: sum.splits option.splits)
  with assms req ban u pw f have fin: "start_session c hmac256 valid_header cfg k ?ip
      (header_value to_str headers ''user-agent'') name u db1 = (Inr (LoggedIn v sc cc), db')"
    by (simp add: login_def Let_def)
  then have "v = u" by (rule start_session_logged_in)
  with that req ban u pw f \<open>f = Some (Inr ())\<close> fin show ?thesis by blast
qed

text \<open>
  (C4) A login succeeds only with every factor: the address is not banned, the name is that of a user,
  the password matches the stored hash, and when the second factor is enabled the code was
  accepted for the user's secret. The session it stores belongs to that user.
\<close>

theorem login_needs_every_factor:
  assumes "login c hmac256 cell env to_str valid_header cfg k peer headers req db = (Inr (LoggedIn u sc cc), db')"
  shows "active_waf_ban (cl_clk k 0) (client_ip_from_headers_and_peer env to_str headers (Some peer)) (db_bans db) = None \<and>
    find_by_username (trim (lr_username req)) (db_users db) = Some u \<and>
    argon_verify c (us_password_hash u) (lr_password req) = Some True \<and>
    (\<exists>secret enabled. totp_config c cell (us_id u) (db_users db) = Inr (secret, enabled) \<and>
       (enabled \<longrightarrow> (\<exists>s code. secret = Some s \<and> map_option trim (lr_totp_code req) = Some code \<and>
          fst (verify_and_consume_user_totp c (cl_clk k 2) (cl_ids k 0) (us_id u) s code (cl_clk k 1) (db_events db)) = Inr ()))) \<and>
    (\<exists>row \<in> set (db_sessions db'). sr_user_id row = us_id u \<and> sr_token_hash row = login_hash c k)"
proof -
  from assms obtain name password code db1 agent where parts:
      "check_login_request req = Inr (name, password, code)"
      "active_waf_ban (cl_clk k 0) (client_ip_from_headers_and_peer env to_str headers (Some peer)) (db_bans db) = None"
      "find_by_username name (db_users db) = Some u" "verify_password c u password = Inr True"
      "login_second_factor c cell k (client_ip_from_headers_and_peer env to_str headers (Some peer)) name code u db
         = (Some (Inr ()), db1)"
      "start_session c hmac256 valid_header cfg k (client_ip_from_headers_and_peer env to_str headers (Some peer)) agent name u db1
         = (Inr (LoggedIn u sc cc), db')"
    by (rule login_logged_in)
  have fields: "name = trim (lr_username req)" "password = lr_password req"
      "\<And>d. code = Some d \<Longrightarrow> map_option trim (lr_totp_code req) = Some d"
    using parts(1)
    by (auto simp: check_login_request_def normalize_username_def normalize_required_auth_text_def normalize_password_def
        normalize_optional_totp_code_def normalize_totp_code_def Let_def result_simps split: if_splits option.splits)
  have hash: "argon_verify c (us_password_hash u) password = Some True"
    using parts(4) by (auto simp: verify_password_def result_simps split: if_splits)
  from parts(6) obtain input row where made: "cs_user_id input = us_id u"
      "session_create (cl_fresh k) (cl_clk k 4) input (login_hash c k) (db_sessions db1) = (Inr row, db_sessions db')"
    by (rule start_session_logged_in)
  have "row \<in> set (db_sessions db') \<and> sr_user_id row = us_id u \<and> sr_token_hash row = login_hash c k"
    using session_create_ok(1-4) [OF made(2)] made(1) by simp
  then have stored: "\<exists>row \<in> set (db_sessions db'). sr_user_id row = us_id u \<and> sr_token_hash row = login_hash c k"
    by blast
  from login_second_factor_passed [OF parts(5)] fields(3)
  have factor: "\<exists>secret enabled. totp_config c cell (us_id u) (db_users db) = Inr (secret, enabled) \<and>
       (enabled \<longrightarrow> (\<exists>s code. secret = Some s \<and> map_option trim (lr_totp_code req) = Some code \<and>
          fst (verify_and_consume_user_totp c (cl_clk k 2) (cl_ids k 0) (us_id u) s code (cl_clk k 1) (db_events db)) = Inr ()))"
    by blast
  show ?thesis using parts(2,3) hash factor stored unfolding fields(1,2) by blast
qed

text \<open>
  (C9) A login is good until it expires: with the cookie it has set, a request that presents no token
  is authenticated as the user, with the user's role and the CSRF token of the second cookie,
  exactly while the clock is before the end of the session's life time.
\<close>

theorem login_session_works:
  assumes "login c hmac256 cell env to_str valid_header cfg k peer headers req db = (Inr (LoggedIn u sc cc), db')"
    and "users_ok (db_users db)" "hex_law (hex_encode c) (hex_decode c)" "length (cl_draw k) = 32"
    and "pat_bearer_token_from_headers to_str' (rq_headers req') = Inr None" "\<not> state_changing (rq_method req')"
    and "rq_session_cookie req' = Some (login_token c k)"
  shows "\<exists>s. as_user_id s = us_id u \<and> as_role s = us_role u \<and> as_auth_kind s = Session \<and>
    cc = csrf_cookie_text cfg (as_csrf_token s) (session_ttl_hours cfg * 3600) \<and>
    session_middleware c hmac256 env' to_str' (\<lambda>_. False) t ids req' db' =
      (Forward (if t 0 < cl_clk k 3 + hours (session_ttl_hours cfg) then Authenticated s u else Anonymous), db')"
proof -
  from assms(1) obtain name password code db1 agent ip where found: "find_by_username name (db_users db) = Some u"
      and second: "login_second_factor c cell k ip name code u db = (Some (Inr ()), db1)"
      and start: "start_session c hmac256 valid_header cfg k ip agent name u db1 = (Inr (LoggedIn u sc cc), db')"
    by (rule login_logged_in)
  from start obtain input row where made: "cs_user_id input = us_id u"
      "cs_expires_at input = cl_clk k 3 + hours (session_ttl_hours cfg)"
      "session_create (cl_fresh k) (cl_clk k 4) input (login_hash c k) (db_sessions db1) = (Inr row, db_sessions db')"
      "db_users db' = db_users db1"
      "cc = csrf_cookie_text cfg (derive_csrf_token c hmac256 (login_hash c k)) (session_ttl_hours cfg * 3600)"
    by (rule start_session_logged_in)
  have "db_users db1 = db_users db" using login_second_factor_passed [OF second] by auto
  then have user: "find_by_id (sr_user_id row) (db_users db') = Some u"
    using found_user_by_id [OF assms(2) found] session_create_ok(3) [OF made(3)] made(1,4) by simp
  have "session_cookie_token_is_valid (login_token c k)"
    using assms(3,4) by (simp add: session_cookie_token_is_valid_def generate_session_token_def hex_law_def limit_simps)
  then have "authenticate_cookie c hmac256 (\<lambda>_. False) (t 0) (Some (login_token c k)) db' =
      (if t 0 < sr_expires_at row
       then Authenticated \<lparr>as_session_id = uuid_show c (sr_id row), as_user_id = us_id u, as_username = us_username u,
          as_role = us_role u, as_csrf_token = derive_csrf_token c hmac256 (login_hash c k), as_auth_kind = Session,
          as_scopes = [], as_server_ids = None, as_pat_id = None\<rparr> u
       else Anonymous)"
    using user by (simp add: authenticate_cookie_def Let_def find_created [OF made(3)])
  with assms(5-7) made(2,5) session_create_ok(5) [OF made(3)] show ?thesis
    by (intro exI [of _ "\<lparr>as_session_id = uuid_show c (sr_id row), as_user_id = us_id u, as_username = us_username u,
          as_role = us_role u, as_csrf_token = derive_csrf_token c hmac256 (login_hash c k), as_auth_kind = Session,
          as_scopes = [], as_server_ids = None, as_pat_id = None\<rparr>"])
       (simp add: session_middleware_def Let_def admit_def)
qed

section \<open>Lock-out\<close>

text \<open>The address has a ban, and no ban of it ends before \<open>until\<close>.\<close>

definition ban_held :: "datetime \<Rightarrow> string \<Rightarrow> waf_ban_row list \<Rightarrow> bool" where
  "ban_held until ip bans \<longleftrightarrow>
     (\<exists>b \<in> set bans. wb_ip b = ip) \<and> (\<forall>b \<in> set bans. wb_ip b = ip \<longrightarrow> until \<le> wb_banned_until b)"

lemma ban_held_active: "ban_held until ip bans \<Longrightarrow> t < until \<Longrightarrow> active_waf_ban t ip bans \<noteq> None"
  unfolding ban_held_def active_waf_ban_def find_None_iff by force

lemma ban_held_upsert: "ban_held until ip (upsert_waf_ban i now ip reason n until' bans) \<longleftrightarrow> until \<le> until'"
  by (auto simp: ban_held_def upsert_waf_ban_def ball_update_where bex_update_where list_ex_iff)

lemma ban_held_upsert_keep:
  "ban_held until ip bans \<Longrightarrow> ip' \<noteq> ip \<or> until \<le> until' \<Longrightarrow>
   ban_held until ip (upsert_waf_ban i now ip' reason n until' bans)"
  by (auto simp: ban_held_def upsert_waf_ban_def ball_update_where bex_update_where list_ex_iff)

lemma register_failure_keeps_ban:
  assumes "register_failure outcome why clk ids ip' who reason (events, bans) = (events', bans')"
    and "ban_held until ip bans" "until \<le> clk 2 + minutes 30"
  shows "ban_held until ip bans'"
  using assms by (auto simp: register_failure_def Let_def limit_simps ban_held_upsert_keep split: if_splits)

lemma register_failure_bans:
  assumes "register_failure outcome why clk ids ip who reason (events, bans) = (events', bans')"
    and "4 \<le> count_recent_auth_failures ip (clk 1 - minutes 15) events" "clk 1 - minutes 15 \<le> clk 0"
    and "outcome \<in> set auth_failure_outcomes"
  shows "ban_held (clk 2 + minutes 30) ip bans'"
proof -
  let ?events = "record_waf_event (ids 0) (clk 0) ip who outcome (Some reason) events"
  have "5 \<le> count_recent_auth_failures ip (clk 1 - minutes 15) ?events"
    using assms(2-4) by (simp add: count_recent_auth_failures_def record_waf_event_def Let_def)
  with assms(1) show ?thesis by (auto simp: register_failure_def Let_def limit_simps ban_held_upsert)
qed

lemmas register_failure_defs = register_login_failure_def register_oauth_failure_def register_pat_failure_def
  register_agent_auth_failure_def

text \<open>
  What may happen to the tables after a moment \<open>t0\<close> without an administrator touching the bans of
  \<open>ip\<close>: logins and requests of anyone, failed logins with a provider and failed agent
  authentications from any address, bans an administrator sets on or lifts from other addresses,
  and whatever leaves the table of bans alone. Their clock readings are not before \<open>t0\<close>.
\<close>

inductive guard_step :: "crates \<Rightarrow> datetime \<Rightarrow> string \<Rightarrow> auth_db \<Rightarrow> auth_db \<Rightarrow> bool" for c t0 ip where
  guard_login: "login c hmac256 cell env to_str valid_header cfg k peer headers req db = (res, db') \<Longrightarrow>
    \<forall>i. t0 \<le> cl_clk k i \<Longrightarrow> guard_step c t0 ip db db'"
| guard_request: "session_middleware c hmac256 env to_str faults t ids rq db = (verdict, db') \<Longrightarrow>
    \<forall>i. t0 \<le> t i \<Longrightarrow> guard_step c t0 ip db db'"
| guard_oauth: "register_oauth_failure t ids ip' who reason (db_events db, db_bans db) = (events, bans) \<Longrightarrow>
    \<forall>i. t0 \<le> t i \<Longrightarrow> guard_step c t0 ip db (db\<lparr>db_events := events, db_bans := bans\<rparr>)"
| guard_agent: "register_agent_auth_failure t ids ip' who reason (db_events db, db_bans db) = (events, bans) \<Longrightarrow>
    \<forall>i. t0 \<le> t i \<Longrightarrow> guard_step c t0 ip db (db\<lparr>db_events := events, db_bans := bans\<rparr>)"
| guard_create_bans: "create_waf_bans c cell to_str k au headers breq db = (bres, db') \<Longrightarrow>
    \<forall>ips. parse_manual_ban_ips (wr_ips breq) = Inr ips \<longrightarrow> ip \<notin> set ips \<Longrightarrow> guard_step c t0 ip db db'"
| guard_delete_ban: "delete_waf_ban c cell to_str k au headers i db = (dres, db') \<Longrightarrow>
    \<forall>b \<in> set (db_bans db). wb_ip b = ip \<longrightarrow> normalize_auth_resource_uuid c i ''WAF ban id'' \<noteq> Inr (wb_id b) \<Longrightarrow>
    guard_step c t0 ip db db'"
| guard_other: "db_bans db' = db_bans db \<Longrightarrow> guard_step c t0 ip db db'"

lemma fail_login_keeps_ban:
  assumes "ban_held (t0 + minutes 30) ip (db_bans db)" "\<forall>i. t0 \<le> cl_clk k i"
  shows "ban_held (t0 + minutes 30) ip (db_bans (fail_login n i k ip' name reason db))"
proof -
  obtain events bans where run: "register_login_failure (shift n (cl_clk k)) (shift i (cl_ids k)) ip' name reason
      (db_events db, db_bans db) = (events, bans)" by fastforce
  have "t0 + minutes 30 \<le> shift n (cl_clk k) 2 + minutes 30" using assms(2) by (simp add: shift_def)
  from register_failure_keeps_ban [OF run [unfolded register_failure_defs] assms(1) this] run show ?thesis
    by (simp add: fail_login_def)
qed

lemma fail_pat_keeps_ban:
  assumes "ban_held (t0 + minutes 30) ip (db_bans db)" "\<forall>i. t0 \<le> t i"
  shows "ban_held (t0 + minutes 30) ip (db_bans (fail_pat t ids ip' who reason db))"
proof -
  obtain events bans where run: "register_pat_failure t ids ip' who reason (db_events db, db_bans db) = (events, bans)"
    by fastforce
  with register_failure_keeps_ban [OF run [unfolded register_failure_defs] assms(1)] assms(2) show ?thesis
    by (simp add: fail_pat_def)
qed

lemma apply_bans_keeps_ban:
  "ban_held until ip (snd tables) \<Longrightarrow> ip \<notin> set ips \<Longrightarrow>
   ban_held until ip (snd (snd (apply_bans t i admin reason until' ips tables)))"
  by (induction t i admin reason until' ips tables rule: apply_bans.induct)
     (auto simp: Let_def ban_held_upsert_keep split: prod.splits)

lemma start_session_bans:
  "db_bans (snd (start_session c hmac256 valid_header cfg k client_ip agent name u db)) = db_bans db"
  by (auto simp: start_session_def Let_def split: prod.splits sum.splits)

lemma second_factor_keeps_ban:
  assumes "ban_held (t0 + minutes 30) ip (db_bans db)" "\<forall>i. t0 \<le> cl_clk k i"
  shows "ban_held (t0 + minutes 30) ip (db_bans (snd (login_second_factor c cell k client_ip name code u db)))"
  using assms fail_login_keeps_ban [OF _ assms(2)]
  by (auto simp: login_second_factor_def split: prod.splits sum.splits option.splits)

lemma login_keeps_ban:
  assumes "ban_held (t0 + minutes 30) ip (db_bans db)" "\<forall>i. t0 \<le> cl_clk k i"
  shows "ban_held (t0 + minutes 30) ip
    (db_bans (snd (login c hmac256 cell env to_str valid_header cfg k peer headers req db)))"
proof (cases "check_login_request req")
  case (Inr parts)
  obtain name password code where parts: "parts = (name, password, code)" by (cases parts)
  let ?ip = "client_ip_from_headers_and_peer env to_str headers (Some peer)"
  have second: "ban_held (t0 + minutes 30) ip (db_bans (snd (login_second_factor c cell k ?ip name code u db)))" for u
    by (rule second_factor_keeps_ban [OF assms])
  have "ban_held (t0 + minutes 30) ip (db_bans db')"
    if "login_second_factor c cell k ?ip name code u db = (res, db')" for u res db'
    using second [of u] that by simp
  then show ?thesis
    using assms fail_login_keeps_ban [OF assms]
    by (auto simp: login_def Inr parts Let_def start_session_bans split: option.splits sum.splits bool.splits prod.splits)
qed (simp add: login_def assms)

lemma use_pat_keeps_ban:
  assumes "ban_held (t0 + minutes 30) ip (db_bans db)" "\<forall>i. t0 \<le> t i"
  shows "ban_held (t0 + minutes 30) ip (db_bans (snd (use_pat c faults t ids ip' pat db)))"
  using assms fail_pat_keeps_ban [OF assms(1), of "\<lambda>i. t (i + 1)"]
  by (auto simp: use_pat_def Let_def split: option.splits sum.splits)

lemma request_keeps_ban:
  assumes "ban_held (t0 + minutes 30) ip (db_bans db)" "\<forall>i. t0 \<le> t i"
  shows "ban_held (t0 + minutes 30) ip (db_bans (snd (session_middleware c hmac256 env to_str faults t ids rq db)))"
proof -
  have "ban_held (t0 + minutes 30) ip (db_bans (snd (authenticate_pat c faults t ids ip' token db)))" for ip' token
    using assms fail_pat_keeps_ban [OF assms(1), of "\<lambda>i. t (i + 1)"] use_pat_keeps_ban [OF assms(1), of "\<lambda>i. t (i + 1)"]
    by (auto simp: authenticate_pat_def split: option.splits)
  then have "ban_held (t0 + minutes 30) ip (db_bans db')"
    if "authenticate_pat c faults t ids ip' token db = (out, db')" for ip' token out db'
    using that by (metis snd_conv)
  then show ?thesis
    using assms fail_pat_keeps_ban [OF assms]
    by (auto simp: session_middleware_def Let_def split: sum.splits option.splits prod.splits pat_outcome.splits)
qed

lemma sensitive_bans: "db_bans (snd (sensitive c cell to_str k guard au headers db)) = db_bans db"
  by (auto simp: sensitive_def split: sum.splits prod.splits)

lemma create_bans_keeps_ban:
  assumes "ban_held until ip (db_bans db)" "\<forall>ips. parse_manual_ban_ips (wr_ips breq) = Inr ips \<longrightarrow> ip \<notin> set ips"
  shows "ban_held until ip (db_bans (snd (create_waf_bans c cell to_str k au headers breq db)))"
proof -
  obtain res db1 where s: "sensitive c cell to_str k (require_admin_cookie_session au) au headers db = (res, db1)" by fastforce
  with sensitive_bans [of c cell to_str k _ au headers db] assms(1) have "ban_held until ip (db_bans db1)" by (metis snd_conv)
  then have bans: "ban_held until ip bans" if "apply_bans t i admin reason until' ips (db_events db1, db_bans db1) = (views, events, bans)"
      "ip \<notin> set ips" for t i admin reason until' ips views events bans
    using apply_bans_keeps_ban [of until ip "(db_events db1, db_bans db1)" ips t i admin reason until'] that by simp
  show ?thesis
    using \<open>ban_held until ip (db_bans db1)\<close> assms(2) bans
    by (auto simp: create_waf_bans_def s Let_def result_simps split: sum.splits prod.splits if_splits)
qed

lemma delete_ban_keeps_ban:
  assumes "ban_held until ip (db_bans db)"
    and "\<forall>b \<in> set (db_bans db). wb_ip b = ip \<longrightarrow> normalize_auth_resource_uuid c i ''WAF ban id'' \<noteq> Inr (wb_id b)"
  shows "ban_held until ip (db_bans (snd (delete_waf_ban c cell to_str k au headers i db)))"
proof -
  obtain res db1 where s: "sensitive c cell to_str k (require_admin_cookie_session au) au headers db = (res, db1)" by fastforce
  with sensitive_bans [of c cell to_str k _ au headers db] have "db_bans db1 = db_bans db" by (metis snd_conv)
  with assms show ?thesis
    by (auto simp: delete_waf_ban_def s ban_held_def split: sum.splits)
qed

lemma guard_step_keeps_ban:
  assumes "guard_step c t0 ip db db'" "ban_held (t0 + minutes 30) ip (db_bans db)"
  shows "ban_held (t0 + minutes 30) ip (db_bans db')"
  using assms
proof (induction rule: guard_step.induct)
  case (guard_login hmac256 cell env to_str valid_header cfg k peer headers req db res db')
  then show ?case using login_keeps_ban by (metis snd_conv)
next
  case (guard_request hmac256 env to_str faults t ids rq db verdict db')
  then show ?case using request_keeps_ban by (metis snd_conv)
next
  case (guard_oauth t ids ip' who reason db events bans)
  then show ?case using register_failure_keeps_ban [OF guard_oauth.hyps(1) [unfolded register_failure_defs]] by simp
next
  case (guard_agent t ids ip' who reason db events bans)
  then show ?case using register_failure_keeps_ban [OF guard_agent.hyps(1) [unfolded register_failure_defs]] by simp
next
  case (guard_create_bans cell to_str k au headers breq db bres db')
  then show ?case using create_bans_keeps_ban by (metis snd_conv)
next
  case (guard_delete_ban cell to_str k au headers i db dres db')
  then show ?case using delete_ban_keeps_ban by (metis snd_conv)
next
  case (guard_other db' db)
  then show ?case by simp
qed

lemma guard_steps_keep_ban:
  "(guard_step c t0 ip)\<^sup>*\<^sup>* db db' \<Longrightarrow> ban_held (t0 + minutes 30) ip (db_bans db) \<Longrightarrow>
   ban_held (t0 + minutes 30) ip (db_bans db')"
  by (induction rule: rtranclp_induct) (auto dest: guard_step_keeps_ban)

text \<open>
  (C10) Five failures lock an address out: when a failure of any of the four kinds (login, provider,
  token, agent) is registered and four failures of the same address lie within the last fifteen
  minutes, then for the thirty minutes after it every login from the address fails and stores no
  session, whatever its credentials, and every personal access token presented from it is refused
  as long as the query for bans does not fail. This holds after any number of further logins,
  requests and failures of every address, and bans set on or lifted from other addresses; only an
  administrator changing the ban of this address can end it earlier.
\<close>

theorem five_failures_lock_out:
  assumes "(events, bans) \<in> {register_login_failure clk ids ip name reason tables,
        register_oauth_failure clk ids ip who reason tables, register_pat_failure clk ids ip who reason tables,
        register_agent_auth_failure clk ids ip who reason tables}"
    and "4 \<le> count_recent_auth_failures ip (clk 1 - minutes 15) (fst tables)" "clk 1 - minutes 15 \<le> clk 0"
    and "db_bans db = bans" "(guard_step c (clk 2) ip)\<^sup>*\<^sup>* db db2"
    and "client_ip_from_headers_and_peer env to_str headers (Some peer) = ip"
    and "cl_clk k2 0 < clk 2 + minutes 30"
  shows "(\<exists>e db3. login c hmac256 cell env to_str valid_header cfg k2 peer headers req db2 = (Inl e, db3) \<and>
      db_sessions db3 = db_sessions db2) \<and>
    (\<not> faults BanQuery \<longrightarrow> (\<exists>db3. authenticate_pat c faults (cl_clk k2) ids2 ip token db2 = (PatBlocked, db3)))"
proof (intro conjI impI)
  obtain events0 bans0 where tables: "tables = (events0, bans0)" by (cases tables)
  have "\<exists>outcome why who. outcome \<in> set auth_failure_outcomes \<and>
      register_failure outcome why clk ids ip who reason (events0, bans0) = (events, bans)"
    using assms(1) unfolding tables register_failure_defs auth_failure_outcomes_def by force
  then have "ban_held (clk 2 + minutes 30) ip bans"
    using assms(2,3) register_failure_bans unfolding tables by (metis fst_conv)
  then have "ban_held (clk 2 + minutes 30) ip (db_bans db2)"
    using guard_steps_keep_ban [OF assms(5)] assms(4) by simp
  then have banned: "active_waf_ban (cl_clk k2 0) ip (db_bans db2) \<noteq> None"
    using ban_held_active assms(7) by blast
  show "\<exists>e db3. login c hmac256 cell env to_str valid_header cfg k2 peer headers req db2 = (Inl e, db3) \<and>
      db_sessions db3 = db_sessions db2"
    using banned assms(6) by (cases "check_login_request req") (auto simp: login_def Let_def)
  show "\<exists>db3. authenticate_pat c faults (cl_clk k2) ids2 ip token db2 = (PatBlocked, db3)" if "\<not> faults BanQuery"
    using banned that by (auto simp: authenticate_pat_def)
qed

section \<open>Revocation of a user\<close>

definition no_credentials :: "u128 \<Rightarrow> auth_db \<Rightarrow> bool" where
  "no_credentials user_id db \<longleftrightarrow>
     (\<forall>r \<in> set (db_sessions db). sr_user_id r \<noteq> user_id) \<and>
     (\<forall>r \<in> set (db_pats db). pr_user_id r = user_id \<longrightarrow> pr_revoked_at r \<noteq> None)"

lemma revoke_no_credentials: "no_credentials user_id (revoke_user_credentials now user_id db)"
proof -
  have "\<forall>r \<in> set (update_where (\<lambda>r. pr_user_id r = user_id \<and> pr_revoked_at r = None)
      (\<lambda>r. r\<lparr>pr_revoked_at := Some now\<rparr>) (db_pats db)). pr_user_id r = user_id \<longrightarrow> pr_revoked_at r \<noteq> None"
    unfolding ball_update_where by simp
  then show ?thesis
    by (simp add: no_credentials_def revoke_user_credentials_def session_delete_for_user_def repo_revoke_all_for_user_def Let_def)
qed

lemma revoke_users [simp]: "db_users (revoke_user_credentials now user_id db) = db_users db"
  by (simp add: revoke_user_credentials_def)

lemma cookie_user:
  assumes "authenticate_cookie c hmac256 faults now cookie db = Authenticated s v"
  shows "\<exists>r \<in> set (db_sessions db). sr_user_id r = us_id v"
proof -
  from assms obtain token row where
      t: "session_find_by_token_hash now (hash_token (hex_encode c) (sha256 c) token) (db_sessions db) = Some row"
        "find_by_id (sr_user_id row) (db_users db) = Some v"
    by (auto simp: authenticate_cookie_def Let_def split: option.splits if_splits)
  then have "row \<in> set (db_sessions db)"
    by (auto simp: session_find_by_token_hash_def split: option.splits sum.splits if_splits dest: find_SomeD)
  with find_by_id_id [OF t(2)] show ?thesis by auto
qed

lemma pat_user:
  assumes "authenticate_pat c faults clk ids ip token db = (PatGranted s v, db')"
  shows "\<exists>r \<in> set (db_pats db). pr_user_id r = us_id v \<and> pr_revoked_at r = None"
proof -
  from authenticate_pat_granted(2) [OF assms] obtain p where p:
      "repo_find_by_token_hash (uuid_parse c) (uuid_show c) (hash_token (hex_encode c) (sha256 c) token) (db_pats db) = Some p"
      "use_pat c faults (\<lambda>i. clk (i + 1)) ids ip p db = (PatGranted s v, db')" by blast
  from repo_find_row [OF p(1)] obtain r where "r \<in> set (db_pats db)" "pr_revoked_at r = None"
      "row_to_pat (uuid_parse c) (uuid_show c) r = Some p" by blast
  with row_to_pat_columns(1) find_by_id_id [OF use_pat_granted(3) [OF p(2)]] show ?thesis by metis
qed

lemma no_credentials_shut_out:
  assumes "no_credentials user_id db"
    and "session_middleware c hmac256 env to_str faults clk ids req db = (Forward (Authenticated s v), db')"
  shows "us_id v \<noteq> user_id"
  using assms(2)
proof (cases rule: session_middleware_cases)
  case (pat token)
  from pat_user [OF pat(2)] assms(1) show ?thesis unfolding no_credentials_def by metis
next
  case cookie
  from cookie_user [OF cookie(2)] assms(1) show ?thesis unfolding no_credentials_def by metis
qed

lemma role_text_parse: "role_parse (role_text role) = Inr role"
  by (cases role) (simp_all add: role_parse_def)

lemma update_role_found:
  assumes "update_role now i role rows = (Some u, rows')"
  shows "us_role u = role" "us_id u = i"
proof -
  from assms have found: "find_by_id i rows' = Some u"
      and rows': "rows' = update_where (\<lambda>r. ur_id r = i) (\<lambda>r. r\<lparr>ur_role := role_text role, ur_updated_at := now\<rparr>) rows"
    by (auto simp: update_role_def Let_def)
  from found user_of_Some obtain r where "r \<in> set rows'" "ur_id r = i" "postgres_user_from_row r = Inr u"
    unfolding find_by_id_def by blast
  moreover have "\<forall>r \<in> set rows'. ur_id r = i \<longrightarrow> ur_role r = role_text role"
    unfolding rows' ball_update_where by simp
  ultimately show "us_role u = role" "us_id u = i"
    by (auto simp: postgres_user_from_row_def role_text_parse result_simps)
qed

lemma sensitive_frame:
  assumes "sensitive c cell to_str k guard au headers db = (res, db')"
  shows "\<exists>events. db' = db\<lparr>db_events := events\<rparr>" and "res = Inr x \<Longrightarrow> guard = Inr ()"
proof -
  show "\<exists>events. db' = db\<lparr>db_events := events\<rparr>"
    using assms by (cases guard) (auto simp: sensitive_def intro: exI [of _ "db_events db"] split: prod.splits)
  show "res = Inr x \<Longrightarrow> guard = Inr ()"
    using assms by (auto simp: sensitive_def split: sum.splits)
qed

lemma update_user_role_cases:
  assumes "update_user_role k au existing role db = (res, db')"
  obtains (unchanged) "db' = db" "res = Inr () \<Longrightarrow> role = None"
  | (changed) next_role found users where
      "is_admin (us_role existing) \<Longrightarrow> \<not> is_admin next_role \<Longrightarrow>
         us_id existing \<noteq> us_id (au_user au) \<and> 1 < count_admins (db_users db)"
      "update_role (cl_clk k 2) (us_id existing) next_role (db_users db) = (found, users)"
      "db' = (if us_role existing \<noteq> next_role \<and> res = Inr ()
        then revoke_user_credentials (cl_clk k 3) (us_id existing) (db\<lparr>db_users := users\<rparr>) else db\<lparr>db_users := users\<rparr>)"
      "res = Inr () \<longleftrightarrow> found \<noteq> None"
proof (cases "db' = db \<and> (res = Inr () \<longrightarrow> role = None)")
  case True
  then show ?thesis using unchanged by blast
next
  case False
  then obtain t where t: "role = Some t" using assms by (cases role) (auto simp: update_user_role_def)
  with False assms obtain next_role where r: "normalize_role t = Inr next_role"
    by (cases "normalize_role t") (auto simp: update_user_role_def)
  obtain found users where up: "update_role (cl_clk k 2) (us_id existing) next_role (db_users db) = (found, users)" by fastforce
  have guards: "\<not> (is_admin (us_role existing) \<and> \<not> is_admin next_role \<and> us_id existing = us_id (au_user au))"
      "\<not> (is_admin (us_role existing) \<and> \<not> is_admin next_role \<and> count_admins (db_users db) \<le> 1)"
    using assms False t r by (auto simp: update_user_role_def split: if_splits)
  show ?thesis
    by (rule changed [OF _ up]) (use assms t r up guards in \<open>auto simp: update_user_role_def Let_def split: option.splits if_splits\<close>)
qed

lemma update_user_password_cases:
  assumes "update_user_password c k target password db = (res, db')"
  obtains (unchanged) "db' = db" "res = Inr () \<Longrightarrow> password = None"
  | (changed) p r users where "password = Some p"
      "reset_password c (cl_draw k) (cl_clk k 4) target p (db_users db) = (r, users)"
      "db' = (if res = Inr () then revoke_user_credentials (cl_clk k 5) target (db\<lparr>db_users := users\<rparr>) else db\<lparr>db_users := users\<rparr>)"
proof (cases "db' = db \<and> (res = Inr () \<longrightarrow> password = None)")
  case True
  then show ?thesis using unchanged by blast
next
  case False
  then obtain p where p: "password = Some p" using assms by (cases password) (auto simp: update_user_password_def)
  with False assms obtain q where q: "normalize_new_password p = Inr q"
    by (cases "normalize_new_password p") (auto simp: update_user_password_def)
  then have "q = p"
    by (auto simp: normalize_new_password_def normalize_password_def result_simps split: if_splits)
  obtain r users where run: "reset_password c (cl_draw k) (cl_clk k 4) target p (db_users db) = (r, users)" by fastforce
  show ?thesis
    by (rule changed [OF p run])
       (use assms p q run \<open>q = p\<close> in \<open>auto simp: update_user_password_def split: sum.splits option.splits\<close>)
qed

lemma update_user_ok:
  assumes "update_user c cell to_str k au headers i req db = (Inr u, db')"
  obtains events existing db2 where
    "require_admin_cookie_session au = Inr ()" "find_by_id (us_id existing) (db_users db) = Some existing"
    "update_user_role k au existing (uq_role req) (db\<lparr>db_events := events\<rparr>) = (Inr (), db2)"
    "update_user_password c k (us_id existing) (uq_password req) db2 = (Inr (), db')"
    "find_by_id (us_id existing) (db_users db') = Some u"
proof -
  obtain r1 db1 where s: "sensitive c cell to_str k (require_admin_cookie_session au) au headers db = (r1, db1)" by fastforce
  with assms have r1: "r1 = Inr ()" by (cases r1) (auto simp: update_user_def)
  from sensitive_frame [OF s] r1 obtain events where ev: "db1 = db\<lparr>db_events := events\<rparr>"
    and guard: "require_admin_cookie_session au = Inr ()" by auto
  from assms s r1 obtain existing where found: "and_then (parse_user_id c i) (\<lambda>target_id.
      ok_or (find_by_id target_id (db_users db1)) (NotFound ''user not found'')) = Inr existing"
    by (auto simp: update_user_def split: sum.splits)
  then have old: "find_by_id (us_id existing) (db_users db) = Some existing"
    using ev by (auto simp: result_simps dest: find_by_id_id)
  obtain r2 db2 where role: "update_user_role k au existing (uq_role req) db1 = (r2, db2)" by fastforce
  with assms s r1 found have r2: "r2 = Inr ()" by (cases r2) (auto simp: update_user_def)
  obtain r3 db3 where pw: "update_user_password c k (us_id existing) (uq_password req) db2 = (r3, db3)" by fastforce
  with assms s r1 found role r2 have r3: "r3 = Inr ()" by (cases r3) (auto simp: update_user_def)
  from assms s r1 found role r2 pw r3 have "db' = db3" "find_by_id (us_id existing) (db_users db3) = Some u"
    by (auto simp: update_user_def result_simps)
  with that guard old role pw r2 r3 ev show ?thesis by simp
qed

text \<open>
  (C7) Changing who a user is ends what the user had: after a successful change of the password or of
  the role, no session cookie and no token authenticates as that user any more, and neither does
  one after the user has been deleted.
\<close>

theorem account_change_ends_credentials:
  "(update_user c cell to_str k au headers i req db = (Inr u, db') \<longrightarrow>
     uq_password req \<noteq> None \<or> (\<exists>old. find_by_id (us_id u) (db_users db) = Some old \<and> us_role old \<noteq> us_role u) \<longrightarrow>
     session_middleware c hmac256 env to_str' faults t ids rq db' = (Forward (Authenticated s v), db'') \<longrightarrow> us_id v \<noteq> us_id u) \<and>
   (delete_user c cell to_str k au headers i db = (Inr (), db') \<longrightarrow> parse_user_id c i = Inr user_id \<longrightarrow>
     session_middleware c hmac256 env to_str' faults t ids rq db' = (Forward (Authenticated s v), db'') \<longrightarrow> us_id v \<noteq> user_id)"
proof (intro conjI impI)
  assume up: "update_user c cell to_str k au headers i req db = (Inr u, db')"
    and change: "uq_password req \<noteq> None \<or> (\<exists>old. find_by_id (us_id u) (db_users db) = Some old \<and> us_role old \<noteq> us_role u)"
    and run: "session_middleware c hmac256 env to_str' faults t ids rq db' = (Forward (Authenticated s v), db'')"
  from up obtain events existing db2 where parts: "find_by_id (us_id existing) (db_users db) = Some existing"
      "update_user_role k au existing (uq_role req) (db\<lparr>db_events := events\<rparr>) = (Inr (), db2)"
      "update_user_password c k (us_id existing) (uq_password req) db2 = (Inr (), db')"
      "find_by_id (us_id existing) (db_users db') = Some u"
    by (rule update_user_ok)
  have u: "us_id u = us_id existing" using find_by_id_id [OF parts(4)] .
  have "no_credentials (us_id existing) db'"
    using parts(3)
  proof (cases rule: update_user_password_cases)
    case changed
    then show ?thesis using revoke_no_credentials by simp
  next
    case unchanged
    then have role: "us_role existing \<noteq> us_role u" "db' = db2" using change parts(1) u by auto
    from parts(2) show ?thesis
    proof (cases rule: update_user_role_cases)
      case unchanged
      with role parts(1,4) show ?thesis by simp
    next
      case (changed next_role found users)
      then obtain w where w: "found = Some w" by auto
      with changed(3) role(2) have "db_users db' = users" by auto
      with changed(2) parts(4) w have "w = u" by (auto simp: update_role_def Let_def)
      with update_role_found(1) changed(2) w have "us_role u = next_role" by blast
      with changed(3) role revoke_no_credentials show ?thesis by simp
    qed
  qed
  with no_credentials_shut_out run u show "us_id v \<noteq> us_id u" by metis
next
  assume del: "delete_user c cell to_str k au headers i db = (Inr (), db')" and target: "parse_user_id c i = Inr user_id"
    and run: "session_middleware c hmac256 env to_str' faults t ids rq db' = (Forward (Authenticated s v), db'')"
  have "\<exists>db2. db' = cascade_user user_id db2"
    using del target by (auto simp: delete_user_def Let_def result_simps dest: find_by_id_id split: prod.splits sum.splits if_splits)
  then have "no_credentials user_id db'" by (auto simp: cascade_user_def no_credentials_def)
  with no_credentials_shut_out run show "us_id v \<noteq> user_id" by metis
qed

section \<open>Administrators\<close>

text \<open>The requests that reach the tables of this theory, one at a time.\<close>

inductive account_step :: "crates \<Rightarrow> auth_db \<Rightarrow> auth_db \<Rightarrow> bool" for c where
  step_login: "login c hmac256 cell env to_str valid_header cfg k peer headers req db = (res, db') \<Longrightarrow> account_step c db db'"
| step_logout: "logout c valid_header cfg au db = (res', db') \<Longrightarrow> account_step c db db'"
| step_delete_session: "delete_session c cell to_str k au headers i db = (res', db') \<Longrightarrow> account_step c db db'"
| step_create_user: "create_user c cell to_str k au headers creq db = (ures, db') \<Longrightarrow> account_step c db db'"
| step_update_user: "update_user c cell to_str k au headers i ureq db = (ures, db') \<Longrightarrow> account_step c db db'"
| step_delete_user: "delete_user c cell to_str k au headers i db = (dres, db') \<Longrightarrow> account_step c db db'"
| step_setup_totp: "setup_totp c cell k au code nonce db = (res', db') \<Longrightarrow> account_step c db db'"
| step_enable_totp: "enable_totp c cell k au code db = (dres, db') \<Longrightarrow> account_step c db db'"
| step_disable_totp: "disable_totp c cell k au code db = (dres, db') \<Longrightarrow> account_step c db db'"
| step_create_bans: "create_waf_bans c cell to_str k au headers breq db = (bres, db') \<Longrightarrow> account_step c db db'"
| step_delete_ban: "delete_waf_ban c cell to_str k au headers i db = (res', db') \<Longrightarrow> account_step c db db'"
| step_request: "session_middleware c hmac256 env to_str faults t ids rq db = (verdict, db') \<Longrightarrow> account_step c db db'"

definition has_admin :: "auth_db \<Rightarrow> bool" where
  "has_admin db \<longleftrightarrow> users_ok (db_users db) \<and> 1 \<le> count_admins (db_users db)"

lemma users_ok_update:
  assumes "users_ok rows" "\<And>r. ur_id (f r) = ur_id r" "\<And>r. ur_username (f r) = ur_username r"
    and "\<And>r. ur_role r \<in> {''admin'', ''member''} \<Longrightarrow> ur_role (f r) \<in> {''admin'', ''member''}"
  shows "users_ok (update_where P f rows)"
  using assms unfolding users_ok_def ball_update_where
  by (simp add: map_update_where [of ur_id f] map_update_where [of ur_username f])

lemma count_admins_update: "(\<And>r. ur_role (f r) = ur_role r) \<Longrightarrow> count_admins (update_where P f rows) = count_admins rows"
  by (induction rows) (auto simp: count_admins_def update_where_def)

lemma has_admin_update:
  "has_admin db \<Longrightarrow> (\<And>r. ur_id (f r) = ur_id r \<and> ur_username (f r) = ur_username r \<and> ur_role (f r) = ur_role r) \<Longrightarrow>
   has_admin (db\<lparr>db_users := update_where P f (db_users db)\<rparr>)"
  by (auto simp: has_admin_def count_admins_update intro!: users_ok_update)

lemma has_admin_cong: "db_users db' = db_users db \<Longrightarrow> has_admin db' \<longleftrightarrow> has_admin db"
  by (simp add: has_admin_def)

lemma count_admins_others:
  assumes "distinct (map ur_id rows)"
  shows "count_admins rows \<le> Suc (count_admins (filter (\<lambda>r. ur_id r \<noteq> i) rows))"
  using assms
proof (induction rows)
  case (Cons r rows)
  show ?case
  proof (cases "ur_id r = i")
    case True
    with Cons.prems have "filter (\<lambda>r. ur_id r \<noteq> i) rows = rows" by (intro filter_True) (auto simp: image_iff)
    with True show ?thesis by (simp add: count_admins_def)
  next
    case False
    with Cons show ?thesis by (auto simp: count_admins_def)
  qed
qed (simp add: count_admins_def)

lemma count_admins_others_le: "count_admins (filter (\<lambda>r. ur_id r \<noteq> i) rows) \<le> count_admins (update_where (\<lambda>r. ur_id r = i) f rows)"
  by (induction rows) (auto simp: count_admins_def update_where_def)

lemma count_admins_member:
  "\<forall>r \<in> set rows. ur_id r = i \<longrightarrow> ur_role r \<noteq> ''admin'' \<Longrightarrow> count_admins (filter (\<lambda>r. ur_id r \<noteq> i) rows) = count_admins rows"
  by (induction rows) (auto simp: count_admins_def)

lemma count_admins_pos: "1 \<le> count_admins rows \<longleftrightarrow> (\<exists>r \<in> set rows. ur_role r = ''admin'')"
  by (induction rows) (auto simp: count_admins_def)

lemma found_role:
  assumes "users_ok rows" "find_by_id i rows = Some u" "r \<in> set rows" "ur_id r = i"
  shows "is_admin (us_role u) \<longleftrightarrow> ur_role r = ''admin''"
proof -
  from user_of_Some assms(2) obtain q where q: "q \<in> set rows" "ur_id q = i" "is_admin (us_role u) \<longleftrightarrow> ur_role q = ''admin''"
    unfolding find_by_id_def by blast
  moreover have "q = r" using q assms by (auto simp: users_ok_def dest: inj_onD [of ur_id] simp: distinct_map)
  ultimately show ?thesis by simp
qed

lemma found_exists: "find_by_id i rows = Some u \<Longrightarrow> \<exists>r \<in> set rows. ur_id r = i"
  using user_of_Some unfolding find_by_id_def by blast

lemma update_role_keeps_admin:
  assumes "users_ok rows" "1 \<le> count_admins rows" "find_by_id i rows = Some u"
    and "is_admin (us_role u) \<Longrightarrow> \<not> is_admin next_role \<Longrightarrow> 1 < count_admins rows"
    and "update_role now i next_role rows = (found, rows')"
  shows "users_ok rows' \<and> 1 \<le> count_admins rows'"
proof -
  have rows': "rows' = update_where (\<lambda>r. ur_id r = i) (\<lambda>r. r\<lparr>ur_role := role_text next_role, ur_updated_at := now\<rparr>) rows"
    using assms(5) by (auto simp: update_role_def Let_def)
  have "users_ok rows'" unfolding rows'
    by (rule users_ok_update [OF assms(1)]) (cases next_role; simp)+
  moreover have "1 \<le> count_admins rows'"
  proof (cases "is_admin next_role")
    case True
    then have "role_text next_role = ''admin''" by (cases next_role) (simp_all add: is_admin_def)
    with found_exists [OF assms(3)] show ?thesis unfolding rows' count_admins_pos bex_update_where by auto
  next
    case False
    have others: "count_admins (filter (\<lambda>r. ur_id r \<noteq> i) rows) \<le> count_admins rows'"
      unfolding rows' by (rule count_admins_others_le)
    show ?thesis
    proof (cases "is_admin (us_role u)")
      case True
      have "distinct (map ur_id rows)" using assms(1) by (simp add: users_ok_def)
      from assms(4) [OF True False] count_admins_others [OF this, of i] others show ?thesis by linarith
    next
      case member: False
      then have "count_admins (filter (\<lambda>r. ur_id r \<noteq> i) rows) = count_admins rows"
        using found_role [OF assms(1,3)] by (intro count_admins_member) auto
      with others assms(2) show ?thesis by linarith
    qed
  qed
  ultimately show ?thesis ..
qed

lemma login_users: "db_users (snd (login c hmac256 cell env to_str valid_header cfg k peer headers req db)) = db_users db"
  by (auto simp: login_def login_second_factor_def start_session_def Let_def
      split: sum.splits option.splits prod.splits bool.splits if_splits)

lemma fail_pat_users [simp]: "db_users (fail_pat clk ids ip r reason db) = db_users db"
  by (simp add: fail_pat_def split: prod.splits)

lemma session_middleware_users: "db_users (snd (session_middleware c hmac256 env to_str faults t ids rq db)) = db_users db"
  by (auto simp: session_middleware_def authenticate_pat_def use_pat_def Let_def
      split: sum.splits option.splits prod.splits pat_outcome.splits)

lemma session_ops_users:
  "db_users (snd (logout c valid_header cfg au db)) = db_users db"
  "db_users (snd (delete_session c cell to_str k au headers i db)) = db_users db"
  "db_users (snd (create_waf_bans c cell to_str k au headers breq db)) = db_users db"
  "db_users (snd (delete_waf_ban c cell to_str k au headers i db)) = db_users db"
  by (auto simp: logout_def delete_session_def create_waf_bans_def delete_waf_ban_def sensitive_def Let_def
      split: sum.splits prod.splits if_splits)

lemma sensitive_users: "sensitive c cell to_str k guard au headers db = (res, db') \<Longrightarrow> db_users db' = db_users db"
  by (auto dest: sensitive_frame(1))

lemma totp_ops_users:
  "has_admin db \<Longrightarrow> has_admin (snd (setup_totp c cell k au code nonce db))"
  "has_admin db \<Longrightarrow> has_admin (snd (enable_totp c cell k au code db))"
  "has_admin db \<Longrightarrow> has_admin (snd (disable_totp c cell k au code db))"
  by (auto simp: setup_totp_def enable_totp_def disable_totp_def set_totp_secret_def set_totp_enabled_def
      repo_disable_totp_def Let_def has_admin_def count_admins_update intro!: users_ok_update split: sum.splits prod.splits)

lemma create_user_keeps_admin: "has_admin db \<Longrightarrow> has_admin (snd (create_user c cell to_str k au headers req db))"
proof -
  assume ok: "has_admin db"
  obtain r db1 where s: "sensitive c cell to_str k (require_admin_cookie_session au) au headers db = (r, db1)" by fastforce
  have users: "db_users db1 = db_users db" using sensitive_users [OF s] .
  have "users_ok (rows @ [row]) \<and> 1 \<le> count_admins (rows @ [row])"
    if "users_ok rows" "1 \<le> count_admins rows" "ur_role row \<in> {''admin'', ''member''}"
      "\<forall>r \<in> set rows. ur_id r \<noteq> ur_id row \<and> ur_username r \<noteq> ur_username row" for rows row
    using that by (auto simp: users_ok_def count_admins_def)
  moreover have "role_text role \<in> {''admin'', ''member''}" for role by (cases role) simp_all
  ultimately have "users_ok (snd (user_create c i salt now input (db_users db))) \<and>
      1 \<le> count_admins (snd (user_create c i salt now input (db_users db)))" for i salt now input
    using ok by (auto simp: user_create_def has_admin_def list_ex_iff split: sum.splits)
  with ok users s show ?thesis
    by (auto simp: create_user_def has_admin_def split: sum.splits prod.splits) (metis snd_conv)+
qed

lemma reset_password_keeps_admin:
  "users_ok rows \<Longrightarrow> reset_password c salt now i p rows = (res, rows') \<Longrightarrow> users_ok rows' \<and> count_admins rows' = count_admins rows"
  by (auto simp: reset_password_def Let_def count_admins_update intro!: users_ok_update split: sum.splits if_splits)

lemma update_user_role_keeps_admin:
  assumes "has_admin db" "find_by_id (us_id existing) (db_users db) = Some existing"
    and "update_user_role k au existing role db = (res, db')"
  shows "has_admin db'"
  using assms(3)
proof (cases rule: update_user_role_cases)
  case unchanged
  with assms(1) show ?thesis by simp
next
  case (changed next_role found users)
  have "users_ok users \<and> 1 \<le> count_admins users"
    using assms(1,2) changed(1,2) by (intro update_role_keeps_admin [of "db_users db"]) (auto simp: has_admin_def)
  moreover have "db_users db' = users" using changed(3) by (auto split: if_splits)
  ultimately show ?thesis by (simp add: has_admin_def)
qed

lemma update_user_password_keeps_admin:
  assumes "has_admin db" "update_user_password c k i password db = (res, db')"
  shows "has_admin db'"
  using assms(2)
proof (cases rule: update_user_password_cases)
  case unchanged
  with assms(1) show ?thesis by simp
next
  case (changed p r users)
  have "db_users db' = users" using changed(3) by (auto split: if_splits)
  with assms(1) reset_password_keeps_admin [OF _ changed(2)] show ?thesis by (auto simp: has_admin_def)
qed

lemma update_user_keeps_admin:
  assumes "has_admin db"
  shows "has_admin (snd (update_user c cell to_str k au headers i req db))"
proof -
  obtain r1 db1 where s: "sensitive c cell to_str k (require_admin_cookie_session au) au headers db = (r1, db1)" by fastforce
  have ok1: "has_admin db1" using sensitive_users [OF s] assms has_admin_cong by blast
  let ?found = "and_then (parse_user_id c i) (\<lambda>target_id. ok_or (find_by_id target_id (db_users db1)) (NotFound ''user not found''))"
  show ?thesis
  proof (cases "\<exists>existing. r1 = Inr () \<and> ?found = Inr existing")
    case False
    with s ok1 show ?thesis by (auto simp: update_user_def split: sum.splits)
  next
    case True
    then obtain existing where e: "r1 = Inr ()" "?found = Inr existing" by blast
    then have old: "find_by_id (us_id existing) (db_users db1) = Some existing"
      by (auto simp: result_simps dest: find_by_id_id)
    obtain r2 db2 where role: "update_user_role k au existing (uq_role req) db1 = (r2, db2)" by fastforce
    have ok2: "has_admin db2" by (rule update_user_role_keeps_admin [OF ok1 old role])
    obtain r3 db3 where pw: "update_user_password c k (us_id existing) (uq_password req) db2 = (r3, db3)" by fastforce
    have ok3: "has_admin db3" by (rule update_user_password_keeps_admin [OF ok2 pw])
    have "snd (update_user c cell to_str k au headers i req db) \<in> {db2, db3}"
      using s e role pw by (cases r2; cases r3) (auto simp: update_user_def)
    with ok2 ok3 show ?thesis by auto
  qed
qed

lemma delete_user_keeps_admin:
  assumes "has_admin db"
  shows "has_admin (snd (delete_user c cell to_str k au headers i db))"
proof -
  obtain r1 db1 where s: "sensitive c cell to_str k (require_admin_cookie_session au) au headers db = (r1, db1)" by fastforce
  have ok1: "has_admin db1" using sensitive_users [OF s] assms has_admin_cong by blast
  let ?found = "and_then (parse_user_id c i) (\<lambda>target_id.
      and_then (ensure (target_id \<noteq> us_id (au_user au)) (BadRequest ''cannot delete your own account'')) (\<lambda>_.
        ok_or (find_by_id target_id (db_users db1)) (NotFound ''user not found'')))"
  show ?thesis
  proof (cases "\<exists>existing. r1 = Inr () \<and> ?found = Inr existing \<and>
      \<not> (is_admin (us_role existing) \<and> count_admins (db_users db1) \<le> 1)")
    case False
    with s ok1 show ?thesis by (auto simp: delete_user_def split: sum.splits)
  next
    case True
    then obtain existing where e: "r1 = Inr ()" "?found = Inr existing"
        "is_admin (us_role existing) \<Longrightarrow> 1 < count_admins (db_users db1)" by fastforce
    then have old: "find_by_id (us_id existing) (db_users db1) = Some existing"
      by (auto simp: result_simps dest: find_by_id_id)
    let ?rest = "filter (\<lambda>r. ur_id r \<noteq> us_id existing) (db_users db1)"
    have ok: "users_ok (db_users db1)" "1 \<le> count_admins (db_users db1)" using ok1 by (auto simp: has_admin_def)
    have "users_ok ?rest" using ok(1) by (auto simp: users_ok_def distinct_map_filter)
    moreover have "1 \<le> count_admins ?rest"
    proof (cases "is_admin (us_role existing)")
      case True
      have "distinct (map ur_id (db_users db1))" using ok(1) by (simp add: users_ok_def)
      from e(3) [OF True] count_admins_others [OF this, of "us_id existing"] show ?thesis by linarith
    next
      case False
      then have "count_admins ?rest = count_admins (db_users db1)"
        using found_role [OF ok(1) old] by (intro count_admins_member) auto
      with ok(2) show ?thesis by simp
    qed
    moreover have "db_users (snd (delete_user c cell to_str k au headers i db)) \<in> {db_users db1, ?rest}"
      using s e(1,2) True
      by (auto simp: delete_user_def Let_def cascade_user_def user_delete_def split: if_splits)
    ultimately show ?thesis using ok by (auto simp: has_admin_def)
  qed
qed

text \<open>
  (C8) The server never locks its administrators out: as long as the requests are handled one after
  the other, whatever is asked for and whoever asks, at least one administrator remains, user
  ids and names stay unique and every stored role is one of the two.
\<close>

theorem administrators_remain:
  assumes "(account_step c)\<^sup>*\<^sup>* db db'" "users_ok (db_users db)" "1 \<le> count_admins (db_users db)"
  shows "users_ok (db_users db') \<and> 1 \<le> count_admins (db_users db')"
proof -
  have step: "account_step c d d' \<Longrightarrow> has_admin d \<Longrightarrow> has_admin d'" for d d'
  proof (induction rule: account_step.induct)
    case (step_login hmac256 cell env to_str valid_header cfg k peer headers req db res db')
    then show ?case using login_users has_admin_cong by (metis snd_conv)
  next
    case (step_request hmac256 env to_str faults t ids rq db verdict db')
    then show ?case using session_middleware_users has_admin_cong by (metis snd_conv)
  next
    case (step_create_user cell to_str k au headers creq db ures db')
    then show ?case using create_user_keeps_admin by (metis snd_conv)
  next
    case (step_update_user cell to_str k au headers i ureq db ures db')
    then show ?case using update_user_keeps_admin by (metis snd_conv)
  next
    case (step_delete_user cell to_str k au headers i db dres db')
    then show ?case using delete_user_keeps_admin by (metis snd_conv)
  qed (metis session_ops_users totp_ops_users has_admin_cong snd_conv)+
  have "(account_step c)\<^sup>*\<^sup>* db db' \<Longrightarrow> has_admin db \<Longrightarrow> has_admin db'"
    by (induction rule: rtranclp_induct) (auto intro: step)
  with assms show ?thesis by (simp add: has_admin_def)
qed

text \<open>
  The guard and the update are separate statements, so the order of requests matters: with two
  administrators, two demotions that both read the count before either writes leave none.
\<close>

theorem concurrent_demotions_lose_admins:
  "\<exists>users a b. users_ok users \<and> a \<noteq> b \<and> 1 < count_admins users \<and>
     count_admins (snd (update_role t b Member (snd (update_role t' a Member users)))) = 0"
proof (intro exI conjI)
  let ?users = "[demo_user_row, demo_user_row\<lparr>ur_id := 2, ur_username := ''two''\<rparr>]"
  show "users_ok ?users" "1 < count_admins ?users" by code_simp+
  show "(1::u128) \<noteq> 2" by simp
  show "count_admins (snd (update_role t 2 Member (snd (update_role t' 1 Member ?users)))) = 0"
    by (simp add: update_role_def Let_def update_where_def count_admins_def demo_user_row_def)
qed

section \<open>Witnesses\<close>

definition fresh_db :: auth_db where
  "fresh_db = demo_db\<lparr>db_sessions := []\<rparr>"

definition demo_call :: "datetime \<Rightarrow> call" where
  "demo_call t = \<lparr>cl_clk = (\<lambda>_. t), cl_ids = (\<lambda>_. ''e''), cl_fresh = 9, cl_draw = replicate 32 1\<rparr>"

definition demo_cfg :: security_config where
  "demo_cfg = \<lparr>session_ttl_hours = 1, cookie_secure = True\<rparr>"

definition demo_login_request :: login_request where
  "demo_login_request = \<lparr>lr_username = '' root'', lr_password = ''secret'', lr_totp_code = None\<rparr>"

definition demo_client :: socket_addr where
  "demo_client = \<lparr>sa_ip = IpV4 (Ipv4Addr 1 2 3 4), sa_port = 4000\<rparr>"

definition no_headers :: header_map where "no_headers name = []"
definition no_env :: env where "no_env name = None"
definition any_header :: "string \<Rightarrow> bool" where "any_header h = True"

abbreviation demo_login :: "datetime \<Rightarrow> login_request \<Rightarrow> auth_db \<Rightarrow> (app_error + login_response) \<times> auth_db" where
  "demo_login t \<equiv> login demo_crates demo_hmac256 None no_env Some any_header demo_cfg (demo_call t) demo_client no_headers"

fun logged_in :: "app_error + login_response \<Rightarrow> bool" where
  "logged_in (Inr (LoggedIn u sc cc)) = True"
| "logged_in r = False"

lemma logged_in_iff: "logged_in r \<longleftrightarrow> (\<exists>u sc cc. r = Inr (LoggedIn u sc cc))"
  by (cases r rule: logged_in.cases) auto

lemma demo_logged_in: "logged_in (fst (demo_login 0 demo_login_request fresh_db))"
  by code_simp

lemma demo_login_run:
  obtains u sc cc db' where "demo_login 0 demo_login_request fresh_db = (Inr (LoggedIn u sc cc), db')"
  using demo_logged_in unfolding logged_in_iff by (metis prod.collapse)

theorem login_needs_every_factor_witness:
  "\<exists>u sc cc db'. demo_login 0 demo_login_request fresh_db = (Inr (LoggedIn u sc cc), db') \<and>
     find_by_username (trim (lr_username demo_login_request)) (db_users fresh_db) = Some u"
  by (rule demo_login_run) (metis login_needs_every_factor)

definition demo_get :: request where
  "demo_get = \<lparr>rq_method = ''GET'', rq_headers = no_headers, rq_peer = None,
     rq_session_cookie = Some (login_token demo_crates (demo_call 0))\<rparr>"

theorem login_session_works_witness:
  "\<exists>s u db'. session_middleware demo_crates demo_hmac256 no_env Some (\<lambda>_. False) (\<lambda>_. 5) (\<lambda>_. ''i'') demo_get db' =
     (Forward (Authenticated s u), db') \<and> as_user_id s = us_id u"
proof (rule demo_login_run)
  fix u sc cc db'
  assume run: "demo_login 0 demo_login_request fresh_db = (Inr (LoggedIn u sc cc), db')"
  have "users_ok (db_users fresh_db)" by code_simp
  moreover have "hex_law (hex_encode demo_crates) (hex_decode demo_crates)"
    using demo_hex_law by (simp add: demo_crates_def)
  moreover have "length (cl_draw (demo_call 0)) = 32" by (simp add: demo_call_def)
  moreover have "pat_bearer_token_from_headers Some (rq_headers demo_get) = Inr None" "\<not> state_changing (rq_method demo_get)"
    by code_simp+
  moreover have "rq_session_cookie demo_get = Some (login_token demo_crates (demo_call 0))" by (simp add: demo_get_def)
  ultimately obtain s where "as_user_id s = us_id u" and
      "session_middleware demo_crates demo_hmac256 no_env Some (\<lambda>_. False) (\<lambda>_. 5) (\<lambda>_. ''i'') demo_get db' =
      (Forward (if 5 < cl_clk (demo_call 0) 3 + hours (session_ttl_hours demo_cfg) then Authenticated s u else Anonymous), db')"
    using login_session_works [OF run] by blast
  then show ?thesis by (auto simp: demo_call_def demo_cfg_def hours_def)
qed

definition failed_event :: waf_event_row where
  "failed_event = \<lparr>we_id = ''e'', we_ip = ''1.2.3.4'', we_username = None, we_outcome = ''login_failed'',
     we_reason = None, we_created_at = 0\<rparr>"

text \<open>Four failures of one address, a fifth with a token, then the provider login of another address fails.\<close>

definition demo_tables :: waf_tables where
  "demo_tables = register_pat_failure (\<lambda>_. 0) (\<lambda>_. ''b'') ''1.2.3.4'' None ''invalid token'' (replicate 4 failed_event, [])"

definition demo_later :: waf_tables where
  "demo_later = register_oauth_failure (\<lambda>_. 50) (\<lambda>_. ''o'') ''5.6.7.8'' None ''invalid state'' demo_tables"

definition locked_db :: "waf_tables \<Rightarrow> auth_db" where
  "locked_db tables = fresh_db\<lparr>db_events := fst tables, db_bans := snd tables\<rparr>"

theorem five_failures_lock_out_witness:
  "\<exists>e db3. demo_login 100 demo_login_request (locked_db demo_later) = (Inl e, db3) \<and>
     db_sessions db3 = db_sessions (locked_db demo_later)"
proof -
  have fifth: "(fst demo_tables, snd demo_tables) \<in> {register_login_failure (\<lambda>_. 0) (\<lambda>_. ''b'') ''1.2.3.4'' [] ''invalid token'' (replicate 4 failed_event, []),
        register_oauth_failure (\<lambda>_. 0) (\<lambda>_. ''b'') ''1.2.3.4'' None ''invalid token'' (replicate 4 failed_event, []),
        register_pat_failure (\<lambda>_. 0) (\<lambda>_. ''b'') ''1.2.3.4'' None ''invalid token'' (replicate 4 failed_event, []),
        register_agent_auth_failure (\<lambda>_. 0) (\<lambda>_. ''b'') ''1.2.3.4'' None ''invalid token'' (replicate 4 failed_event, [])}"
    by (simp add: demo_tables_def)
  have four: "4 \<le> count_recent_auth_failures ''1.2.3.4'' (0 - minutes 15) (fst (replicate 4 failed_event, []))" by code_simp
  have "guard_step demo_crates 0 ''1.2.3.4'' (locked_db demo_tables)
      ((locked_db demo_tables)\<lparr>db_events := fst demo_later, db_bans := snd demo_later\<rparr>)"
    by (rule guard_oauth [of "\<lambda>_. 50" "\<lambda>_. ''o''" "''5.6.7.8''" None "''invalid state''"])
       (simp_all add: demo_later_def locked_db_def)
  then have steps: "(guard_step demo_crates 0 ''1.2.3.4'')\<^sup>*\<^sup>* (locked_db demo_tables) (locked_db demo_later)"
    by (simp add: locked_db_def r_into_rtranclp)
  have bans: "db_bans (locked_db demo_tables) = snd demo_tables" by (simp add: locked_db_def)
  have client: "client_ip_from_headers_and_peer no_env Some no_headers (Some demo_client) = ''1.2.3.4''" by code_simp
  have "cl_clk (demo_call 100) 0 < (0::int) + minutes 30" "0 - minutes 15 \<le> 0" by (simp_all add: demo_call_def minutes_def)
  then show ?thesis
    using five_failures_lock_out [OF fifth four _ bans steps client] by blast
qed

definition demo_admin :: auth_user where
  "demo_admin =
     \<lparr>au_user = \<lparr>us_id = 7, us_username = ''boss'', us_password_hash = [], us_role = Admin, us_token_version = 0,
        us_created_at = 0, us_updated_at = 0\<rparr>,
      au_session = demo_cookie_session\<rparr>"

definition demo_update :: update_user_request where
  "demo_update = \<lparr>uq_role = None, uq_password = Some ''new-secret''\<rparr>"

abbreviation demo_updated :: "(app_error + user) \<times> auth_db" where
  "demo_updated \<equiv> update_user demo_crates None Some (demo_call 0) demo_admin no_headers (uuid_show demo_crates 1) demo_update demo_db"

theorem account_change_ends_credentials_witness:
  "\<exists>u db'. demo_updated = (Inr u, db') \<and>
     \<not> (\<exists>s v db''. session_middleware demo_crates demo_hmac256 no_env Some (\<lambda>_. False) (\<lambda>_. 5) (\<lambda>_. ''i'')
            demo_cookie_request db' = (Forward (Authenticated s v), db'') \<and> us_id v = us_id u)"
proof -
  have "\<not> isl (fst demo_updated)" by code_simp
  then obtain u db' where run: "demo_updated = (Inr u, db')" by (metis isl_def prod.collapse sum.exhaust)
  from account_change_ends_credentials [of demo_crates None Some "demo_call 0" demo_admin no_headers "uuid_show demo_crates 1"
      demo_update demo_db u db'] run
  show ?thesis by (auto simp: demo_update_def)
qed

theorem administrators_remain_witness:
  "1 \<le> count_admins (db_users (snd (demo_login 0 demo_login_request fresh_db)))"
proof -
  have "account_step demo_crates fresh_db (snd (demo_login 0 demo_login_request fresh_db))"
    by (rule step_login) (rule prod.collapse [symmetric])
  then have "(account_step demo_crates)\<^sup>*\<^sup>* fresh_db (snd (demo_login 0 demo_login_request fresh_db))" by blast
  moreover have "users_ok (db_users fresh_db)" "1 \<le> count_admins (db_users fresh_db)" by code_simp+
  ultimately show ?thesis using administrators_remain by blast
qed

end
