(* ===== verification/Spec2Isabelle.thy ===== *)
theory Spec2Isabelle
  imports Nat_Tunnel Task_Waiters Tsdb Login_Api
begin

text \<open>
  XLStatus is a server-monitoring system: agents on the monitored machines keep a gRPC
  connection to a central server, which stores their metrics, sends them tasks, opens terminals
  and file transfers through them, exposes ports of their machines through NAT tunnels, and
  calls out to web hooks and DNS providers. This development models the server's core and
  proves the properties it is trusted for.

  \<^bold>\<open>How the parts fit.\<close> An agent's control stream is registered in the session registry
  (\<open>grpc/session.rs\<close>, \<open>SessionRegistry\<close>); tasks go out through it and their results come back
  to the waiters of \<open>TaskResponseRegistry\<close>. A second stream per agent carries binary frames;
  \<open>IoRegistry\<close> routes each frame to the subscriber of its stream id. The NAT tunnel manager
  (\<open>nat/tunnel.rs\<close>) listens on public ports taken from validated mappings (\<open>nat/policy.rs\<close>,
  \<open>shared/nat.rs\<close>), decides on each connection, reserves a tunnel, subscribes to a stream of the
  agent and copies bytes both ways. Outgoing requests and incoming addresses and origins are
  judged by \<open>security.rs\<close>. Metrics end in the time-series store of \<open>crates/tsdb\<close>. Every HTTP
  request passes \<open>auth/middleware.rs\<close>, which turns a personal access token or a session cookie
  into the identity the handlers see; the login handlers of \<open>api/v1/auth.rs\<close> issue those sessions
  under the brute-force guards of the same file.

  \<^bold>\<open>Theories.\<close>
  \<^item> \<open>XL_Prelude\<close>: Rust's \<open>Result\<close> over sums, saturating counters, hash maps as association
    lists (\<open>hm_get\<close>, \<open>hm_insert\<close>, \<open>hm_remove\<close>, \<open>hm_retain\<close>), and the locale \<open>capped_table\<close>, the
    contract of every bounded table of the server.
  \<^item> \<open>Rust_Text\<close>, \<open>Net_Addr\<close>: the operations of \<open>str\<close> and \<open>std::net\<close> the source calls, on
    UTF-8 bytes and machine words, with the characterisation of CIDR membership by leading bits.
  \<^item> \<open>Security\<close>: \<open>security.rs\<close>. Address classes equal the published networks (with the one
    block the code draws wider than its comment, \<open>documentation_test_block\<close>), an outbound request
    reaches only pinned public addresses of the host of its URL, forwarding headers count only
    behind a trusted proxy, and origins are accepted under an exact condition.
  \<^item> \<open>Nat_Policy\<close>: \<open>nat/policy.rs\<close>. Every limit an accepted mapping satisfies
    (\<open>policy_mapping\<close>), which are also all a mapping needs to be left alone by validation; when a
    source list admits a peer.
  \<^item> \<open>Agent_Sessions\<close>, \<open>Io_Streams\<close>, \<open>Task_Waiters\<close>: the three registries of \<open>grpc/session.rs\<close>.
    Each body of a lock region is one function; the interleavings are the step relations
    \<open>session_step\<close>, \<open>io_step\<close> and \<open>waiter_step\<close>, and the invariants hold in every reachable state.
    The locale \<open>revocable_registry\<close> states what revocation promises and is interpreted by the
    first two.
  \<^item> \<open>Nat_Limits\<close>, \<open>Nat_Tunnel\<close>: \<open>nat/tunnel.rs\<close>. Port and source checks, rate windows,
    reservations; reload, acceptance, ownership of frames, the copy loop and its cleanup. A run of
    the accept loop is \<open>accept_all\<close>, and \<open>within_policy\<close> says what every connection it let in
    satisfied. Frames enter a tunnel through \<open>IoRegistry::deliver_from_agent\<close>; while other
    operations of the registry run beside it (\<open>io_step_beside\<close>), only the mapping's agent is heard.
    \<open>deliver_agent_frame\<close> of \<open>tunnel.rs\<close> is modelled too, but only its tests call it.
  \<^item> \<open>Tsdb\<close>: \<open>crates/tsdb/src/lib.rs\<close>. Validation, the in-memory store with its retention, and
    the locale \<open>metric_backend\<close> with the store as its instance.
  \<^item> \<open>Secret_Box\<close>: \<open>secrets.rs\<close>, secrets encrypted at rest, and that decryption returns what was encrypted.
  \<^item> \<open>Auth_Tokens\<close>: \<open>auth/jwt.rs\<close> and \<open>auth/totp.rs\<close>, the claims of agent tokens, base32 and
    one-time codes.
  \<^item> \<open>Access_Control\<close>: \<open>auth/rbac.rs\<close>, roles, scopes and the server allowlist of a token.
  \<^item> \<open>Pat_Store\<close>, \<open>Login_Sessions\<close>, \<open>User_Store\<close>, \<open>Waf_Guard\<close>: the tables of tokens, sessions,
    users, bans, failures and used one-time codes with the queries on them.
  \<^item> \<open>Auth_Middleware\<close>: \<open>auth/middleware.rs\<close>. Which request becomes which identity;
    \<open>presents_bearer\<close> and \<open>no_pat_presented\<close> say what the header of a request carries.
  \<^item> \<open>Login_Api\<close>: \<open>api/v1/auth.rs\<close>, login, logout, account changes and their effect on sessions
    and tokens, the lock-out (\<open>guard_step\<close>: what may happen to the tables while it lasts) and the
    invariant that an administrator remains.
  \<^item> This theory: the properties that need several components, revocation reaching the tunnels
    and the agreement of the two frame checks.

  \<^bold>\<open>State and effects.\<close> A struct is a record, an enum a datatype, a \<open>HashMap\<close> a table of the
  prelude, an error a value on the left of a sum whose constructor stands for the message. A tokio
  channel or watch cell is a handle; what an operation does to it is returned as a list of
  effects, and what tokio reports to a waiting call is an argument of its next step. Counters
  that saturate in the source saturate at \<open>u64_max\<close> here. No definition uses fuel: the loops are
  structural recursions over the events or entries they consume, so every model function is total.

  \<^bold>\<open>Parameters.\<close> The uuid crate (\<open>uuid_parse\<close>, \<open>uuid_show\<close>), the URL and header libraries, the
  DNS resolver, the environment, the clock and chrono's checked arithmetic, sqlx answers, socket
  operations and serde's readers are arguments of the definitions; the properties that need
  something of them say so as hypotheses and their witnesses supply concrete functions.

  \<^bold>\<open>Atomicity.\<close> In the registries a lock region is a step and the steps interleave. A handler
  of \<open>Login_Api\<close> and a database transaction are one step each, so two handlers that overlap are
  not covered; where the code is known to be unsafe there, a statement says which order it takes.
  \<open>deliver_from_agent\<close> reads, sends and prunes in one step: a frame handed over is judged by the
  state its lookup saw.

  \<^bold>\<open>Where the code and its documents differ.\<close> \<open>documentation_test_too_wide\<close>: an IPv6 test
  covers more than the network its comment names. \<open>foreign_bearer_falls_back\<close>: a bearer value that
  is no token of the server does not stop a cookie from being used. \<open>postgres_port_not_reserved\<close>:
  port 5432 is documented as reserved and is not.

  \<^bold>\<open>Not modelled.\<close> The other HTTP handlers and the MCP handlers, the database text, the agent,
  the alert, task and service engines, dynamic DNS and notifications; OAuth beyond its failure
  counter; in the tunnel manager, bandwidth shaping, which only delays, and the statistics report.
  The web dashboard is a client.
\<close>

section \<open>Revocation reaches the tunnels\<close>

lemma deliver_agent_frame_effs:
  assumes "deliver_agent_frame up us closed closed' changed sent a frame tunnels r = (res, r', effs)"
  obtains s where "res = Inr ()" "hm_get (stream_subscribers r) (if_stream_id frame) = Some s"
      "sub_agent_id s = a" "pushed effs = [(sub_sender s, frame\<lparr>if_agent_id := us a\<rparr>)]"
      "verify_tunnel_ownership up tunnels (if_stream_id frame) a = Inr ()"
  | e where "res = Inl e" "pushed effs = []"
proof (cases "\<exists>e. res = Inl e \<and> effs = []")
  case True
  then show ?thesis using that(2) by auto
next
  case False
  have own: "verify_tunnel_ownership up tunnels (if_stream_id frame) a = Inr ()"
  proof (cases "verify_tunnel_ownership up tunnels (if_stream_id frame) a")
    case (Inl e)
    with assms have "res = Inl e" "effs = []" by (simp_all add: deliver_agent_frame_def)
    with False show ?thesis by simp
  qed simp
  with False assms obtain d where d:
      "deliver_from_agent us closed closed' changed sent a frame r = (d, r', effs)"
      "res = (if d then Inr () else Inl DeliveryFailed)"
    by (auto simp: deliver_agent_frame_def split: if_splits prod.splits)
  show ?thesis
  proof (cases d)
    case True
    with deliver_pushed [OF d(1)] d(2) own that(1) show ?thesis
      by (fastforce simp: deliver_lookup_Some)
  next
    case False
    with deliver_pushed [OF d(1)] d(2) that(2) show ?thesis by auto
  qed
qed

text \<open>
  (C2) Revocation reaches the NAT tunnels: once \<open>IoRegistry::disconnect_agent\<close> has run for an
  agent, then in every later state of the IO registry no connection can open a tunnel to that
  agent, and no frame the agent still sends is put into the channel of any stream or tunnel, be it
  handed over by \<open>deliver_from_agent\<close>, which the gRPC service calls, or by \<open>deliver_agent_frame\<close>.
\<close>

theorem revoked_agent_loses_tunnels:
  assumes "io_inv r" "(io_step us)\<^sup>*\<^sup>* (fst (disconnect_agent us a r)) r'"
  shows "(up (nm_agent_id mapping) = Some a \<longrightarrow>
           (\<exists>e. open_tunnel env up closed tid now tx k mapping tunnels r' = Inl e)) \<and>
     (deliver_agent_frame up us closed closed' changed sent a frame tunnels r' = (res, r'', effs) \<longrightarrow>
           isl res \<and> pushed effs = []) \<and>
     (deliver_from_agent us closed closed' changed sent a frame r' = (delivered, r'', effs) \<longrightarrow>
           \<not> delivered \<and> pushed effs = [])"
proof (intro conjI; rule impI)
  note gone = disconnected_agent_gone [OF assms]
  show "up (nm_agent_id mapping) = Some a \<Longrightarrow>
           \<exists>e. open_tunnel env up closed tid now tx k mapping tunnels r' = Inl e"
    using open_tunnel_ok(1,2) [of env up closed tid now tx k mapping tunnels r'] gone(2)
    by (cases "open_tunnel env up closed tid now tx k mapping tunnels r'") auto
  show "isl res \<and> pushed effs = []"
    if "deliver_agent_frame up us closed closed' changed sent a frame tunnels r' = (res, r'', effs)"
    using that gone(3) by (cases rule: deliver_agent_frame_effs) auto
  show "\<not> delivered \<and> pushed effs = []"
    if "deliver_from_agent us closed closed' changed sent a frame r' = (delivered, r'', effs)"
    using deliver_pushed [OF that] gone(3) by (auto simp: deliver_lookup_Some split: if_splits)
qed

theorem revoked_agent_loses_tunnels_witness:
  "\<exists>e. open_tunnel (\<lambda>_. None) (\<lambda>_. Some 7) (\<lambda>_. False) ''t'' 0 6 6 example_mapping []
         (fst (disconnect_agent demo_uuid 7 io_demo)) = Inl e"
  using revoked_agent_loses_tunnels [OF io_demo_inv rtranclp.rtrancl_refl, of "\<lambda>_. Some 7" example_mapping] by blast

section \<open>Frames the registry delivers are frames the bridge accepts\<close>

text \<open>
  (C26) The two checks on inbound tunnel frames agree: a frame that \<open>deliver_agent_frame\<close> hands to
  a tunnel's subscriber carries the sender's own id whatever the agent wrote in it, belongs to
  a tunnel of that sender, and passes \<open>verify_inbound_tunnel_frame\<close> of the tunnel's bridge, so
  the bridge drops no frame that delivery has reported as accepted. The same holds of every frame
  \<open>deliver_from_agent\<close> hands over, the path of the gRPC service: it passes the check of the
  bridge of its stream. The uuid crate prints an id to text that it parses back, with no
  surrounding white space.
\<close>

theorem delivered_frames_pass_bridge:
  assumes uuid: "up (us a) = Some a" "trim (us a) = us a" "us a \<noteq> []"
    and run: "deliver_agent_frame up us closed closed' changed sent a frame tunnels r = (Inr (), r', effs)"
  shows "(\<exists>s t. hm_get (stream_subscribers r) (if_stream_id frame) = Some s \<and> sub_agent_id s = a \<and>
    hm_get tunnels (if_stream_id frame) = Some t \<and> up (trim (at_agent_id t)) = Some a \<and>
    pushed effs = [(sub_sender s, frame\<lparr>if_agent_id := us a\<rparr>)] \<and>
    verify_inbound_tunnel_frame up (if_stream_id frame) a (frame\<lparr>if_agent_id := us a\<rparr>) = Inr ()) \<and>
   (\<forall>c c' ch se fr q q' es. deliver_from_agent us c c' ch se a fr q = (True, q', es) \<longrightarrow>
      (\<exists>s. hm_get (stream_subscribers q) (if_stream_id fr) = Some s \<and> sub_agent_id s = a \<and>
         pushed es = [(sub_sender s, fr\<lparr>if_agent_id := us a\<rparr>)] \<and>
         verify_inbound_tunnel_frame up (if_stream_id fr) a (fr\<lparr>if_agent_id := us a\<rparr>) = Inr ()))"
proof -
  have passes: "verify_inbound_tunnel_frame up (if_stream_id fr) a (fr\<lparr>if_agent_id := us a\<rparr>) = Inr ()" for fr
    using uuid by (simp add: verify_inbound_tunnel_frame_def verify_agent_id_iff)
  show ?thesis
  proof (intro conjI allI impI)
    show "\<exists>s t. hm_get (stream_subscribers r) (if_stream_id frame) = Some s \<and> sub_agent_id s = a \<and>
        hm_get tunnels (if_stream_id frame) = Some t \<and> up (trim (at_agent_id t)) = Some a \<and>
        pushed effs = [(sub_sender s, frame\<lparr>if_agent_id := us a\<rparr>)] \<and>
        verify_inbound_tunnel_frame up (if_stream_id frame) a (frame\<lparr>if_agent_id := us a\<rparr>) = Inr ()"
      using run by (cases rule: deliver_agent_frame_effs) (auto simp: verify_tunnel_ownership_ok passes)
    fix c c' ch se fr q q' es
    assume "deliver_from_agent us c c' ch se a fr q = (True, q', es)"
    from deliver_pushed [OF this]
    show "\<exists>s. hm_get (stream_subscribers q) (if_stream_id fr) = Some s \<and> sub_agent_id s = a \<and>
         pushed es = [(sub_sender s, fr\<lparr>if_agent_id := us a\<rparr>)] \<and>
         verify_inbound_tunnel_frame up (if_stream_id fr) a (fr\<lparr>if_agent_id := us a\<rparr>) = Inr ()"
      by (auto simp: deliver_lookup_Some passes)
  qed
qed

definition demo_tunnels :: tunnel_table where
  "demo_tunnels = [(''s'', \<lparr>at_tunnel_id = ''s'', at_mapping_id = ''m'', at_agent_id = ''7'',
      at_created_at = 0, at_bytes_sent = 0, at_bytes_received = 0\<rparr>)]"

lemma trim_7: "trim ''7'' = ''7''"
  by code_simp

lemma demo_delivery:
  "deliver_agent_frame (\<lambda>_. Some 7) (\<lambda>_. ''7'') (\<lambda>_. False) (\<lambda>_. False) False (Some True) 7
     (demo_frame ''s'') demo_tunnels io_demo
   = (Inr (), io_demo, [PermitSend 5 (demo_frame ''s''\<lparr>if_agent_id := ''7''\<rparr>)])"
  by (simp add: trim_7 deliver_agent_frame_def verify_tunnel_ownership_def verify_agent_id_matches_def demo_tunnels_def
        deliver_from_agent_def deliver_lookup_def deliver_race_def io_demo_eval MAX_NAT_FRAME_BYTES_def)

theorem delivered_frames_pass_bridge_witness:
  "verify_inbound_tunnel_frame (\<lambda>_. Some 7) ''s'' 7 (demo_frame ''s''\<lparr>if_agent_id := ''7''\<rparr>) = Inr ()"
  using delivered_frames_pass_bridge [OF _ trim_7 _ demo_delivery]
  by (auto simp: demo_frame_def)

end
